(* ===== verification/Prelude.thy ===== *)
theory Prelude
  imports Main "HOL-Library.Word" "HOL-Library.Multiset"
begin

unbundle bit_operations_syntax

text \<open>
  Shared vocabulary of the development: the machine types of the x86_64 target, the two build
  profiles of Cargo, what a Rust computation can end in, programs over a state with those
  outcomes (and the sequencing that \<^verbatim>\<open>;\<close> and \<^verbatim>\<open>?\<close> stand for), overflow-checked
  arithmetic on \<^verbatim>\<open>usize\<close>, and byte slices.
\<close>

section \<open>Machine types and build profiles\<close>

type_synonym u8 = "8 word"
type_synonym u16 = "16 word"
type_synonym u32 = "32 word"
type_synonym u64 = "64 word"
type_synonym usize = "64 word"

text \<open>A raw pointer or an opaque C handle: an address, 0 for null.\<close>

type_synonym handle = "64 word"

text \<open>
  Cargo's \<^verbatim>\<open>dev\<close> profile checks arithmetic overflow and \<^verbatim>\<open>debug_assert!\<close>; the
  \<^verbatim>\<open>release\<close> profile does neither.
\<close>

datatype profile = Debug | Release

section \<open>Outcomes\<close>

text \<open>
  A computation returns, panics, runs into undefined behaviour, or is still suspended when the
  observation ends (a future that has been polled a given number of times and is still pending).
\<close>

datatype panic = Arithmetic_overflow | Assertion_failed | Unwrap_on_err | Unwrap_on_none | Slice_index

datatype ub = Invalid_discriminant | Uninit_read | Dangling_pointer

datatype fault = Panic panic | Undefined ub

datatype 'a outcome = Ret 'a | Fault fault | Unfinished

text \<open>Rust's \<^verbatim>\<open>Result<T, E>\<close>, the error on the left.\<close>

type_synonym ('a, 'e) result = "'e + 'a"

abbreviation Ok :: "'a \<Rightarrow> ('a, 'e) result" where
  "Ok \<equiv> Inr"

abbreviation Err :: "'e \<Rightarrow> ('a, 'e) result" where
  "Err \<equiv> Inl"

text \<open>\<^verbatim>\<open>Poll<T>\<close> of the futures of the standard library.\<close>

datatype 'a poll = Ready 'a | Pending

fun unwrap :: "('a, 'e) result \<Rightarrow> 'a outcome" where
  "unwrap (Inr x) = Ret x"
| "unwrap (Inl _) = Fault (Panic Unwrap_on_err)"

fun unwrap_err :: "('a, 'e) result \<Rightarrow> 'e outcome" where
  "unwrap_err (Inl e) = Ret e"
| "unwrap_err (Inr _) = Fault (Panic Unwrap_on_err)"

fun unwrap_option :: "'a option \<Rightarrow> 'a outcome" where
  "unwrap_option (Some x) = Ret x"
| "unwrap_option None = Fault (Panic Unwrap_on_none)"

text \<open>Reading a \<^verbatim>\<open>MaybeUninit\<close> that was never written is undefined behaviour.\<close>

fun assume_init :: "'a option \<Rightarrow> 'a outcome" where
  "assume_init (Some x) = Ret x"
| "assume_init None = Fault (Undefined Uninit_read)"

fun bind_outcome :: "'a outcome \<Rightarrow> ('a \<Rightarrow> 'b outcome) \<Rightarrow> 'b outcome" where
  "bind_outcome (Ret x) f = f x"
| "bind_outcome (Fault e) f = Fault e"
| "bind_outcome Unfinished f = Unfinished"

section \<open>Programs over a state\<close>

type_synonym ('w, 'a) prog = "'w \<Rightarrow> 'a outcome \<times> 'w"

named_theorems prog_simps \<open>evaluation of programs\<close>

definition ret :: "'a \<Rightarrow> ('w, 'a) prog" where
  "ret x w = (Ret x, w)"

definition lift :: "'a outcome \<Rightarrow> ('w, 'a) prog" where
  "lift r w = (r, w)"

definition modify :: "('w \<Rightarrow> 'w) \<Rightarrow> ('w, unit) prog" where
  "modify f w = (Ret (), f w)"

text \<open>Sequencing: a fault or a suspension of the first part ends the whole.\<close>

definition bind :: "('w, 'a) prog \<Rightarrow> ('a \<Rightarrow> ('w, 'b) prog) \<Rightarrow> ('w, 'b) prog" where
  "bind m f w = (case m w of
      (Ret x, w') \<Rightarrow> f x w'
    | (Fault e, w') \<Rightarrow> (Fault e, w')
    | (Unfinished, w') \<Rightarrow> (Unfinished, w'))"

text \<open>Sequencing through \<^verbatim>\<open>?\<close>: an \<^verbatim>\<open>Err\<close> is returned from the enclosing function.\<close>

definition try_bind ::
  "('w, ('a, 'e) result) prog \<Rightarrow> ('a \<Rightarrow> ('w, ('b, 'e) result) prog) \<Rightarrow> ('w, ('b, 'e) result) prog" where
  "try_bind m f = bind m (\<lambda>r. case r of Inl e \<Rightarrow> ret (Inl e) | Inr x \<Rightarrow> f x)"

lemma bind_ret [prog_simps, simp]: "bind (ret x) f = f x"
  by (simp add: bind_def ret_def fun_eq_iff)

lemma bind_lift_Ret [prog_simps, simp]: "bind (lift (Ret x)) f = f x"
  by (simp add: bind_def lift_def fun_eq_iff)

lemma lift_Ret [simp]: "lift (Ret x) = ret x"
  by (simp add: lift_def ret_def fun_eq_iff)

lemma bind_assoc: "bind (bind m f) g = bind m (\<lambda>x. bind (f x) g)"
  by (auto simp: bind_def fun_eq_iff split: prod.splits outcome.splits)

lemma try_bind_ret [prog_simps, simp]:
  "try_bind (ret (Inr x)) f = f x" "try_bind (ret (Inl e)) f = ret (Inl e)"
  by (simp_all add: try_bind_def)

lemma fst_ret [simp]: "fst (ret x w) = Ret x" and snd_ret [simp]: "snd (ret x w) = w"
  by (simp_all add: ret_def)

lemma bind_Ret_eq: "m w = (Ret x, w') \<Longrightarrow> bind m f w = f x w'"
  by (simp add: bind_def)

lemma bind_Ret_iff:
  "bind m f w = (Ret y, w'') \<longleftrightarrow> (\<exists>x w'. m w = (Ret x, w') \<and> f x w' = (Ret y, w''))"
  by (auto simp: bind_def split: prod.splits outcome.splits)

text \<open>
  Total correctness: from \<open>w\<close>, the program returns, with a value and a state that satisfy \<open>Q\<close>.
  In particular it neither panics nor touches memory that is not there.
\<close>

definition does :: "('w, 'a) prog \<Rightarrow> 'w \<Rightarrow> ('a \<Rightarrow> 'w \<Rightarrow> bool) \<Rightarrow> bool" where
  "does m w Q \<longleftrightarrow> (\<exists>x w'. m w = (Ret x, w') \<and> Q x w')"

lemma does_ret [simp]: "does (ret x) w Q \<longleftrightarrow> Q x w"
  by (simp add: does_def ret_def)

lemma does_lift: "does (lift r) w Q \<longleftrightarrow> (\<exists>x. r = Ret x \<and> Q x w)"
  by (auto simp: does_def lift_def)

lemma does_modify [simp]: "does (modify f) w Q \<longleftrightarrow> Q () (f w)"
  by (simp add: does_def modify_def)

lemma does_bind [simp]: "does (bind m f) w Q \<longleftrightarrow> does m w (\<lambda>x w'. does (f x) w' Q)"
  by (auto simp: does_def bind_Ret_iff)

lemma does_try_bind [simp]:
  "does (try_bind m f) w Q \<longleftrightarrow>
   does m w (\<lambda>r w'. case r of Inl e \<Rightarrow> Q (Inl e) w' | Inr x \<Rightarrow> does (f x) w' Q)"
proof -
  have "(\<lambda>r w'. does (case r of Inl e \<Rightarrow> ret (Inl e) | Inr x \<Rightarrow> f x) w' Q) =
      (\<lambda>r w'. case r of Inl e \<Rightarrow> Q (Inl e) w' | Inr x \<Rightarrow> does (f x) w' Q)"
    by (simp add: fun_eq_iff split: sum.split)
  then show ?thesis by (simp add: try_bind_def)
qed

lemma does_mono: "does m w Q \<Longrightarrow> (\<And>x w'. Q x w' \<Longrightarrow> P x w') \<Longrightarrow> does m w P"
  by (auto simp: does_def)

lemma does_if [simp]: "does (if b then m else m') w Q \<longleftrightarrow> (if b then does m w Q else does m' w Q)"
  by simp

lemma does_Ret: "does m w Q \<Longrightarrow> m w = (Ret x, w') \<Longrightarrow> Q x w'"
  by (simp add: does_def)

section \<open>Arithmetic on \<^verbatim>\<open>usize\<close>\<close>

text \<open>In a checked build an overflow panics; in a release build the value wraps.\<close>

definition usize_sub :: "profile \<Rightarrow> usize \<Rightarrow> usize \<Rightarrow> usize outcome" where
  "usize_sub p a b =
     (if p = Debug \<and> a < b then Fault (Panic Arithmetic_overflow) else Ret (a - b))"

definition usize_add :: "profile \<Rightarrow> usize \<Rightarrow> usize \<Rightarrow> usize outcome" where
  "usize_add p a b =
     (if p = Debug \<and> 2 ^ 64 \<le> unat a + unat b then Fault (Panic Arithmetic_overflow)
      else Ret (a + b))"

text \<open>\<^verbatim>\<open>iter().fold(acc, |acc, x| acc + x)\<close>, which is also what \<^verbatim>\<open>sum()\<close> computes.\<close>

fun usize_sum :: "profile \<Rightarrow> usize \<Rightarrow> usize list \<Rightarrow> usize outcome" where
  "usize_sum p acc [] = Ret acc"
| "usize_sum p acc (x # xs) = bind_outcome (usize_add p acc x) (\<lambda>acc'. usize_sum p acc' xs)"

lemma usize_sum_exact:
  "unat acc + sum_list (map unat xs) < 2 ^ 64 \<Longrightarrow>
   \<exists>s. usize_sum p acc xs = Ret s \<and> unat s = unat acc + sum_list (map unat xs)"
proof (induction xs arbitrary: acc)
  case Nil
  then show ?case by simp
next
  case (Cons x xs)
  then have fits: "unat acc + unat x < 2 ^ 64" by simp
  then have "unat (acc + x) = unat acc + unat x"
    by (simp add: unat_word_ariths)
  with Cons.IH [of "acc + x"] Cons.prems fits show ?case
    by (simp add: usize_add_def add.assoc)
qed

lemma usize_sum_wraps: "usize_sum Release acc xs = Ret (acc + sum_list xs)"
  by (induction xs arbitrary: acc) (simp_all add: usize_add_def add.assoc)

lemma usize_sum_overflow:
  "2 ^ 64 \<le> unat acc + sum_list (map unat xs) \<Longrightarrow>
   usize_sum Debug acc xs = Fault (Panic Arithmetic_overflow)"
proof (induction xs arbitrary: acc)
  case Nil
  then show ?case
    using unsigned_less [of acc, where 'a = nat] by simp
next
  case (Cons x xs)
  show ?case
  proof (cases "2 ^ 64 \<le> unat acc + unat x")
    case True
    then show ?thesis by (simp add: usize_add_def)
  next
    case False
    then have "unat (acc + x) = unat acc + unat x"
      by (simp add: unat_word_ariths)
    with Cons False show ?thesis by (simp add: usize_add_def)
  qed
qed

section \<open>Byte slices\<close>

text \<open>
  A \<^verbatim>\<open>&[u8]\<close>, \<^verbatim>\<open>&mut [u8]\<close> or \<^verbatim>\<open>IoSlice\<close>: where the bytes are and what they are. The
  wrapper hands address and length on; only the active-message code reads the bytes.
\<close>

record slice =
  as_ptr :: handle
  contents :: "u8 list"

definition slice_len :: "slice \<Rightarrow> usize" where
  "slice_len s = word_of_nat (length (contents s))"

text \<open>No Rust object is larger than \<^verbatim>\<open>isize::MAX\<close> bytes.\<close>

definition slice_ok :: "slice \<Rightarrow> bool" where
  "slice_ok s \<longleftrightarrow> length (contents s) < 2 ^ 63"

lemma unat_slice_len: "slice_ok s \<Longrightarrow> unat (slice_len s) = length (contents s)"
  by (simp add: slice_ok_def slice_len_def unat_of_nat)

end
