(* ===== verification/Status.thy ===== *)
theory Status
  imports Prelude
begin

text \<open>
  Status codes and errors: the \<^verbatim>\<open>Error\<close> enum of \<^verbatim>\<open>src/lib.rs\<close> with its conversions, and the
  pointer-classification functions of \<^verbatim>\<open>ucx1-sys/src/lib.rs\<close>. The enum \<^verbatim>\<open>ucs_status_t\<close> and the
  other constants are generated by bindgen from the UCX headers: their numeric values are a
  parameter (record \<open>abi\<close>), with what the code relies on in the locale \<open>status_abi\<close>.
\<close>

section \<open>The status enum\<close>

text \<open>
  The enumerators that the sources name; an enumerator of the generated enum that they do not
  name is \<open>UCS_OTHER\<close> with its discriminant.
\<close>

datatype (plugins only: code size) ucs_status_t =
    UCS_OK | UCS_INPROGRESS
  | UCS_ERR_NO_MESSAGE | UCS_ERR_NO_RESOURCE | UCS_ERR_IO_ERROR | UCS_ERR_NO_MEMORY
  | UCS_ERR_INVALID_PARAM | UCS_ERR_UNREACHABLE | UCS_ERR_INVALID_ADDR
  | UCS_ERR_NOT_IMPLEMENTED | UCS_ERR_MESSAGE_TRUNCATED | UCS_ERR_NO_PROGRESS
  | UCS_ERR_BUFFER_TOO_SMALL | UCS_ERR_NO_ELEM | UCS_ERR_SOME_CONNECTS_FAILED
  | UCS_ERR_NO_DEVICE | UCS_ERR_BUSY | UCS_ERR_CANCELED | UCS_ERR_SHMEM_SEGMENT
  | UCS_ERR_ALREADY_EXISTS | UCS_ERR_OUT_OF_RANGE | UCS_ERR_TIMED_OUT
  | UCS_ERR_EXCEEDS_LIMIT | UCS_ERR_UNSUPPORTED | UCS_ERR_REJECTED
  | UCS_ERR_NOT_CONNECTED | UCS_ERR_CONNECTION_RESET
  | UCS_ERR_FIRST_LINK_FAILURE | UCS_ERR_LAST_LINK_FAILURE
  | UCS_ERR_FIRST_ENDPOINT_FAILURE | UCS_ERR_ENDPOINT_TIMEOUT
  | UCS_ERR_LAST_ENDPOINT_FAILURE | UCS_ERR_LAST
  | UCS_OTHER u8

definition status_codes :: "ucs_status_t list" where
  "status_codes =
    [UCS_ERR_NO_MESSAGE, UCS_ERR_NO_RESOURCE, UCS_ERR_IO_ERROR, UCS_ERR_NO_MEMORY,
     UCS_ERR_INVALID_PARAM, UCS_ERR_UNREACHABLE, UCS_ERR_INVALID_ADDR,
     UCS_ERR_NOT_IMPLEMENTED, UCS_ERR_MESSAGE_TRUNCATED, UCS_ERR_NO_PROGRESS,
     UCS_ERR_BUFFER_TOO_SMALL, UCS_ERR_NO_ELEM, UCS_ERR_SOME_CONNECTS_FAILED,
     UCS_ERR_NO_DEVICE, UCS_ERR_BUSY, UCS_ERR_CANCELED, UCS_ERR_SHMEM_SEGMENT,
     UCS_ERR_ALREADY_EXISTS, UCS_ERR_OUT_OF_RANGE, UCS_ERR_TIMED_OUT,
     UCS_ERR_EXCEEDS_LIMIT, UCS_ERR_UNSUPPORTED, UCS_ERR_REJECTED,
     UCS_ERR_NOT_CONNECTED, UCS_ERR_CONNECTION_RESET,
     UCS_ERR_FIRST_LINK_FAILURE, UCS_ERR_LAST_LINK_FAILURE,
     UCS_ERR_FIRST_ENDPOINT_FAILURE, UCS_ERR_ENDPOINT_TIMEOUT,
     UCS_ERR_LAST_ENDPOINT_FAILURE, UCS_ERR_LAST]"

text \<open>The error enumerators by name: negative codes that a failing call can return.\<close>

definition is_error_status :: "ucs_status_t \<Rightarrow> bool" where
  "is_error_status s \<longleftrightarrow> s \<in> set status_codes"

section \<open>The \<^verbatim>\<open>Error\<close> enum\<close>

datatype (plugins only: code size) Error =
    Inprogress | NoMessage | NoReource | IoError | NoMemory | InvalidParam | Unreachable
  | InvalidAddr | NotImplemented | MessageTruncated | NoProgress | BufferTooSmall | NoElem
  | SomeConnectsFailed | NoDevice | Busy | Canceled | ShmemSegment | AlreadyExists
  | OutOfRange | Timeout | ExceedsLimit | Unsupported | Rejected | NotConnected
  | ConnectionReset | FirstLinkFailure | LastLinkFailure | FirstEndpointFailure
  | LastEndpointFailure | EndpointTimeout | Unknown

text \<open>The \<^verbatim>\<open>match\<close> of \<^verbatim>\<open>Error::from_error\<close>, arm by arm.\<close>

fun error_of_status :: "ucs_status_t \<Rightarrow> Error" where
  "error_of_status UCS_INPROGRESS = Inprogress"
| "error_of_status UCS_ERR_NO_MESSAGE = NoMessage"
| "error_of_status UCS_ERR_NO_RESOURCE = NoReource"
| "error_of_status UCS_ERR_IO_ERROR = IoError"
| "error_of_status UCS_ERR_NO_MEMORY = NoMemory"
| "error_of_status UCS_ERR_INVALID_PARAM = InvalidParam"
| "error_of_status UCS_ERR_UNREACHABLE = Unreachable"
| "error_of_status UCS_ERR_INVALID_ADDR = InvalidAddr"
| "error_of_status UCS_ERR_NOT_IMPLEMENTED = NotImplemented"
| "error_of_status UCS_ERR_MESSAGE_TRUNCATED = MessageTruncated"
| "error_of_status UCS_ERR_NO_PROGRESS = NoProgress"
| "error_of_status UCS_ERR_BUFFER_TOO_SMALL = BufferTooSmall"
| "error_of_status UCS_ERR_NO_ELEM = NoElem"
| "error_of_status UCS_ERR_SOME_CONNECTS_FAILED = SomeConnectsFailed"
| "error_of_status UCS_ERR_NO_DEVICE = NoDevice"
| "error_of_status UCS_ERR_BUSY = Busy"
| "error_of_status UCS_ERR_CANCELED = Canceled"
| "error_of_status UCS_ERR_SHMEM_SEGMENT = ShmemSegment"
| "error_of_status UCS_ERR_ALREADY_EXISTS = AlreadyExists"
| "error_of_status UCS_ERR_OUT_OF_RANGE = OutOfRange"
| "error_of_status UCS_ERR_TIMED_OUT = Timeout"
| "error_of_status UCS_ERR_EXCEEDS_LIMIT = ExceedsLimit"
| "error_of_status UCS_ERR_UNSUPPORTED = Unsupported"
| "error_of_status UCS_ERR_REJECTED = Rejected"
| "error_of_status UCS_ERR_NOT_CONNECTED = NotConnected"
| "error_of_status UCS_ERR_CONNECTION_RESET = ConnectionReset"
| "error_of_status UCS_ERR_FIRST_LINK_FAILURE = FirstLinkFailure"
| "error_of_status UCS_ERR_LAST_LINK_FAILURE = LastLinkFailure"
| "error_of_status UCS_ERR_FIRST_ENDPOINT_FAILURE = FirstEndpointFailure"
| "error_of_status UCS_ERR_ENDPOINT_TIMEOUT = EndpointTimeout"
| "error_of_status UCS_ERR_LAST_ENDPOINT_FAILURE = LastEndpointFailure"
| "error_of_status _ = Unknown"

text \<open>\<^verbatim>\<open>Error::from_error\<close>: the \<^verbatim>\<open>debug_assert_ne!\<close> panics on \<open>UCS_OK\<close> in a checked build.\<close>

definition from_error :: "profile \<Rightarrow> ucs_status_t \<Rightarrow> Error outcome" where
  "from_error p status =
     (if p = Debug \<and> status = UCS_OK then Fault (Panic Assertion_failed)
      else Ret (error_of_status status))"

definition from_status :: "profile \<Rightarrow> ucs_status_t \<Rightarrow> (unit, Error) result outcome" where
  "from_status p status =
     (if status = UCS_OK then Ret (Ok ())
      else bind_outcome (from_error p status) (\<lambda>e. Ret (Err e)))"

lemma from_status_simps [simp, prog_simps]:
  "from_status p UCS_OK = Ret (Ok ())"
  "s \<noteq> UCS_OK \<Longrightarrow> from_status p s = Ret (Err (error_of_status s))"
  by (simp_all add: from_status_def from_error_def)

section \<open>Generated constants\<close>

text \<open>
  What bindgen generates from the UCX headers and the sources use as numbers: the discriminants
  of \<^verbatim>\<open>ucs_status_t\<close> (an \<^verbatim>\<open>i8\<close>) with the enumerator a byte denotes, if any, and the constants
  of data types, masks and flags, by their C names. \<open>SIZE_OF_REQUEST\<close> stands for
  \<^verbatim>\<open>size_of::<Request>()\<close>, which depends on the layout of \<^verbatim>\<open>AtomicWaker\<close>.
\<close>

datatype (plugins only: code size) cname =
    UCP_DATATYPE_SHIFT | UCP_DATATYPE_CONTIG | UCP_DATATYPE_IOV
  | UCP_API_MAJOR | UCP_API_MINOR | SIZE_OF_REQUEST
  | UCS_CONFIG_PRINT_CONFIG | UCS_CONFIG_PRINT_DOC | UCS_CONFIG_PRINT_HEADER | UCS_CONFIG_PRINT_HIDDEN
  | UCP_FEATURE_RMA | UCP_FEATURE_TAG | UCP_FEATURE_STREAM | UCP_FEATURE_WAKEUP | UCP_FEATURE_AM
  | UCP_PARAM_FIELD_FEATURES | UCP_PARAM_FIELD_REQUEST_SIZE | UCP_PARAM_FIELD_REQUEST_INIT
  | UCP_PARAM_FIELD_REQUEST_CLEANUP | UCP_PARAM_FIELD_MT_WORKERS_SHARED
  | UCP_WORKER_PARAM_FIELD_THREAD_MODE | UCP_WORKER_ATTR_FIELD_THREAD_MODE | UCS_THREAD_MODE_SINGLE
  | UCP_EP_PARAM_FIELD_REMOTE_ADDRESS | UCP_EP_PARAM_FIELD_ERR_HANDLING_MODE
  | UCP_EP_PARAM_FIELD_ERR_HANDLER | UCP_EP_PARAM_FIELD_USER_DATA | UCP_EP_PARAM_FIELD_SOCK_ADDR
  | UCP_EP_PARAM_FIELD_FLAGS | UCP_EP_PARAM_FIELD_CONN_REQUEST | UCP_EP_PARAMS_FLAGS_CLIENT_SERVER
  | UCP_LISTENER_PARAM_FIELD_SOCK_ADDR | UCP_LISTENER_PARAM_FIELD_CONN_HANDLER
  | UCP_LISTENER_ATTR_FIELD_SOCKADDR | UCP_CONN_REQUEST_ATTR_FIELD_CLIENT_ADDR
  | UCP_MEM_MAP_PARAM_FIELD_ADDRESS | UCP_MEM_MAP_PARAM_FIELD_LENGTH
  | UCP_AM_RECV_ATTR_FIELD_REPLY_EP | UCP_AM_RECV_ATTR_FLAG_DATA | UCP_AM_RECV_ATTR_FLAG_RNDV
  | UCP_AM_SEND_FLAG_REPLY | UCP_AM_SEND_FLAG_EAGER | UCP_AM_SEND_FLAG_RNDV
  | UCP_AM_HANDLER_PARAM_FIELD_ID | UCP_AM_HANDLER_PARAM_FIELD_CB | UCP_AM_HANDLER_PARAM_FIELD_ARG
  | UCP_OP_ATTR_FIELD_CALLBACK | UCP_OP_ATTR_FIELD_DATATYPE | UCP_OP_ATTR_FIELD_FLAGS

record abi =
  code :: "ucs_status_t \<Rightarrow> u8"
  decode :: "u8 \<Rightarrow> ucs_status_t option"
  num :: "cname \<Rightarrow> u64"

abbreviation num32 :: "abi \<Rightarrow> cname \<Rightarrow> u32" where
  "num32 B c \<equiv> ucast (num B c)"

section \<open>\<^verbatim>\<open>ucx1-sys\<close>: data types and status pointers\<close>

text \<open>\<open>UCP_DATATYPE_SHIFT\<close> is a compile-time constant below 64, so the shift itself cannot overflow.\<close>

definition ucp_dt_make_contig :: "abi \<Rightarrow> usize \<Rightarrow> u64" where
  "ucp_dt_make_contig B elem_size =
     push_bit (unat (num B UCP_DATATYPE_SHIFT)) elem_size OR num B UCP_DATATYPE_CONTIG"

text \<open>\<^verbatim>\<open>UCS_ERR_LAST as usize\<close> sign-extends the \<^verbatim>\<open>i8\<close> discriminant.\<close>

definition err_last :: "abi \<Rightarrow> usize" where
  "err_last B = scast (code B UCS_ERR_LAST)"

definition UCS_PTR_IS_ERR :: "abi \<Rightarrow> handle \<Rightarrow> bool" where
  "UCS_PTR_IS_ERR B ptr \<longleftrightarrow> err_last B \<le> ptr"

definition UCS_PTR_IS_PTR :: "profile \<Rightarrow> abi \<Rightarrow> handle \<Rightarrow> bool outcome" where
  "UCS_PTR_IS_PTR p B ptr =
     bind_outcome (usize_sub p ptr 1) (\<lambda>x.
     bind_outcome (usize_sub p (err_last B) 1) (\<lambda>y. Ret (x < y)))"

text \<open>\<^verbatim>\<open>transmute(ptr as i8)\<close>: undefined behaviour when the byte is no enumerator.\<close>

definition UCS_PTR_RAW_STATUS :: "abi \<Rightarrow> handle \<Rightarrow> ucs_status_t outcome" where
  "UCS_PTR_RAW_STATUS B ptr =
     (case decode B (ucast ptr) of
        Some s \<Rightarrow> Ret s
      | None \<Rightarrow> Fault (Undefined Invalid_discriminant))"

definition UCS_PTR_STATUS :: "profile \<Rightarrow> abi \<Rightarrow> handle \<Rightarrow> ucs_status_t outcome" where
  "UCS_PTR_STATUS p B ptr =
     bind_outcome (UCS_PTR_IS_PTR p B ptr) (\<lambda>is_ptr.
       if is_ptr then Ret UCS_INPROGRESS else UCS_PTR_RAW_STATUS B ptr)"

definition from_ptr :: "profile \<Rightarrow> abi \<Rightarrow> handle \<Rightarrow> (unit, Error) result outcome" where
  "from_ptr p B ptr =
     (if UCS_PTR_IS_ERR B ptr then
        bind_outcome (UCS_PTR_RAW_STATUS B ptr) (\<lambda>s.
        bind_outcome (from_error p s) (\<lambda>e. Ret (Err e)))
      else Ret (Ok ()))"

section \<open>What the sources rely on\<close>

text \<open>
  The documented layout of \<^verbatim>\<open>ucs_status_t\<close>: success is 0, every error code is negative and
  none lies below \<open>UCS_ERR_LAST\<close>, and a byte that is the discriminant of a named enumerator
  denotes it.
\<close>

locale status_abi =
  fixes B :: abi
  assumes code_ok: "code B UCS_OK = 0"
    and decode_named: "s \<in> set (UCS_OK # UCS_INPROGRESS # status_codes) \<Longrightarrow> decode B (code B s) = Some s"
    and code_decode: "decode B b = Some s \<Longrightarrow> code B s = b"
    and error_range: "is_error_status s \<Longrightarrow>
      sint (code B UCS_ERR_LAST) \<le> sint (code B s) \<and> sint (code B s) < 0"

text \<open>A call that fails at once returns its status as a pointer (\<^verbatim>\<open>UCS_STATUS_PTR\<close>).\<close>

definition status_ptr :: "abi \<Rightarrow> ucs_status_t \<Rightarrow> handle" where
  "status_ptr B s = scast (code B s)"

text \<open>The three kinds of pointer that an operation can get back.\<close>

definition is_request :: "abi \<Rightarrow> handle \<Rightarrow> bool" where
  "is_request B ptr \<longleftrightarrow> ptr \<noteq> 0 \<and> ptr < err_last B"

lemma uint_scast_negative:
  fixes b :: u8
  assumes "sint b < 0"
  shows "uint (scast b :: usize) = 2 ^ 64 + sint b"
proof -
  have "- 128 \<le> sint b"
    using sint_greater_eq [of b] by simp
  with assms have "(sint b + 2 ^ 64) mod 2 ^ 64 = sint b + 2 ^ 64"
    by (intro mod_pos_pos_trivial) simp_all
  moreover have "uint (scast b :: usize) = sint b mod 2 ^ 64"
    by transfer (simp add: take_bit_eq_mod)
  ultimately show ?thesis
    by (metis mod_add_self2 add.commute)
qed

lemma ucast_scast_id [simp]: "ucast (scast (b :: u8) :: usize) = b"
  by (rule bit_word_eqI) (simp add: bit_ucast_iff bit_signed_iff)

context status_abi
begin

lemma err_last_value: "uint (err_last B) = 2 ^ 64 + sint (code B UCS_ERR_LAST)"
  using error_range [of UCS_ERR_LAST]
  by (simp add: err_last_def uint_scast_negative is_error_status_def status_codes_def)

lemma err_last_bounds: "2 ^ 64 - 128 \<le> uint (err_last B)" "uint (err_last B) < 2 ^ 64"
proof -
  show "2 ^ 64 - 128 \<le> uint (err_last B)"
    using sint_greater_eq [of "code B UCS_ERR_LAST"] by (simp add: err_last_value)
  show "uint (err_last B) < 2 ^ 64"
    using uint_bounded [of "err_last B"] by simp
qed

lemma err_last_pos: "1 \<le> err_last B" "err_last B \<noteq> 0"
  using err_last_bounds by (auto simp: word_le_def)

lemma is_ptr_nonnull: "ptr \<noteq> 0 \<Longrightarrow> UCS_PTR_IS_PTR p B ptr = Ret (is_request B ptr)"
proof -
  assume nz: "ptr \<noteq> 0"
  then have "1 \<le> ptr" by (simp add: word_le_def word_less_def) (metis add.left_neutral uint_0_iff uint_ge_0 zless_imp_add1_zle order_le_less)
  then have "(ptr - 1 < err_last B - 1) = (ptr < err_last B)"
    using err_last_pos by (meson word_le_minus_mono_left word_less_minus_mono_left le_less linorder_not_le)
  with \<open>1 \<le> ptr\<close> err_last_pos(1) nz show ?thesis
    by (simp add: UCS_PTR_IS_PTR_def usize_sub_def is_request_def linorder_not_less [symmetric])
qed

lemma is_ptr_null: "UCS_PTR_IS_PTR Debug B 0 = Fault (Panic Arithmetic_overflow)"
  "UCS_PTR_IS_PTR Release B 0 = Ret False"
  using word_not_simps(3) [of "err_last B - 1"] by (simp_all add: UCS_PTR_IS_PTR_def usize_sub_def)

lemma not_request_is_err: "ptr \<noteq> 0 \<Longrightarrow> \<not> is_request B ptr \<Longrightarrow> UCS_PTR_IS_ERR B ptr"
  by (simp add: is_request_def UCS_PTR_IS_ERR_def)

lemma request_not_err: "is_request B ptr \<Longrightarrow> \<not> UCS_PTR_IS_ERR B ptr"
  by (auto simp: is_request_def UCS_PTR_IS_ERR_def)

lemma raw_status_of_status_ptr:
  "s \<in> set (UCS_OK # UCS_INPROGRESS # status_codes) \<Longrightarrow> UCS_PTR_RAW_STATUS B (status_ptr B s) = Ret s"
  using decode_named [of s] by (simp add: UCS_PTR_RAW_STATUS_def status_ptr_def del: set_simps)

lemma status_ptr_is_err: "is_error_status s \<Longrightarrow> UCS_PTR_IS_ERR B (status_ptr B s)"
  using error_range [of s] error_range [of UCS_ERR_LAST]
  by (simp add: UCS_PTR_IS_ERR_def status_ptr_def word_le_def err_last_value uint_scast_negative)

lemma status_ptr_not_request: "is_error_status s \<Longrightarrow> \<not> is_request B (status_ptr B s)"
  using status_ptr_is_err request_not_err by blast

lemma status_ptr_nonnull: "is_error_status s \<Longrightarrow> status_ptr B s \<noteq> 0"
  using status_ptr_is_err [of s] err_last_pos by (auto simp: UCS_PTR_IS_ERR_def)

text \<open>A pointer classified as an error never carries \<open>UCS_OK\<close>, so the conversion cannot panic.\<close>

lemma err_ptr_low_byte: "UCS_PTR_IS_ERR B ptr \<Longrightarrow> (ucast ptr :: u8) \<noteq> 0"
proof
  assume "UCS_PTR_IS_ERR B ptr" and zero: "(ucast ptr :: u8) = 0"
  then have "2 ^ 64 - 128 \<le> uint ptr"
    using err_last_bounds by (simp add: UCS_PTR_IS_ERR_def word_le_def)
  moreover have "uint ptr < 2 ^ 64"
    using uint_bounded [of ptr] by simp
  moreover have "uint ptr mod 256 = 0"
    using arg_cong [OF zero, of uint] by (simp add: unsigned_ucast_eq take_bit_eq_mod)
  ultimately show False by simp presburger
qed

lemma raw_status_not_ok: "UCS_PTR_IS_ERR B ptr \<Longrightarrow> UCS_PTR_RAW_STATUS B ptr = Ret s \<Longrightarrow> s \<noteq> UCS_OK"
  using err_ptr_low_byte [of ptr] code_decode [of "ucast ptr" s] code_ok
  by (auto simp: UCS_PTR_RAW_STATUS_def split: option.splits)

lemma from_ptr_error:
  "UCS_PTR_IS_ERR B ptr \<Longrightarrow> UCS_PTR_RAW_STATUS B ptr = Ret s \<Longrightarrow>
   from_ptr p B ptr = Ret (Err (error_of_status s))"
  using raw_status_not_ok [of ptr s] by (simp add: from_ptr_def from_error_def)

end

section \<open>The documented constants of UCX\<close>

text \<open>
  The values that the public headers of UCX 1.x document: an instance of the parameter, on which
  the assumptions are discharged.
\<close>

fun ucx_code :: "ucs_status_t \<Rightarrow> u8" where
  "ucx_code UCS_OK = 0"
| "ucx_code UCS_INPROGRESS = 1"
| "ucx_code UCS_ERR_NO_MESSAGE = -1"
| "ucx_code UCS_ERR_NO_RESOURCE = -2"
| "ucx_code UCS_ERR_IO_ERROR = -3"
| "ucx_code UCS_ERR_NO_MEMORY = -4"
| "ucx_code UCS_ERR_INVALID_PARAM = -5"
| "ucx_code UCS_ERR_UNREACHABLE = -6"
| "ucx_code UCS_ERR_INVALID_ADDR = -7"
| "ucx_code UCS_ERR_NOT_IMPLEMENTED = -8"
| "ucx_code UCS_ERR_MESSAGE_TRUNCATED = -9"
| "ucx_code UCS_ERR_NO_PROGRESS = -10"
| "ucx_code UCS_ERR_BUFFER_TOO_SMALL = -11"
| "ucx_code UCS_ERR_NO_ELEM = -12"
| "ucx_code UCS_ERR_SOME_CONNECTS_FAILED = -13"
| "ucx_code UCS_ERR_NO_DEVICE = -14"
| "ucx_code UCS_ERR_BUSY = -15"
| "ucx_code UCS_ERR_CANCELED = -16"
| "ucx_code UCS_ERR_SHMEM_SEGMENT = -17"
| "ucx_code UCS_ERR_ALREADY_EXISTS = -18"
| "ucx_code UCS_ERR_OUT_OF_RANGE = -19"
| "ucx_code UCS_ERR_TIMED_OUT = -20"
| "ucx_code UCS_ERR_EXCEEDS_LIMIT = -21"
| "ucx_code UCS_ERR_UNSUPPORTED = -22"
| "ucx_code UCS_ERR_REJECTED = -23"
| "ucx_code UCS_ERR_NOT_CONNECTED = -24"
| "ucx_code UCS_ERR_CONNECTION_RESET = -25"
| "ucx_code UCS_ERR_FIRST_LINK_FAILURE = -40"
| "ucx_code UCS_ERR_LAST_LINK_FAILURE = -59"
| "ucx_code UCS_ERR_FIRST_ENDPOINT_FAILURE = -60"
| "ucx_code UCS_ERR_ENDPOINT_TIMEOUT = -80"
| "ucx_code UCS_ERR_LAST_ENDPOINT_FAILURE = -89"
| "ucx_code UCS_ERR_LAST = -100"
| "ucx_code (UCS_OTHER b) = b"

definition ucx_decode :: "u8 \<Rightarrow> ucs_status_t option" where
  "ucx_decode b = map_of (map (\<lambda>s. (ucx_code s, s)) (UCS_OK # UCS_INPROGRESS # status_codes)) b"

fun ucx_num :: "cname \<Rightarrow> u64" where
  "ucx_num UCP_DATATYPE_SHIFT = 3" | "ucx_num UCP_DATATYPE_CONTIG = 0" | "ucx_num UCP_DATATYPE_IOV = 2"
| "ucx_num UCP_API_MAJOR = 1" | "ucx_num UCP_API_MINOR = 14" | "ucx_num SIZE_OF_REQUEST = 24"
| "ucx_num UCS_CONFIG_PRINT_CONFIG = 1" | "ucx_num UCS_CONFIG_PRINT_HEADER = 2"
| "ucx_num UCS_CONFIG_PRINT_DOC = 4" | "ucx_num UCS_CONFIG_PRINT_HIDDEN = 8"
| "ucx_num UCP_FEATURE_TAG = 1" | "ucx_num UCP_FEATURE_RMA = 2" | "ucx_num UCP_FEATURE_WAKEUP = 16"
| "ucx_num UCP_FEATURE_STREAM = 32" | "ucx_num UCP_FEATURE_AM = 64"
| "ucx_num UCP_PARAM_FIELD_FEATURES = 1" | "ucx_num UCP_PARAM_FIELD_REQUEST_SIZE = 2"
| "ucx_num UCP_PARAM_FIELD_REQUEST_INIT = 4" | "ucx_num UCP_PARAM_FIELD_REQUEST_CLEANUP = 8"
| "ucx_num UCP_PARAM_FIELD_MT_WORKERS_SHARED = 32"
| "ucx_num UCP_WORKER_PARAM_FIELD_THREAD_MODE = 1" | "ucx_num UCP_WORKER_ATTR_FIELD_THREAD_MODE = 1"
| "ucx_num UCS_THREAD_MODE_SINGLE = 0"
| "ucx_num UCP_EP_PARAM_FIELD_REMOTE_ADDRESS = 1" | "ucx_num UCP_EP_PARAM_FIELD_ERR_HANDLING_MODE = 2"
| "ucx_num UCP_EP_PARAM_FIELD_ERR_HANDLER = 4" | "ucx_num UCP_EP_PARAM_FIELD_USER_DATA = 8"
| "ucx_num UCP_EP_PARAM_FIELD_SOCK_ADDR = 16" | "ucx_num UCP_EP_PARAM_FIELD_FLAGS = 32"
| "ucx_num UCP_EP_PARAM_FIELD_CONN_REQUEST = 64" | "ucx_num UCP_EP_PARAMS_FLAGS_CLIENT_SERVER = 1"
| "ucx_num UCP_LISTENER_PARAM_FIELD_SOCK_ADDR = 1" | "ucx_num UCP_LISTENER_PARAM_FIELD_CONN_HANDLER = 4"
| "ucx_num UCP_LISTENER_ATTR_FIELD_SOCKADDR = 1" | "ucx_num UCP_CONN_REQUEST_ATTR_FIELD_CLIENT_ADDR = 1"
| "ucx_num UCP_MEM_MAP_PARAM_FIELD_ADDRESS = 1" | "ucx_num UCP_MEM_MAP_PARAM_FIELD_LENGTH = 2"
| "ucx_num UCP_AM_RECV_ATTR_FIELD_REPLY_EP = 1" | "ucx_num UCP_AM_RECV_ATTR_FLAG_DATA = 0x10000"
| "ucx_num UCP_AM_RECV_ATTR_FLAG_RNDV = 0x20000"
| "ucx_num UCP_AM_SEND_FLAG_REPLY = 1" | "ucx_num UCP_AM_SEND_FLAG_EAGER = 2"
| "ucx_num UCP_AM_SEND_FLAG_RNDV = 4"
| "ucx_num UCP_AM_HANDLER_PARAM_FIELD_ID = 1" | "ucx_num UCP_AM_HANDLER_PARAM_FIELD_CB = 4"
| "ucx_num UCP_AM_HANDLER_PARAM_FIELD_ARG = 8"
| "ucx_num UCP_OP_ATTR_FIELD_CALLBACK = 2" | "ucx_num UCP_OP_ATTR_FIELD_DATATYPE = 8"
| "ucx_num UCP_OP_ATTR_FIELD_FLAGS = 16"

definition ucx_abi :: abi where
  "ucx_abi = \<lparr>code = ucx_code, decode = ucx_decode, num = ucx_num\<rparr>"

lemma ucx_abi_code [simp]: "code ucx_abi = ucx_code" "decode ucx_abi = ucx_decode" "num ucx_abi = ucx_num"
  by (simp_all add: ucx_abi_def)

text \<open>Facts about the whole table, each one evaluation.\<close>

lemma ucx_codes_distinct: "distinct (map ucx_code (UCS_OK # UCS_INPROGRESS # status_codes))"
  by code_simp

lemma ucx_codes_range: "list_all (\<lambda>s. - 100 \<le> sint (ucx_code s) \<and> sint (ucx_code s) < 0) status_codes"
  by code_simp

lemma ucx_decode_code:
  "s \<in> set (UCS_OK # UCS_INPROGRESS # status_codes) \<Longrightarrow> ucx_decode (ucx_code s) = Some s"
  unfolding ucx_decode_def using ucx_codes_distinct
  by (intro map_of_is_SomeI) (auto simp: comp_def simp del: list.map)

interpretation ucx: status_abi ucx_abi
proof
  show "code ucx_abi UCS_OK = 0" by simp
next
  fix s assume "s \<in> set (UCS_OK # UCS_INPROGRESS # status_codes)"
  then show "decode ucx_abi (code ucx_abi s) = Some s"
    by (simp add: ucx_decode_code del: set_simps)
next
  fix b s assume "decode ucx_abi b = Some s"
  then have "(b, s) \<in> set (map (\<lambda>s. (ucx_code s, s)) (UCS_OK # UCS_INPROGRESS # status_codes))"
    by (intro map_of_SomeD) (simp add: ucx_decode_def)
  then show "code ucx_abi s = b" by (auto simp del: list.map set_simps)
next
  fix s assume "is_error_status s"
  then have "- 100 \<le> sint (ucx_code s) \<and> sint (ucx_code s) < 0"
    using ucx_codes_range by (simp add: is_error_status_def list_all_iff)
  then show "sint (code ucx_abi UCS_ERR_LAST) \<le> sint (code ucx_abi s) \<and> sint (code ucx_abi s) < 0"
    by simp
qed

section \<open>Properties\<close>

lemma error_of_status_inj: "inj_on error_of_status (set status_codes)"
proof -
  have "distinct (map error_of_status status_codes)"
    by code_simp
  then show ?thesis by (simp add: distinct_map)
qed

context status_abi
begin

lemma trichotomy:
  "if ptr = 0 then \<not> UCS_PTR_IS_ERR B ptr
   else UCS_PTR_IS_PTR p B ptr = Ret (\<not> UCS_PTR_IS_ERR B ptr)"
  using is_ptr_nonnull [of ptr p] err_last_pos
  by (auto simp: is_request_def UCS_PTR_IS_ERR_def)

lemma from_status_ptr:
  "is_error_status s \<Longrightarrow> from_ptr p B (status_ptr B s) = Ret (Err (error_of_status s))"
  by (rule from_ptr_error)
    (simp_all add: status_ptr_is_err raw_status_of_status_ptr is_error_status_def)

lemma lossless:
  "is_error_status s \<Longrightarrow> is_error_status t \<Longrightarrow>
   from_ptr p B (status_ptr B s) = from_ptr q B (status_ptr B t) \<longleftrightarrow> s = t"
  using error_of_status_inj
  by (auto simp: from_status_ptr is_error_status_def dest: inj_onD)

lemma ptr_status_cases:
  "UCS_PTR_STATUS p B ptr =
     (if ptr = 0 then (if p = Debug then Fault (Panic Arithmetic_overflow) else Ret UCS_OK)
      else if UCS_PTR_IS_ERR B ptr then UCS_PTR_RAW_STATUS B ptr
      else Ret UCS_INPROGRESS)"
proof (cases "ptr = 0")
  case True
  then show ?thesis
    using is_ptr_null decode_named [of UCS_OK] code_ok
    by (cases p) (simp_all add: UCS_PTR_STATUS_def UCS_PTR_RAW_STATUS_def)
next
  case False
  then show ?thesis
    using trichotomy [of ptr p] by (simp add: UCS_PTR_STATUS_def)
qed

end

text \<open>
  A pointer that an operation gets back is of exactly one of three kinds: null, a request, or
  an error. On a non-null pointer the two classification functions are each other's negation in
  both build profiles, so the last branch of every \<^verbatim>\<open>is_null / UCS_PTR_IS_PTR / else\<close> chain is
  reached by error pointers only.
\<close>

theorem ptr_trichotomy:
  assumes "status_abi B"
  shows "if ptr = 0 then \<not> UCS_PTR_IS_ERR B ptr
         else UCS_PTR_IS_PTR p B ptr = Ret (\<not> UCS_PTR_IS_ERR B ptr)"
  by (rule status_abi.trichotomy [OF assms])

theorem ptr_trichotomy_witness:
  "UCS_PTR_IS_PTR Debug ucx_abi 0x7f0000001000 = Ret True \<and> UCS_PTR_IS_PTR Debug ucx_abi (-1) = Ret False"
  using ptr_trichotomy [OF ucx.status_abi_axioms, of "0x7f0000001000" Debug]
    ptr_trichotomy [OF ucx.status_abi_axioms, of "-1" Debug]
  by (simp add: UCS_PTR_IS_ERR_def err_last_def)

text \<open>
  What a library call reports as an immediate error arrives as the matching Rust error, and
  no two error codes are confused: converting the status pointers of two codes gives the same
  result exactly when the codes are the same, whatever the build profiles.
\<close>

theorem from_ptr_lossless:
  assumes "status_abi B" "is_error_status s" "is_error_status t"
  shows "from_ptr p B (status_ptr B s) = Ret (Err (error_of_status s))
       \<and> (from_ptr p B (status_ptr B s) = from_ptr q B (status_ptr B t) \<longleftrightarrow> s = t)"
  using status_abi.from_status_ptr [OF assms(1,2)] status_abi.lossless [OF assms] by blast

theorem from_ptr_lossless_witness:
  "from_ptr Debug ucx_abi (status_ptr ucx_abi UCS_ERR_CANCELED) = Ret (Err Canceled)
   \<and> from_ptr Debug ucx_abi (status_ptr ucx_abi UCS_ERR_CANCELED)
       \<noteq> from_ptr Release ucx_abi (status_ptr ucx_abi UCS_ERR_TIMED_OUT)"
proof -
  have "is_error_status UCS_ERR_CANCELED" "is_error_status UCS_ERR_TIMED_OUT"
    by (simp_all add: is_error_status_def status_codes_def)
  from from_ptr_lossless [OF ucx.status_abi_axioms this, of Debug Release, simplified]
  show ?thesis by blast
qed

text \<open>
  C38. \<^verbatim>\<open>UCS_PTR_STATUS\<close> on every pointer: in progress for a request, the carried code for an error,
  and for null \<open>UCS_OK\<close> in a release build, as the C macro it transcribes; but in a build with
  overflow checks the null pointer (immediate success) makes it panic.
\<close>

theorem ptr_status_behaviour:
  assumes "status_abi B"
  shows "UCS_PTR_STATUS p B ptr =
     (if ptr = 0 then (if p = Debug then Fault (Panic Arithmetic_overflow) else Ret UCS_OK)
      else if UCS_PTR_IS_ERR B ptr then UCS_PTR_RAW_STATUS B ptr
      else Ret UCS_INPROGRESS)"
  by (rule status_abi.ptr_status_cases [OF assms])

theorem ptr_status_behaviour_witness:
  "UCS_PTR_STATUS Debug ucx_abi 0 = Fault (Panic Arithmetic_overflow)
   \<and> UCS_PTR_STATUS Release ucx_abi 0 = Ret UCS_OK"
  using ptr_status_behaviour [OF ucx.status_abi_axioms, of Debug 0]
    ptr_status_behaviour [OF ucx.status_abi_axioms, of Release 0] by simp

text \<open>
  The identifier of a contiguous data type carries the element size losslessly above its class
  bits: when the class fits below the shift and the size above it, both can be read back.
\<close>

theorem make_contig_roundtrip:
  assumes "unat (num B UCP_DATATYPE_SHIFT) < 64" "unat (num B UCP_DATATYPE_CONTIG) < 2 ^ unat (num B UCP_DATATYPE_SHIFT)"
    and "unat n < 2 ^ (64 - unat (num B UCP_DATATYPE_SHIFT))"
  shows "drop_bit (unat (num B UCP_DATATYPE_SHIFT)) (ucp_dt_make_contig B n) = n
       \<and> take_bit (unat (num B UCP_DATATYPE_SHIFT)) (ucp_dt_make_contig B n) = num B UCP_DATATYPE_CONTIG"
proof -
  define k where "k = unat (num B UCP_DATATYPE_SHIFT)"
  have class_bits: "take_bit k (num B UCP_DATATYPE_CONTIG) = num B UCP_DATATYPE_CONTIG"
    using assms(2) by (intro unsigned_word_eqI [where 'a = nat])
      (simp add: k_def unsigned_take_bit_eq take_bit_nat_eq_self)
  have size_bits: "take_bit (64 - k) n = n"
    using assms(3) by (intro unsigned_word_eqI [where 'a = nat])
      (simp add: k_def unsigned_take_bit_eq take_bit_nat_eq_self)
  have high: "bit n i \<Longrightarrow> k + i < 64" for i
    using size_bits by (metis bit_take_bit_iff less_diff_conv add.commute)
  have low: "bit (num B UCP_DATATYPE_CONTIG) i \<Longrightarrow> i < k" for i
    using class_bits by (metis bit_take_bit_iff)
  have "drop_bit k (push_bit k n OR num B UCP_DATATYPE_CONTIG) = n"
    using high low by (auto intro!: bit_word_eqI simp: bit_simps dest: high low)
  moreover have "take_bit k (push_bit k n OR num B UCP_DATATYPE_CONTIG) = num B UCP_DATATYPE_CONTIG"
    using low by (auto intro!: bit_word_eqI simp: bit_simps dest: low)
  ultimately show ?thesis by (simp add: ucp_dt_make_contig_def k_def)
qed

theorem make_contig_roundtrip_witness:
  "drop_bit (3::nat) (ucp_dt_make_contig ucx_abi 1) = 1 \<and> take_bit (3::nat) (ucp_dt_make_contig ucx_abi 1) = 0"
  using make_contig_roundtrip [of ucx_abi 1] by (simp add: ucx_abi_def)

end
