(* ===== verification/AmData.thy ===== *)
theory AmData
  imports Status
begin

text \<open>
  Received active messages, first part: how the callback's arguments become a message (\<^verbatim>\<open>AmData\<close>,
  \<^verbatim>\<open>RawMsg\<close> of \<^verbatim>\<open>src/ucp/endpoint/am.rs\<close>), and the copy of a message into a list of buffers.
\<close>

section \<open>Messages\<close>

datatype AmDataType = Type_Eager | Type_Data | Type_Rndv

text \<open>An eager message is copied; the other two keep the library's descriptor.\<close>

datatype AmData = Eager "u8 list" | Data slice | Rndv slice

definition has_flag :: "u64 \<Rightarrow> u64 \<Rightarrow> bool" where
  "has_flag attr flag \<longleftrightarrow> attr AND flag \<noteq> 0"

definition am_data_from_raw :: "abi \<Rightarrow> slice \<Rightarrow> u64 \<Rightarrow> AmData option" where
  "am_data_from_raw B data attr =
     (if contents data = [] then None
      else if has_flag attr (num B UCP_AM_RECV_ATTR_FLAG_DATA) then Some (Data data)
      else if has_flag attr (num B UCP_AM_RECV_ATTR_FLAG_RNDV) then Some (Rndv data)
      else Some (Eager (contents data)))"

fun am_data_type :: "AmData \<Rightarrow> AmDataType" where
  "am_data_type (Eager _) = Type_Eager"
| "am_data_type (Data _) = Type_Data"
| "am_data_type (Rndv _) = Type_Rndv"

fun am_data_bytes :: "AmData \<Rightarrow> u8 list option" where
  "am_data_bytes (Eager d) = Some d"
| "am_data_bytes (Data d) = Some (contents d)"
| "am_data_bytes (Rndv _) = None"

fun am_data_len :: "AmData \<Rightarrow> nat" where
  "am_data_len (Eager d) = length d"
| "am_data_len (Data d) = length (contents d)"
| "am_data_len (Rndv d) = length (contents d)"

text \<open>The library's descriptor inside a message, if it holds one.\<close>

fun descriptor :: "AmData \<Rightarrow> handle option" where
  "descriptor (Eager _) = None"
| "descriptor (Data d) = Some (as_ptr d)"
| "descriptor (Rndv d) = Some (as_ptr d)"

record RawMsg =
  msg_id :: u16
  msg_header :: "u8 list"
  msg_data :: "AmData option"
  reply_ep :: handle
  msg_attr :: u64

definition raw_msg_from_raw :: "abi \<Rightarrow> u16 \<Rightarrow> u8 list \<Rightarrow> slice \<Rightarrow> handle \<Rightarrow> u64 \<Rightarrow> RawMsg" where
  "raw_msg_from_raw B i header data rep attr =
     \<lparr>msg_id = i, msg_header = header, msg_data = am_data_from_raw B data attr, reply_ep = rep, msg_attr = attr\<rparr>"

text \<open>
  What the callback tells the library: that the descriptor is kept (\<open>UCS_INPROGRESS\<close>) or can be
  reused (\<open>UCS_OK\<close>).
\<close>

definition am_callback_status :: "abi \<Rightarrow> u64 \<Rightarrow> ucs_status_t" where
  "am_callback_status B attr =
     (if has_flag attr (num B UCP_AM_RECV_ATTR_FLAG_DATA OR num B UCP_AM_RECV_ATTR_FLAG_RNDV)
      then UCS_INPROGRESS else UCS_OK)"

section \<open>Copying into buffers\<close>

text \<open>
  The loop of \<^verbatim>\<open>copy_data_to_iov\<close>: \<open>copied\<close> never exceeds the length of the data, so the
  subtraction does not underflow. It stops at the first buffer into which nothing is copied.
\<close>

fun copy_loop :: "u8 list \<Rightarrow> nat \<Rightarrow> slice list \<Rightarrow> nat \<times> slice list" where
  "copy_loop data copied [] = (copied, [])"
| "copy_loop data copied (buf # iov) =
     (let len = min (length data - copied) (length (contents buf))
      in if len = 0 then (copied, buf # iov)
         else case copy_loop data (copied + len) iov of (moved, iov') \<Rightarrow>
           (moved, buf\<lparr>contents := take len (drop copied data) @ drop len (contents buf)\<rparr> # iov'))"

definition copy_data_to_iov ::
  "profile \<Rightarrow> u8 list \<Rightarrow> slice list \<Rightarrow> ((usize, Error) result \<times> slice list) outcome" where
  "copy_data_to_iov p data iov =
     bind_outcome (usize_sum p 0 (map slice_len iov)) (\<lambda>cap.
       if cap < word_of_nat (length data) then Ret (Err MessageTruncated, iov)
       else case copy_loop data 0 iov of (copied, iov') \<Rightarrow> Ret (Ok (word_of_nat copied), iov'))"

text \<open>The room in front of the first empty buffer.\<close>

definition room :: "slice list \<Rightarrow> nat" where
  "room iov = sum_list (map (\<lambda>b. length (contents b)) (takeWhile (\<lambda>b. contents b \<noteq> []) iov))"

abbreviation all_contents :: "slice list \<Rightarrow> u8 list" where
  "all_contents iov \<equiv> concat (map contents iov)"

lemma copy_loop_exact:
  "copied \<le> length data \<Longrightarrow> copy_loop data copied iov = (moved, iov') \<Longrightarrow>
   moved = copied + min (length data - copied) (room iov)
   \<and> map as_ptr iov' = map as_ptr iov \<and> map (length \<circ> contents) iov' = map (length \<circ> contents) iov
   \<and> all_contents iov' = take (moved - copied) (drop copied data) @ drop (moved - copied) (all_contents iov)"
proof (induction iov arbitrary: copied moved iov')
  case Nil
  then show ?case by (simp add: room_def)
next
  case (Cons buf iov)
  let ?len = "min (length data - copied) (length (contents buf))"
  show ?case
  proof (cases "?len = 0")
    case True
    with Cons.prems show ?thesis by (auto simp: room_def min_def split: if_splits)
  next
    case False
    obtain iov2 where rest: "copy_loop data (copied + ?len) iov = (moved, iov2)"
      and iov': "iov' = buf\<lparr>contents := take ?len (drop copied data) @ drop ?len (contents buf)\<rparr> # iov2"
      using Cons.prems(2) False by (auto simp: Let_def split: prod.splits)
    have "copied + ?len \<le> length data" using Cons.prems(1) by simp
    note IH = Cons.IH [OF this rest]
    have room: "room (buf # iov) = length (contents buf) + room iov"
      using False by (auto simp: room_def)
    show ?thesis
    proof (cases "length data - copied \<le> length (contents buf)")
      case True
      then show ?thesis
        using IH Cons.prems(1) iov' room by (auto simp: min_def)
    next
      case False
      then have len: "?len = length (contents buf)" by simp
      let ?n = "moved - (copied + length (contents buf))"
      have moved: "moved - copied = length (contents buf) + ?n"
        using IH len by simp
      have "take (length (contents buf)) (drop copied data) @ take ?n (drop (copied + length (contents buf)) data)
          = take (moved - copied) (drop copied data)"
        unfolding moved take_add by (simp add: add.commute)
      then show ?thesis
        using IH False iov' room len moved by (auto simp: min_def)
    qed
  qed
qed

section \<open>Properties\<close>

lemma copy_data_exact:
  assumes "\<forall>b\<in>set iov. slice_ok b" "sum_list (map (\<lambda>b. length (contents b)) iov) < 2 ^ 64" "length data < 2 ^ 63"
  shows "if sum_list (map (\<lambda>b. length (contents b)) iov) < length data
     then copy_data_to_iov p data iov = Ret (Err MessageTruncated, iov)
     else \<exists>n iov'. copy_data_to_iov p data iov = Ret (Ok n, iov')
       \<and> unat n = min (length data) (room iov)
       \<and> map as_ptr iov' = map as_ptr iov
       \<and> map (length \<circ> contents) iov' = map (length \<circ> contents) iov
       \<and> all_contents iov' = take (unat n) data @ drop (unat n) (all_contents iov)"
proof -
  have lens: "map (unat \<circ> slice_len) iov = map (\<lambda>b. length (contents b)) iov"
    using assms(1) by (simp add: unat_slice_len)
  obtain cap where cap: "usize_sum p 0 (map slice_len iov) = Ret cap"
    "unat cap = sum_list (map (\<lambda>b. length (contents b)) iov)"
    using usize_sum_exact [of 0 "map slice_len iov" p] assms(2) by (auto simp: lens)
  have data: "unat (word_of_nat (length data) :: usize) = length data"
    using assms(3) by (simp add: unat_of_nat)
  then have less: "cap < word_of_nat (length data) \<longleftrightarrow> sum_list (map (\<lambda>b. length (contents b)) iov) < length data"
    by (simp add: word_less_nat_alt cap(2))
  obtain moved iov' where loop: "copy_loop data 0 iov = (moved, iov')" by fastforce
  note exact = copy_loop_exact [OF le0 loop]
  have "unat (word_of_nat moved :: usize) = moved"
    using exact assms(3) by (simp add: unat_of_nat)
  with exact show ?thesis
    by (simp add: copy_data_to_iov_def cap(1) less loop)
qed

lemma room_nonempty: "\<forall>b\<in>set iov. contents b \<noteq> [] \<Longrightarrow> room iov = sum_list (map (\<lambda>b. length (contents b)) iov)"
  by (simp add: room_def takeWhile_eq_all_conv [THEN iffD2])

text \<open>
  C13. The copy into a list of buffers, none of them empty: refused with \<open>MessageTruncated\<close> and
  nothing written when the buffers are too small together; otherwise the whole message is laid out
  over the buffers in order, the bytes behind it keep their values, and its length is returned.
\<close>

theorem copy_whole_message:
  assumes "\<forall>b\<in>set iov. slice_ok b \<and> contents b \<noteq> []"
    and "sum_list (map (\<lambda>b. length (contents b)) iov) < 2 ^ 64" "length data < 2 ^ 63"
  shows "if sum_list (map (\<lambda>b. length (contents b)) iov) < length data
     then copy_data_to_iov p data iov = Ret (Err MessageTruncated, iov)
     else \<exists>n iov'. copy_data_to_iov p data iov = Ret (Ok n, iov') \<and> unat n = length data
       \<and> map as_ptr iov' = map as_ptr iov
       \<and> map (length \<circ> contents) iov' = map (length \<circ> contents) iov
       \<and> all_contents iov' = data @ drop (length data) (all_contents iov)"
proof -
  have "room iov = sum_list (map (\<lambda>b. length (contents b)) iov)"
    using assms(1) by (simp add: room_nonempty)
  moreover have "\<forall>b\<in>set iov. slice_ok b" using assms(1) by blast
  ultimately show ?thesis
    using copy_data_exact [of iov data p] assms(2,3)
    by (auto simp: min_absorb1 not_less split: if_splits)
qed

theorem copy_whole_message_witness:
  "\<exists>n iov'. copy_data_to_iov Debug [1, 2, 3] [\<lparr>as_ptr = 16, contents = [0, 0]\<rparr>, \<lparr>as_ptr = 32, contents = [9, 9]\<rparr>] = Ret (Ok n, iov')
     \<and> all_contents iov' = [1, 2, 3, 9]"
  using copy_whole_message [of "[\<lparr>as_ptr = 16, contents = [0, 0]\<rparr>, \<lparr>as_ptr = 32, contents = [9, 9]\<rparr>]" "[1, 2, 3]" Debug]
  by (auto simp: slice_ok_def)

text \<open>
  C33. The copy stops at the first empty buffer: if the buffers are large enough together but the
  room before the first empty one is not, the rest of the message is lost, and a success with the
  smaller length is returned.
\<close>

theorem copy_stops_at_empty_buffer:
  assumes "\<forall>b\<in>set iov. slice_ok b" "sum_list (map (\<lambda>b. length (contents b)) iov) < 2 ^ 64"
    and "length data \<le> sum_list (map (\<lambda>b. length (contents b)) iov)" "length data < 2 ^ 63"
    and "room iov < length data"
  shows "\<exists>n iov'. copy_data_to_iov p data iov = Ret (Ok n, iov') \<and> unat n = room iov"
  using copy_data_exact [OF assms(1,2,4), of p] assms(3,5)
  by (auto simp: min_absorb2 not_less split: if_splits)

theorem copy_stops_at_empty_buffer_witness:
  "\<exists>n iov'. copy_data_to_iov Release [1, 2, 3] [\<lparr>as_ptr = 16, contents = []\<rparr>, \<lparr>as_ptr = 32, contents = [0, 0, 0]\<rparr>] = Ret (Ok n, iov')
     \<and> unat n = 0"
  using copy_stops_at_empty_buffer [of "[\<lparr>as_ptr = 16, contents = []\<rparr>, \<lparr>as_ptr = 32, contents = [0, 0, 0]\<rparr>]" "[1, 2, 3]" Release]
  by (simp add: slice_ok_def room_def)

end
