(* ===== verification/Rc.thy ===== *)
theory Rc
  imports Prelude
begin

text \<open>
  \<^verbatim>\<open>std::rc::Rc\<close>, \<^verbatim>\<open>std::rc::Weak\<close> and \<^verbatim>\<open>std::sync::Arc\<close> as the sources use them: allocations
  with a strong and a weak count, addressed by numbers that are never reused, so that any access
  through a stale pointer is visible as a fault.
\<close>

record 'a rcbox =
  strong :: nat
  weak :: nat
  val :: 'a

record 'a heap =
  cells :: "nat \<rightharpoonup> 'a rcbox"
  next_addr :: nat

definition empty_heap :: "'a heap" where
  "empty_heap = \<lparr>cells = Map.empty, next_addr = 0\<rparr>"

abbreviation dangling :: "'a outcome" where
  "dangling \<equiv> Fault (Undefined Dangling_pointer)"

text \<open>A strong pointer is live when its allocation exists and still holds the value.\<close>

definition live :: "nat \<Rightarrow> 'a heap \<Rightarrow> bool" where
  "live a h \<longleftrightarrow> (case cells h a of Some b \<Rightarrow> 0 < strong b | None \<Rightarrow> False)"

definition put_cell :: "nat \<Rightarrow> 'a rcbox \<Rightarrow> 'a heap \<Rightarrow> 'a heap" where
  "put_cell a b h = h\<lparr>cells := (cells h)(a := (if strong b = 0 \<and> weak b = 0 then None else Some b))\<rparr>"

section \<open>Strong pointers\<close>

definition rc_new :: "'a \<Rightarrow> ('a heap, nat) prog" where
  "rc_new v h = (Ret (next_addr h),
     h\<lparr>cells := (cells h)(next_addr h \<mapsto> \<lparr>strong = 1, weak = 0, val = v\<rparr>),
       next_addr := Suc (next_addr h)\<rparr>)"

definition rc_get :: "nat \<Rightarrow> ('a heap, 'a) prog" where
  "rc_get a h = (case cells h a of
      Some b \<Rightarrow> (if 0 < strong b then Ret (val b) else dangling, h)
    | None \<Rightarrow> (dangling, h))"

text \<open>A write through a \<^verbatim>\<open>Cell\<close> or an atomic inside the shared value.\<close>

definition rc_update :: "nat \<Rightarrow> ('a \<Rightarrow> 'a) \<Rightarrow> ('a heap, unit) prog" where
  "rc_update a f h = (case cells h a of
      Some b \<Rightarrow> (if 0 < strong b then (Ret (), put_cell a (b\<lparr>val := f (val b)\<rparr>) h) else (dangling, h))
    | None \<Rightarrow> (dangling, h))"

definition rc_clone :: "nat \<Rightarrow> ('a heap, unit) prog" where
  "rc_clone a h = (case cells h a of
      Some b \<Rightarrow> (if 0 < strong b then (Ret (), put_cell a (b\<lparr>strong := Suc (strong b)\<rparr>) h) else (dangling, h))
    | None \<Rightarrow> (dangling, h))"

text \<open>
  Dropping a strong pointer; the last one hands the value out, to be dropped by the caller.
\<close>

definition rc_drop :: "nat \<Rightarrow> ('a heap, 'a option) prog" where
  "rc_drop a h = (case cells h a of
      Some b \<Rightarrow>
        (if 0 < strong b then
           (Ret (if strong b = 1 then Some (val b) else None), put_cell a (b\<lparr>strong := strong b - 1\<rparr>) h)
         else (dangling, h))
    | None \<Rightarrow> (dangling, h))"

section \<open>Weak pointers\<close>

definition rc_downgrade :: "nat \<Rightarrow> ('a heap, unit) prog" where
  "rc_downgrade a h = (case cells h a of
      Some b \<Rightarrow> (if 0 < strong b then (Ret (), put_cell a (b\<lparr>weak := Suc (weak b)\<rparr>) h) else (dangling, h))
    | None \<Rightarrow> (dangling, h))"

definition weak_upgrade :: "nat \<Rightarrow> ('a heap, bool) prog" where
  "weak_upgrade a h = (case cells h a of
      Some b \<Rightarrow>
        (if weak b = 0 then (dangling, h)
         else if strong b = 0 then (Ret False, h)
         else (Ret True, put_cell a (b\<lparr>strong := Suc (strong b)\<rparr>) h))
    | None \<Rightarrow> (dangling, h))"

definition weak_drop :: "nat \<Rightarrow> ('a heap, unit) prog" where
  "weak_drop a h = (case cells h a of
      Some b \<Rightarrow> (if weak b = 0 then (dangling, h) else (Ret (), put_cell a (b\<lparr>weak := weak b - 1\<rparr>) h))
    | None \<Rightarrow> (dangling, h))"

text \<open>\<^verbatim>\<open>Rc::strong_count\<close> and \<^verbatim>\<open>Rc::weak_count\<close>.\<close>

definition rc_counts :: "nat \<Rightarrow> ('a heap, nat \<times> nat) prog" where
  "rc_counts a h = (case cells h a of
      Some b \<Rightarrow> (if 0 < strong b then Ret (strong b, weak b) else dangling, h)
    | None \<Rightarrow> (dangling, h))"

lemmas rc_defs = rc_new_def rc_get_def rc_update_def rc_clone_def rc_drop_def rc_downgrade_def
  weak_upgrade_def weak_drop_def rc_counts_def

text \<open>The operations on an allocation whose counts are known.\<close>

lemma put_cell_simps [simp]:
  "0 < strong b \<or> 0 < weak b \<Longrightarrow> cells (put_cell a b h) = (cells h)(a \<mapsto> b)"
  "strong b = 0 \<Longrightarrow> weak b = 0 \<Longrightarrow> cells (put_cell a b h) = (cells h)(a := None)"
  "next_addr (put_cell a b h) = next_addr h"
  by (auto simp: put_cell_def)

lemma put_cell_other [simp]: "a' \<noteq> a \<Longrightarrow> cells (put_cell a b h) a' = cells h a'"
  by (simp add: put_cell_def)

lemma live_iff: "live a h \<longleftrightarrow> (\<exists>b. cells h a = Some b \<and> 0 < strong b)"
  by (simp add: live_def split: option.splits)

lemma rc_on_cell:
  assumes "cells h a = Some b" "0 < strong b"
  shows "rc_get a h = (Ret (val b), h)"
    and "rc_update a f h = (Ret (), put_cell a (b\<lparr>val := f (val b)\<rparr>) h)"
    and "rc_clone a h = (Ret (), put_cell a (b\<lparr>strong := Suc (strong b)\<rparr>) h)"
    and "rc_drop a h = (Ret (if strong b = 1 then Some (val b) else None),
           put_cell a (b\<lparr>strong := strong b - 1\<rparr>) h)"
    and "rc_downgrade a h = (Ret (), put_cell a (b\<lparr>weak := Suc (weak b)\<rparr>) h)"
    and "rc_counts a h = (Ret (strong b, weak b), h)"
  using assms by (simp_all add: rc_defs)

lemma weak_on_cell:
  assumes "cells h a = Some b" "0 < weak b"
  shows "weak_upgrade a h = (if strong b = 0 then (Ret False, h)
           else (Ret True, put_cell a (b\<lparr>strong := Suc (strong b)\<rparr>) h))"
    and "weak_drop a h = (Ret (), put_cell a (b\<lparr>weak := weak b - 1\<rparr>) h)"
  using assms by (simp_all add: rc_defs)

text \<open>Fresh addresses: nothing is allocated at or above the next address.\<close>

definition heap_fresh :: "'a heap \<Rightarrow> bool" where
  "heap_fresh h \<longleftrightarrow> (\<forall>a. next_addr h \<le> a \<longrightarrow> cells h a = None)"

lemma heap_fresh_put [simp]: "heap_fresh h \<Longrightarrow> a < next_addr h \<Longrightarrow> heap_fresh (put_cell a b h)"
  by (auto simp: heap_fresh_def put_cell_def)

lemma heap_fresh_alloc: "heap_fresh h \<Longrightarrow> cells h a = Some b \<Longrightarrow> a < next_addr h"
  by (metis heap_fresh_def not_le option.distinct(1))

lemma heap_fresh_new: "heap_fresh h \<Longrightarrow> heap_fresh (snd (rc_new v h))"
  by (simp add: heap_fresh_def rc_new_def)

section \<open>Counting references\<close>

text \<open>
  \<open>refs_from h f a\<close>: how often the values stored in \<open>h\<close> refer to the address \<open>a\<close> of another heap,
  where \<open>f\<close> lists the references inside one value. \<open>counts h R\<close>: every allocation of \<open>h\<close> has as
  many strong pointers as \<open>R\<close> says, at least one, and no weak one; and \<open>R\<close> knows of no other address.
\<close>

definition refs_from :: "'a heap \<Rightarrow> ('a \<Rightarrow> nat list) \<Rightarrow> nat \<Rightarrow> nat" where
  "refs_from h f a = (\<Sum>i\<in>dom (cells h). count_list (f (val (the (cells h i)))) a)"

definition counts :: "'a heap \<Rightarrow> (nat \<Rightarrow> nat) \<Rightarrow> bool" where
  "counts h R \<longleftrightarrow> (\<forall>a. case cells h a of
       None \<Rightarrow> R a = 0
     | Some b \<Rightarrow> strong b = R a \<and> 0 < R a \<and> weak b = 0)"

lemma heap_fresh_finite: "heap_fresh h \<Longrightarrow> finite (dom (cells h))"
  by (rule finite_subset [of _ "{..<next_addr h}"]) (auto dest: heap_fresh_alloc)

lemma heap_fresh_cell: "heap_fresh h \<Longrightarrow> cells h a = Some b \<Longrightarrow> heap_fresh (put_cell a b' h)"
  by (simp add: heap_fresh_alloc)

lemma refs_from_split:
  assumes "heap_fresh h" "cells h i = Some b"
  shows "refs_from h f a = count_list (f (val b)) a
       + (\<Sum>j\<in>dom (cells h) - {i}. count_list (f (val (the (cells h j)))) a)"
  using assms sum.remove [of "dom (cells h)" i "\<lambda>j. count_list (f (val (the (cells h j)))) a"]
  by (auto simp: refs_from_def heap_fresh_finite)

lemma refs_from_put_same:
  assumes "heap_fresh h" "cells h i = Some b" "0 < strong b' \<or> 0 < weak b'" "f (val b') = f (val b)"
  shows "refs_from (put_cell i b' h) f a = refs_from h f a"
proof -
  have "cells (put_cell i b' h) i = Some b'" "dom (cells (put_cell i b' h)) = dom (cells h)"
    using assms(2,3) by auto
  with assms show ?thesis
    by (simp add: refs_from_split [of h i b] refs_from_split [of "put_cell i b' h" i b'] heap_fresh_cell)
qed

lemma refs_from_free:
  assumes "heap_fresh h" "cells h i = Some b" "strong b' = 0" "weak b' = 0"
  shows "refs_from (put_cell i b' h) f a + count_list (f (val b)) a = refs_from h f a"
proof -
  have "dom (cells (put_cell i b' h)) = dom (cells h) - {i}"
    using assms(3,4) by auto
  then have "refs_from (put_cell i b' h) f a =
      (\<Sum>j\<in>dom (cells h) - {i}. count_list (f (val (the (cells h j)))) a)"
    unfolding refs_from_def by (intro sum.cong) auto
  then show ?thesis using refs_from_split [OF assms(1,2), of f a] by simp
qed

lemma refs_from_new:
  assumes "heap_fresh h"
  shows "refs_from (snd (rc_new v h)) f a = refs_from h f a + count_list (f v) a"
proof -
  let ?h = "snd (rc_new v h)" and ?i = "next_addr h"
  have none: "?i \<notin> dom (cells h)"
    using assms by (auto simp: heap_fresh_def)
  have cell: "cells ?h = (cells h)(?i \<mapsto> \<lparr>strong = 1, weak = 0, val = v\<rparr>)"
    by (simp add: rc_new_def)
  have "refs_from ?h f a = count_list (f v) a + (\<Sum>j\<in>dom (cells h). count_list (f (val (the (cells ?h j)))) a)"
    using none heap_fresh_finite [OF assms] by (simp add: refs_from_def cell)
  also have "(\<Sum>j\<in>dom (cells h). count_list (f (val (the (cells ?h j)))) a) = refs_from h f a"
    unfolding refs_from_def using none by (intro sum.cong) (auto simp: cell)
  finally show ?thesis by simp
qed

lemma refs_from_pos: "heap_fresh h \<Longrightarrow> cells h i = Some b \<Longrightarrow> a \<in> set (f (val b)) \<Longrightarrow> 0 < refs_from h f a"
  using count_list_0_iff [of "f (val b)" a] by (simp add: refs_from_split [of h i b])

text \<open>The operations on a heap whose counts are right.\<close>

lemma countsD: "counts h R \<Longrightarrow> 0 < R a \<Longrightarrow> \<exists>b. cells h a = Some b \<and> strong b = R a \<and> weak b = 0"
  by (auto simp: counts_def split: option.splits dest!: spec [of _ a])

lemma counts_cell: "counts h R \<Longrightarrow> cells h a = Some b \<Longrightarrow> strong b = R a \<and> 0 < R a \<and> weak b = 0"
  by (auto simp: counts_def split: option.splits dest!: spec [of _ a])

lemma counts_None: "counts h R \<Longrightarrow> cells h a = None \<Longrightarrow> R a = 0"
  by (auto simp: counts_def split: option.splits dest!: spec [of _ a])

lemma countsI:
  "(\<And>a. cells h a = None \<Longrightarrow> R a = 0) \<Longrightarrow>
   (\<And>a b. cells h a = Some b \<Longrightarrow> strong b = R a \<and> 0 < R a \<and> weak b = 0) \<Longrightarrow> counts h R"
  by (simp add: counts_def split: option.splits)

lemma counts_new:
  "counts h R \<Longrightarrow> heap_fresh h \<Longrightarrow> counts (snd (rc_new v h)) (R(next_addr h := 1))"
  by (intro countsI) (auto simp: rc_new_def dest: counts_cell counts_None split: if_splits)

lemma counts_put:
  "counts h R \<Longrightarrow> 0 < strong b \<Longrightarrow> weak b = 0 \<Longrightarrow> counts (put_cell a b h) (R(a := strong b))"
  by (intro countsI) (auto dest: counts_cell counts_None split: if_splits)

lemma counts_free:
  "counts h R \<Longrightarrow> strong b = 0 \<Longrightarrow> weak b = 0 \<Longrightarrow> counts (put_cell a b h) (R(a := 0))"
  by (intro countsI) (auto dest: counts_cell counts_None split: if_splits)

lemma clone_counted:
  assumes "counts h R" "heap_fresh h" "0 < R a"
  shows "rc_clone a h = (Ret (), snd (rc_clone a h))"
    and "counts (snd (rc_clone a h)) (R(a := Suc (R a)))"
    and "heap_fresh (snd (rc_clone a h))"
    and "refs_from (snd (rc_clone a h)) f x = refs_from h f x"
proof -
  obtain b where b: "cells h a = Some b" "strong b = R a" "weak b = 0"
    using countsD [OF assms(1,3)] by blast
  let ?b = "b\<lparr>strong := Suc (strong b)\<rparr>"
  have run: "rc_clone a h = (Ret (), put_cell a ?b h)"
    using b assms(3) by (simp add: rc_on_cell)
  then show "rc_clone a h = (Ret (), snd (rc_clone a h))" by simp
  show "counts (snd (rc_clone a h)) (R(a := Suc (R a)))"
    using counts_put [OF assms(1), of ?b a] b run by simp
  show "heap_fresh (snd (rc_clone a h))"
    using heap_fresh_cell [OF assms(2) b(1)] run by simp
  show "refs_from (snd (rc_clone a h)) f x = refs_from h f x"
    using refs_from_put_same [OF assms(2) b(1), of ?b] run by simp
qed

lemma drop_counted:
  assumes "counts h R" "heap_fresh h" "0 < R a"
  shows "rc_drop a h = (Ret (if R a = 1 then Some (val (the (cells h a))) else None), snd (rc_drop a h))"
    and "counts (snd (rc_drop a h)) (R(a := R a - 1))"
    and "heap_fresh (snd (rc_drop a h))"
    and "refs_from (snd (rc_drop a h)) f x
           + (if R a = 1 then count_list (f (val (the (cells h a)))) x else 0) = refs_from h f x"
proof -
  obtain b where b: "cells h a = Some b" "strong b = R a" "weak b = 0"
    using countsD [OF assms(1,3)] by blast
  let ?b = "b\<lparr>strong := strong b - 1\<rparr>"
  have run: "rc_drop a h = (Ret (if R a = 1 then Some (val b) else None), put_cell a ?b h)"
    using b assms(3) by (simp add: rc_on_cell)
  then show "rc_drop a h = (Ret (if R a = 1 then Some (val (the (cells h a))) else None), snd (rc_drop a h))"
    using b(1) by simp
  show "counts (snd (rc_drop a h)) (R(a := R a - 1))"
    using counts_put [OF assms(1), of ?b a] counts_free [OF assms(1), of ?b a] b assms(3) run
    by (cases "R a = 1") simp_all
  show "heap_fresh (snd (rc_drop a h))"
    using heap_fresh_cell [OF assms(2) b(1)] run by simp
  show "refs_from (snd (rc_drop a h)) f x
         + (if R a = 1 then count_list (f (val (the (cells h a)))) x else 0) = refs_from h f x"
    using refs_from_free [OF assms(2) b(1), of ?b f x] refs_from_put_same [OF assms(2) b(1), of ?b f x]
      b assms(3) run by (cases "R a = 1") simp_all
qed

end
