(* ===== verification/World.thy ===== *)
theory World
  imports Status Rc
begin

text \<open>
  The boundary with UCX and the state the wrapper keeps. Every foreign call is a constructor of
  \<open>ffi_call\<close> with the arguments the wrapper passes; the library is a parameter that answers a
  call from its own state. The world records the library's state, the log of calls, the memory of
  requests, the tasks that have been scheduled, and the reference-counted allocations.
\<close>

section \<open>Foreign calls\<close>

text \<open>\<^verbatim>\<open>ucp_ep_close_mode\<close>, as far as the sources name it.\<close>

datatype close_mode = CLOSE_MODE_FORCE | CLOSE_MODE_FLUSH

text \<open>What a data buffer argument points at: bytes, or an array of I/O vectors.\<close>

datatype buffer = Bytes handle | Iovec "slice list"

text \<open>The fields of \<^verbatim>\<open>ucp_params_t\<close> that the wrapper writes; the rest is zeroed.\<close>

record init_params =
  init_mask :: u64
  features :: u64
  request_size :: u64
  has_init_cleanup :: bool
  mt_workers_shared :: nat

text \<open>
  The fields of \<^verbatim>\<open>ucp_ep_params\<close> that the wrapper writes; the rest is zeroed. The user data is
  the address of the endpoint's shared state.
\<close>

record ep_params =
  field_mask :: u64
  flags :: u32
  sockaddr :: "u8 list"
  address :: handle
  err_mode_peer :: bool
  conn_request :: handle
  user_data :: nat

text \<open>The fields of \<^verbatim>\<open>ucp_request_param_t\<close> that the wrapper writes.\<close>

record request_param =
  op_attr_mask :: u32
  req_flags :: u32
  data_type :: u64

datatype (plugins only: code size) ffi_call =
    Ucp_config_read
  | Ucp_config_release handle
  | Ucp_config_print handle string u64 \<comment> \<open>configuration, title, flags\<close>
  | Ucp_init_version u64 u64 init_params handle \<comment> \<open>API version, parameters, configuration\<close>
  | Ucp_context_query handle
  | Ucp_context_print_info handle
  | Ucp_cleanup handle
  | Ucp_worker_create handle u64 u64 \<comment> \<open>context, field mask, thread mode\<close>
  | Ucp_worker_destroy handle
  | Ucp_worker_query handle u64
  | Ucp_worker_print_info handle
  | Ucp_worker_get_address handle
  | Ucp_worker_release_address handle handle
  | Ucp_worker_wait handle
  | Ucp_worker_arm handle
  | Ucp_worker_progress handle
  | Ucp_worker_get_efd handle
  | Ucp_worker_flush handle
  | Ucp_worker_set_am_recv_handler handle u64 u16 nat \<comment> \<open>worker, field mask, id, handler's argument\<close>
  | Ucp_listener_create handle u64 "u8 list" nat \<comment> \<open>worker, field mask, address, handler's argument\<close>
  | Ucp_listener_query handle u64
  | Ucp_listener_reject handle handle
  | Ucp_listener_destroy handle
  | Ucp_conn_request_query handle u64
  | Ucp_ep_create handle ep_params
  | Ucp_ep_close_nb handle close_mode
  | Ucp_ep_flush_nb handle
  | Ucp_ep_print_info handle
  | Ucp_stream_send_nb handle buffer usize u64
  | Ucp_stream_recv_nb handle buffer usize u64
  | Ucp_stream_recv_request_test handle
  | Ucp_tag_send_nb handle buffer usize u64 u64
  | Ucp_tag_recv_nb handle buffer usize u64 u64 u64 \<comment> \<open>\dots data type, tag, mask\<close>
  | Ucp_tag_recv_request_test handle
  | Ucp_put_nb handle buffer usize u64 handle
  | Ucp_get_nb handle buffer usize u64 handle
  | Ucp_mem_map handle u64 handle usize
  | Ucp_mem_unmap handle handle
  | Ucp_rkey_pack handle handle
  | Ucp_rkey_buffer_release handle
  | Ucp_ep_rkey_unpack handle handle
  | Ucp_rkey_destroy handle
  | Ucp_am_send_nbx handle u32 slice buffer usize request_param
  | Ucp_am_recv_data_nbx handle handle buffer usize request_param
  | Ucp_am_data_release handle handle
  | Ucp_request_check_status handle
  | Ucp_request_free handle

text \<open>
  The callbacks that the library runs from inside \<^verbatim>\<open>ucp_worker_progress\<close>, with their arguments:
  the error handler of an endpoint, the completion of a request, an incoming connection, an
  active message.
\<close>

datatype callback =
    Err_handler nat handle ucs_status_t
  | Request_done handle
  | Conn_handler nat handle
  | Am_handler nat "u8 list" slice handle u64

text \<open>
  An answer: the return value in the component that fits the call's return type, and the out
  parameters (\<open>None\<close>: not written).
\<close>

record reply =
  status_of :: ucs_status_t
  ptr_of :: handle
  count_of :: u32
  out_word :: "u64 option"
  out_len :: "usize option"
  ran_callbacks :: "callback list"

type_synonym 'u ucx = "ffi_call \<Rightarrow> 'u \<Rightarrow> reply \<times> 'u"

section \<open>Parameters of the model\<close>

text \<open>
  \<^verbatim>\<open>futures::task::AtomicWaker\<close>: a cell for one task's waker (a task is a number), to register a
  waker and to take the registered one out in order to wake it.
\<close>

record 'wk atomic_waker =
  aw_new :: 'wk
  aw_register :: "nat \<Rightarrow> 'wk \<Rightarrow> 'wk"
  aw_take :: "'wk \<Rightarrow> nat option \<times> 'wk"

record ('u, 'wk) env =
  prof :: profile
  binds :: abi
  ucx :: "'u ucx"
  waker_ops :: "'wk atomic_waker"

text \<open>The documented behaviour of \<^verbatim>\<open>AtomicWaker\<close>: it holds the waker registered last until it is taken.\<close>

locale waker_cell =
  fixes ops :: "'wk atomic_waker"
    and stored :: "'wk \<Rightarrow> nat option"
  assumes stored_new: "stored (aw_new ops) = None"
    and stored_register: "stored (aw_register ops t a) = Some t"
    and take_stored: "fst (aw_take ops a) = stored a"
    and stored_take: "stored (snd (aw_take ops a)) = None"

text \<open>An instance: the cell as an option.\<close>

definition option_waker :: "nat option atomic_waker" where
  "option_waker = \<lparr>aw_new = None, aw_register = (\<lambda>t _. Some t), aw_take = (\<lambda>a. (a, None))\<rparr>"

interpretation ow: waker_cell option_waker "\<lambda>a. a"
  by unfold_locales (simp_all add: option_waker_def)

section \<open>Shared state\<close>

text \<open>\<^verbatim>\<open>Context\<close>, \<^verbatim>\<open>Worker\<close> and \<^verbatim>\<open>EndpointInner\<close>; reference-counted fields are heap addresses.\<close>

record Context =
  c_handle :: handle

record Worker =
  w_handle :: handle
  w_context :: nat
  am_streams :: "(u16 \<times> nat) list"

record EndpointInner =
  closed :: bool
  ep_status :: ucs_status_t
  ep_worker :: nat

text \<open>
  The world. \<open>'u\<close> is the library's state, \<open>'wk\<close> the waker cell inside a request, \<open>'s\<close> the state
  of an active-message stream, \<open>'c\<close> the channel of a listener.
\<close>

record ('u, 'wk, 's, 'c) world =
  lib :: 'u
  calls :: "ffi_call list"
  reqs :: "handle \<rightharpoonup> 'wk"
  scheduled :: "nat list"
  contexts :: "Context heap"
  workers :: "Worker heap"
  inners :: "EndpointInner heap"
  streams :: "'s heap"
  channels :: "'c heap"

section \<open>Calling the library\<close>

definition ffi :: "('u, 'wk) env \<Rightarrow> ffi_call \<Rightarrow> (('u, 'wk, 's, 'c) world, reply) prog" where
  "ffi E c w = (case ucx E c (lib w) of (r, u) \<Rightarrow> (Ret r, w\<lparr>lib := u, calls := calls w @ [c]\<rparr>))"

text \<open>The routines that only test a request: documented not to change the library's state.\<close>

definition query :: "('u, 'wk) env \<Rightarrow> ffi_call \<Rightarrow> (('u, 'wk, 's, 'c) world, reply) prog" where
  "query E c w = (Ret (fst (ucx E c (lib w))), w)"

section \<open>Heap operations on the world\<close>

definition on_contexts :: "(Context heap, 'a) prog \<Rightarrow> (('u, 'wk, 's, 'c) world, 'a) prog" where
  "on_contexts m w = (case m (contexts w) of (r, h) \<Rightarrow> (r, w\<lparr>contexts := h\<rparr>))"

definition on_workers :: "(Worker heap, 'a) prog \<Rightarrow> (('u, 'wk, 's, 'c) world, 'a) prog" where
  "on_workers m w = (case m (workers w) of (r, h) \<Rightarrow> (r, w\<lparr>workers := h\<rparr>))"

definition on_inners :: "(EndpointInner heap, 'a) prog \<Rightarrow> (('u, 'wk, 's, 'c) world, 'a) prog" where
  "on_inners m w = (case m (inners w) of (r, h) \<Rightarrow> (r, w\<lparr>inners := h\<rparr>))"

definition on_streams :: "('s heap, 'a) prog \<Rightarrow> (('u, 'wk, 's, 'c) world, 'a) prog" where
  "on_streams m w = (case m (streams w) of (r, h) \<Rightarrow> (r, w\<lparr>streams := h\<rparr>))"

definition on_channels :: "('c heap, 'a) prog \<Rightarrow> (('u, 'wk, 's, 'c) world, 'a) prog" where
  "on_channels m w = (case m (channels w) of (r, h) \<Rightarrow> (r, w\<lparr>channels := h\<rparr>))"

lemmas on_defs = on_contexts_def on_workers_def on_inners_def on_streams_def on_channels_def

section \<open>Observing an asynchronous function\<close>

text \<open>
  How long and by whom an \<^verbatim>\<open>async fn\<close> is driven: the task that polls it, what the executor runs
  between two polls (other tasks, the progress of the worker), and the number of polls observed.
\<close>

record 'w executor =
  x_task :: nat
  x_others :: "'w \<Rightarrow> 'w"
  x_polls :: nat

section \<open>Documented behaviour of the library\<close>

text \<open>A successful call has written its out parameters.\<close>

definition writes_outputs :: "('u, 'wk) env \<Rightarrow> bool" where
  "writes_outputs E \<longleftrightarrow> (\<forall>c u. status_of (fst (ucx E c u)) = UCS_OK \<longrightarrow>
     out_word (fst (ucx E c u)) \<noteq> None \<and> out_len (fst (ucx E c u)) \<noteq> None)"

text \<open>A returned status pointer that reports an error carries one of the defined codes.\<close>

definition valid_pointers :: "('u, 'wk) env \<Rightarrow> bool" where
  "valid_pointers E \<longleftrightarrow> (\<forall>c u. UCS_PTR_IS_ERR (binds E) (ptr_of (fst (ucx E c u))) \<longrightarrow>
     decode (binds E) (ucast (ptr_of (fst (ucx E c u)))) \<noteq> None)"

text \<open>All that the development assumes about the library, together with the layout of its codes.\<close>

locale ucx_library = status_abi "binds E" for E :: "('u, 'wk) env" +
  assumes outputs: "writes_outputs E"
    and pointers: "valid_pointers E"
begin

lemma written:
  "status_of (fst (ucx E c u)) = UCS_OK \<Longrightarrow> \<exists>x. out_word (fst (ucx E c u)) = Some x"
  "status_of (fst (ucx E c u)) = UCS_OK \<Longrightarrow> \<exists>n. out_len (fst (ucx E c u)) = Some n"
  using outputs by (auto simp: writes_outputs_def)

text \<open>Looking at a returned pointer never faults, and finds an error exactly in an error pointer.\<close>

lemma from_returned:
  "from_ptr p (binds E) (ptr_of (fst (ucx E c u))) =
     (if UCS_PTR_IS_ERR (binds E) (ptr_of (fst (ucx E c u)))
      then Ret (Err (error_of_status (the (decode (binds E) (ucast (ptr_of (fst (ucx E c u))))))))
      else Ret (Ok ()))"
proof (cases "UCS_PTR_IS_ERR (binds E) (ptr_of (fst (ucx E c u)))")
  case True
  then obtain s where "decode (binds E) (ucast (ptr_of (fst (ucx E c u)))) = Some s"
    using pointers unfolding valid_pointers_def by blast
  with True from_ptr_error [of "ptr_of (fst (ucx E c u))" s p] show ?thesis
    by (simp add: UCS_PTR_RAW_STATUS_def)
next
  case False
  then show ?thesis by (simp add: from_ptr_def)
qed

lemma raw_returned:
  "UCS_PTR_IS_ERR (binds E) (ptr_of (fst (ucx E c u))) \<Longrightarrow>
   \<exists>s. UCS_PTR_RAW_STATUS (binds E) (ptr_of (fst (ucx E c u))) = Ret s \<and> s \<noteq> UCS_OK"
  using pointers raw_status_not_ok unfolding valid_pointers_def UCS_PTR_RAW_STATUS_def by force

end

section \<open>A scripted library\<close>

text \<open>
  An instance of the library for concrete runs: it answers from a list of replies, one per call,
  and with success once the list is used up; a test of a request looks at the next reply.
\<close>

definition ok_reply :: reply where
  "ok_reply = \<lparr>status_of = UCS_OK, ptr_of = 0, count_of = 0, out_word = Some 0, out_len = Some 0,
     ran_callbacks = []\<rparr>"

fun scripted :: "reply list ucx" where
  "scripted c [] = (ok_reply, [])"
| "scripted c (r # rs) = (r, rs)"

definition sample_env :: "profile \<Rightarrow> (reply list, nat option) env" where
  "sample_env p = \<lparr>prof = p, binds = ucx_abi, ucx = scripted, waker_ops = option_waker\<rparr>"

definition sample_world :: "reply list \<Rightarrow> (reply list, nat option, 's, 'c) world" where
  "sample_world script = \<lparr>lib = script, calls = [], reqs = Map.empty, scheduled = [],
     contexts = empty_heap, workers = empty_heap, inners = empty_heap, streams = empty_heap,
     channels = empty_heap\<rparr>"

lemma sample_env_simps [simp]:
  "prof (sample_env p) = p" "binds (sample_env p) = ucx_abi" "ucx (sample_env p) = scripted"
  "waker_ops (sample_env p) = option_waker"
  by (simp_all add: sample_env_def)

lemma option_waker_simps [simp]:
  "aw_new option_waker = None" "aw_register option_waker t a = Some t" "aw_take option_waker a = (a, None)"
  by (simp_all add: option_waker_def)

text \<open>
  The same with every reply made lawful: an error pointer without a code becomes null, a success
  has its out parameters written.
\<close>

definition lawful :: "reply \<Rightarrow> reply" where
  "lawful r = r\<lparr>
     ptr_of := (if UCS_PTR_IS_ERR ucx_abi (ptr_of r) \<and> ucx_decode (ucast (ptr_of r)) = None then 0 else ptr_of r),
     out_word := (case out_word r of None \<Rightarrow> Some 0 | Some x \<Rightarrow> Some x),
     out_len := (case out_len r of None \<Rightarrow> Some 0 | Some n \<Rightarrow> Some n)\<rparr>"

definition lawful_env :: "profile \<Rightarrow> (reply list, nat option) env" where
  "lawful_env p = \<lparr>prof = p, binds = ucx_abi,
     ucx = (\<lambda>c u. (lawful (fst (scripted c u)), snd (scripted c u))), waker_ops = option_waker\<rparr>"

lemma lawful_env_simps [simp]:
  "prof (lawful_env p) = p" "binds (lawful_env p) = ucx_abi" "waker_ops (lawful_env p) = option_waker"
  "ucx (lawful_env p) c u = (lawful (fst (scripted c u)), snd (scripted c u))"
  by (simp_all add: lawful_env_def)

lemma null_not_err [simp]: "\<not> UCS_PTR_IS_ERR ucx_abi 0"
  using ucx.err_last_pos by (simp add: UCS_PTR_IS_ERR_def)

interpretation lawful: ucx_library "lawful_env p"
proof
  show "code (binds (lawful_env p)) UCS_OK = 0" by simp
next
  fix s assume "s \<in> set (UCS_OK # UCS_INPROGRESS # status_codes)"
  then show "decode (binds (lawful_env p)) (code (binds (lawful_env p)) s) = Some s"
    using ucx.decode_named by (simp del: set_simps)
next
  fix b s assume "decode (binds (lawful_env p)) b = Some s"
  then show "code (binds (lawful_env p)) s = b"
    using ucx.code_decode by simp
next
  fix s assume "is_error_status s"
  then show "sint (code (binds (lawful_env p)) UCS_ERR_LAST) \<le> sint (code (binds (lawful_env p)) s)
      \<and> sint (code (binds (lawful_env p)) s) < 0"
    using ucx.error_range by simp
next
  show "writes_outputs (lawful_env p)"
    by (auto simp: writes_outputs_def lawful_def split: option.split)
next
  show "valid_pointers (lawful_env p)"
    by (auto simp: valid_pointers_def lawful_def)
qed

end
