(* ===== verification/Request.thy ===== *)
theory Request
  imports World
begin

text \<open>
  Requests: the memory that the wrapper keeps inside a UCX request (\<^verbatim>\<open>Request\<close> of
  \<^verbatim>\<open>src/ucp/mod.rs\<close>), the future that waits for it (\<^verbatim>\<open>RequestHandle\<close> of
  \<^verbatim>\<open>src/ucp/endpoint/mod.rs\<close>) and the four functions that test it.
\<close>

section \<open>The memory of a request\<close>

text \<open>\<^verbatim>\<open>Request::init\<close> writes a request with an empty waker; \<^verbatim>\<open>Request::cleanup\<close> drops it.\<close>

definition request_init :: "('u, 'wk) env \<Rightarrow> handle \<Rightarrow> (('u, 'wk, 's, 'c) world, unit) prog" where
  "request_init E ptr = modify (\<lambda>w. w\<lparr>reqs := (reqs w)(ptr \<mapsto> aw_new (waker_ops E))\<rparr>)"

definition request_cleanup :: "handle \<Rightarrow> (('u, 'wk, 's, 'c) world, unit) prog" where
  "request_cleanup ptr w = (case reqs w ptr of
      Some _ \<Rightarrow> (Ret (), w\<lparr>reqs := (reqs w)(ptr := None)\<rparr>)
    | None \<Rightarrow> (dangling, w))"

text \<open>
  The completion callbacks of all operations: each casts the request pointer and calls
  \<^verbatim>\<open>waker.wake()\<close>, which takes the registered waker out and schedules its task.
\<close>

definition wake_request :: "('u, 'wk) env \<Rightarrow> handle \<Rightarrow> (('u, 'wk, 's, 'c) world, unit) prog" where
  "wake_request E ptr w = (case reqs w ptr of
      Some a \<Rightarrow>
        (case aw_take (waker_ops E) a of
           (None, a') \<Rightarrow> (Ret (), w\<lparr>reqs := (reqs w)(ptr \<mapsto> a')\<rparr>)
         | (Some t, a') \<Rightarrow> (Ret (), w\<lparr>reqs := (reqs w)(ptr \<mapsto> a'), scheduled := scheduled w @ [t]\<rparr>))
    | None \<Rightarrow> (dangling, w))"

definition register_waker :: "('u, 'wk) env \<Rightarrow> handle \<Rightarrow> nat \<Rightarrow> (('u, 'wk, 's, 'c) world, unit) prog" where
  "register_waker E ptr task w = (case reqs w ptr of
      Some a \<Rightarrow> (Ret (), w\<lparr>reqs := (reqs w)(ptr \<mapsto> aw_register (waker_ops E) task a)\<rparr>)
    | None \<Rightarrow> (dangling, w))"

section \<open>Testing a request\<close>

definition poll_normal :: "('u, 'wk) env \<Rightarrow> handle \<Rightarrow> (('u, 'wk, 's, 'c) world, (unit, Error) result poll) prog" where
  "poll_normal E ptr =
     bind (query E (Ucp_request_check_status ptr)) (\<lambda>r.
       if status_of r = UCS_INPROGRESS then ret Pending
       else bind (lift (from_status (prof E) (status_of r))) (\<lambda>res. ret (Ready res)))"

text \<open>\<^verbatim>\<open>poll_recv\<close> of the active messages: any completion is ready, whatever its status.\<close>

definition poll_recv :: "('u, 'wk) env \<Rightarrow> handle \<Rightarrow> (('u, 'wk, 's, 'c) world, unit poll) prog" where
  "poll_recv E ptr =
     bind (query E (Ucp_request_check_status ptr)) (\<lambda>r.
       if status_of r = UCS_INPROGRESS then ret Pending else ret (Ready ()))"

definition poll_stream :: "('u, 'wk) env \<Rightarrow> handle \<Rightarrow> (('u, 'wk, 's, 'c) world, usize poll) prog" where
  "poll_stream E ptr =
     bind (query E (Ucp_stream_recv_request_test ptr)) (\<lambda>r.
       if status_of r = UCS_INPROGRESS then ret Pending
       else bind (lift (assume_init (out_len r))) (\<lambda>len. ret (Ready len)))"

definition poll_tag :: "('u, 'wk) env \<Rightarrow> handle \<Rightarrow> (('u, 'wk, 's, 'c) world, (u64 \<times> usize, Error) result poll) prog" where
  "poll_tag E ptr =
     bind (query E (Ucp_tag_recv_request_test ptr)) (\<lambda>r.
       if status_of r = UCS_INPROGRESS then ret Pending
       else if status_of r = UCS_OK then
         bind (lift (assume_init (out_word r))) (\<lambda>sender_tag.
         bind (lift (assume_init (out_len r))) (\<lambda>len. ret (Ready (Ok (sender_tag, len)))))
       else bind (lift (from_error (prof E) (status_of r))) (\<lambda>e. ret (Ready (Err e))))"

section \<open>The future\<close>

text \<open>
  \<^verbatim>\<open>RequestHandle::poll\<close>: test, register the waker, test again. \<open>poll_fn\<close> is the handle's
  function pointer.
\<close>

definition request_poll ::
  "('u, 'wk) env \<Rightarrow> (handle \<Rightarrow> (('u, 'wk, 's, 'c) world, 'a poll) prog) \<Rightarrow> handle \<Rightarrow> nat \<Rightarrow>
   (('u, 'wk, 's, 'c) world, 'a poll) prog" where
  "request_poll E poll_fn ptr task =
     bind (poll_fn ptr) (\<lambda>r. case r of
         Ready x \<Rightarrow> ret (Ready x)
       | Pending \<Rightarrow> bind (register_waker E ptr task) (\<lambda>_. poll_fn ptr))"

definition request_drop :: "('u, 'wk) env \<Rightarrow> handle \<Rightarrow> (('u, 'wk, 's, 'c) world, unit) prog" where
  "request_drop E ptr = bind (ffi E (Ucp_request_free ptr)) (\<lambda>_. ret ())"

text \<open>
  \<^verbatim>\<open>RequestHandle { ptr, poll_fn }.await\<close> by a task, observed for a number of polls. Between two
  polls the executor runs other tasks and the worker's progress, which is the parameter \<open>others\<close>.
  When the future is ready its handle is dropped.
\<close>

fun await_request ::
  "('u, 'wk) env \<Rightarrow> (handle \<Rightarrow> (('u, 'wk, 's, 'c) world, 'a poll) prog) \<Rightarrow> handle \<Rightarrow> nat \<Rightarrow>
   (('u, 'wk, 's, 'c) world \<Rightarrow> ('u, 'wk, 's, 'c) world) \<Rightarrow> nat \<Rightarrow> (('u, 'wk, 's, 'c) world, 'a) prog" where
  "await_request E poll_fn ptr task others 0 = lift Unfinished"
| "await_request E poll_fn ptr task others (Suc n) =
     bind (request_poll E poll_fn ptr task) (\<lambda>r. case r of
         Ready x \<Rightarrow> bind (request_drop E ptr) (\<lambda>_. ret x)
       | Pending \<Rightarrow> bind (modify others) (\<lambda>_. await_request E poll_fn ptr task others n))"

section \<open>Tests read the library's state only\<close>

definition lib_test :: "(('u, 'wk, 's, 'c) world, 'a) prog \<Rightarrow> bool" where
  "lib_test m \<longleftrightarrow> (\<exists>r. \<forall>w. m w = (r (lib w), w))"

lemma lib_testE:
  assumes "lib_test m"
  obtains r where "\<And>w. m w = (r (lib w), w)"
  using assms by (auto simp: lib_test_def)

lemma lib_test_pair: "lib_test m \<Longrightarrow> m w = (fst (m w), w)"
  by (auto elim!: lib_testE)

lemma lib_test_cong: "lib_test m \<Longrightarrow> lib w = lib w' \<Longrightarrow> fst (m w) = fst (m w')"
  by (auto elim!: lib_testE)

lemma lib_test_basic [simp]: "lib_test (ret x)" "lib_test (lift r)" "lib_test (query E c)"
  by (auto simp: lib_test_def lift_def query_def ret_def)

lemma bind_on_test: "lib_test m \<Longrightarrow> bind m f w = (case fst (m w) of
     Ret x \<Rightarrow> f x w | Fault e \<Rightarrow> (Fault e, w) | Unfinished \<Rightarrow> (Unfinished, w))"
  by (auto elim!: lib_testE simp: bind_def split: outcome.splits)

lemma lib_test_bind [simp]:
  assumes "lib_test m" "\<And>x. lib_test (f x)"
  shows "lib_test (bind m f)"
proof -
  obtain r where r: "\<And>w. m w = (r (lib w), w)"
    using assms(1) by (auto elim!: lib_testE)
  obtain g where g: "\<And>x w. f x w = (g x (lib w), w)"
    using assms(2) unfolding lib_test_def by metis
  have "bind m f w = (bind_outcome (r (lib w)) (\<lambda>x. g x (lib w)), w)" for w
    by (simp add: bind_def r g split: outcome.splits)
  then show ?thesis
    unfolding lib_test_def by (intro exI [of _ "\<lambda>u. bind_outcome (r u) (\<lambda>x. g x u)"]) simp
qed

lemma poll_tests [simp]:
  "lib_test (poll_normal E ptr)" "lib_test (poll_recv E ptr)" "lib_test (poll_stream E ptr)"
  "lib_test (poll_tag E ptr)"
  by (simp_all add: poll_normal_def poll_recv_def poll_stream_def poll_tag_def)

section \<open>Waiting for a request\<close>

text \<open>One round of a pending future: its waker is registered and the others run.\<close>

definition park ::
  "('u, 'wk) env \<Rightarrow> handle \<Rightarrow> nat \<Rightarrow> (('u, 'wk, 's, 'c) world \<Rightarrow> ('u, 'wk, 's, 'c) world) \<Rightarrow>
   ('u, 'wk, 's, 'c) world \<Rightarrow> ('u, 'wk, 's, 'c) world" where
  "park E ptr task others w = others (snd (register_waker E ptr task w))"

lemma register_waker_Some:
  "reqs w ptr = Some a \<Longrightarrow> register_waker E ptr task w =
     (Ret (), w\<lparr>reqs := (reqs w)(ptr \<mapsto> aw_register (waker_ops E) task a)\<rparr>)"
  by (simp add: register_waker_def)

lemma register_waker_lib [simp]: "lib (snd (register_waker E ptr task w)) = lib w"
  by (simp add: register_waker_def split: option.splits)

lemma request_poll_Ready:
  "lib_test (f ptr) \<Longrightarrow> fst (f ptr w) = Ret (Ready x) \<Longrightarrow>
   request_poll E f ptr task w = (Ret (Ready x), w)"
  by (simp add: request_poll_def bind_on_test ret_def)

lemma request_poll_Pending:
  assumes "lib_test (f ptr)" "fst (f ptr w) = Ret Pending" "reqs w ptr = Some a"
  shows "request_poll E f ptr task w = (Ret Pending, snd (register_waker E ptr task w))"
proof -
  let ?w = "snd (register_waker E ptr task w)"
  have "register_waker E ptr task w = (Ret (), ?w)"
    using assms(3) by (simp add: register_waker_Some)
  moreover have "f ptr ?w = (Ret Pending, ?w)"
    using lib_test_pair [OF assms(1), of ?w] lib_test_cong [OF assms(1), of ?w w] assms(2) by simp
  ultimately show ?thesis
    using assms(1,2) by (simp add: request_poll_def bind_on_test bind_Ret_eq)
qed

lemma await_Ready:
  "lib_test (f ptr) \<Longrightarrow> fst (f ptr w) = Ret (Ready x) \<Longrightarrow>
   await_request E f ptr task others (Suc n) w = (Ret x, snd (request_drop E ptr w))"
  by (simp add: bind_def request_poll_Ready request_drop_def ffi_def ret_def split: prod.splits)

lemma await_Pending:
  "lib_test (f ptr) \<Longrightarrow> fst (f ptr w) = Ret Pending \<Longrightarrow> reqs w ptr = Some a \<Longrightarrow>
   await_request E f ptr task others (Suc n) w =
   await_request E f ptr task others n (park E ptr task others w)"
  by (simp add: bind_def request_poll_Pending modify_def park_def)

text \<open>The rest of the program leaves the memory of this request initialised.\<close>

definition keeps_request :: "handle \<Rightarrow> (('u, 'wk, 's, 'c) world \<Rightarrow> ('u, 'wk, 's, 'c) world) \<Rightarrow> bool" where
  "keeps_request ptr others \<longleftrightarrow> (\<forall>w. reqs w ptr \<noteq> None \<longrightarrow> reqs (others w) ptr \<noteq> None)"

lemma park_keeps: "keeps_request ptr others \<Longrightarrow> reqs w ptr \<noteq> None \<Longrightarrow> reqs (park E ptr task others w) ptr \<noteq> None"
  by (auto simp: keeps_request_def park_def register_waker_def)

lemma await_completes:
  assumes "lib_test (f ptr)" "keeps_request ptr others" "reqs w ptr \<noteq> None"
    and "\<forall>i<k. fst (f ptr ((park E ptr task others ^^ i) w)) = Ret Pending"
    and "fst (f ptr ((park E ptr task others ^^ k) w)) = Ret (Ready x)" "k < n"
  shows "await_request E f ptr task others n w =
     (Ret x, snd (request_drop E ptr ((park E ptr task others ^^ k) w)))"
  using assms(3-)
proof (induction k arbitrary: w n)
  case 0
  then show ?case
    using await_Ready [of f ptr w x E task others "n - 1"] assms(1) by simp
next
  case (Suc k)
  let ?w = "park E ptr task others w"
  obtain m where n: "n = Suc m" "k < m"
    using Suc.prems(4) by (metis Suc_lessE)
  have step: "(park E ptr task others ^^ Suc i) w = (park E ptr task others ^^ i) ?w" for i
    by (simp add: funpow_swap1)
  have "\<forall>i<k. fst (f ptr ((park E ptr task others ^^ i) ?w)) = Ret Pending"
    using Suc.prems(2) step by (metis Suc_mono)
  then have "await_request E f ptr task others m ?w =
      (Ret x, snd (request_drop E ptr ((park E ptr task others ^^ k) ?w)))"
    using Suc.prems(1,3) n(2) assms(2) step by (intro Suc.IH) (auto simp: park_keeps)
  moreover have "fst (f ptr w) = Ret Pending"
    using Suc.prems(2) by (metis funpow_0 zero_less_Suc)
  ultimately show ?case
    using Suc.prems(1) assms(1) n(1) step by (auto simp only: await_Pending)
qed

lemma await_unfinished:
  assumes "lib_test (f ptr)" "keeps_request ptr others" "reqs w ptr \<noteq> None"
    and "\<forall>i<n. fst (f ptr ((park E ptr task others ^^ i) w)) = Ret Pending"
  shows "await_request E f ptr task others n w = (Unfinished, (park E ptr task others ^^ n) w)"
  using assms(3-)
proof (induction n arbitrary: w)
  case 0
  then show ?case by (simp add: lift_def)
next
  case (Suc n)
  let ?w = "park E ptr task others w"
  have step: "(park E ptr task others ^^ Suc i) w = (park E ptr task others ^^ i) ?w" for i
    by (simp add: funpow_swap1)
  have "\<forall>i<n. fst (f ptr ((park E ptr task others ^^ i) ?w)) = Ret Pending"
    using Suc.prems(2) step by (metis Suc_mono)
  then have "await_request E f ptr task others n ?w = (Unfinished, (park E ptr task others ^^ n) ?w)"
    using Suc.prems(1) assms(2) by (intro Suc.IH) (auto simp: park_keeps)
  moreover have "fst (f ptr w) = Ret Pending"
    using Suc.prems(2) by (metis funpow_0 zero_less_Suc)
  ultimately show ?case
    using Suc.prems(1) assms(1) step by (auto simp only: await_Pending)
qed

section \<open>The future as micro-steps\<close>

text \<open>
  One poll is three accesses to shared memory: a test, the registration of the waker, a second
  test. The library may complete the request between any two of them; its completion callback
  wakes whatever waker is registered then. \<open>finish\<close> is the effect of a completion on the
  library's state, and other activity is any step that leaves this request alone.
\<close>

datatype 'a poll_pc = Testing | Registering | Retesting | Suspended | Resolved 'a

inductive poll_step ::
  "('u, 'wk) env \<Rightarrow> (handle \<Rightarrow> (('u, 'wk, 's, 'c) world, 'a poll) prog) \<Rightarrow> ('u \<Rightarrow> 'u) \<Rightarrow> handle \<Rightarrow> nat \<Rightarrow>
   ('u, 'wk, 's, 'c) world \<times> 'a poll_pc \<Rightarrow> ('u, 'wk, 's, 'c) world \<times> 'a poll_pc \<Rightarrow> bool"
  for E poll_fn finish ptr task where
  first_ready: "poll_fn ptr w = (Ret (Ready x), w') \<Longrightarrow>
    poll_step E poll_fn finish ptr task (w, Testing) (w', Resolved x)"
| first_pending: "poll_fn ptr w = (Ret Pending, w') \<Longrightarrow>
    poll_step E poll_fn finish ptr task (w, Testing) (w', Registering)"
| register: "register_waker E ptr task w = (Ret (), w') \<Longrightarrow>
    poll_step E poll_fn finish ptr task (w, Registering) (w', Retesting)"
| second_ready: "poll_fn ptr w = (Ret (Ready x), w') \<Longrightarrow>
    poll_step E poll_fn finish ptr task (w, Retesting) (w', Resolved x)"
| second_pending: "poll_fn ptr w = (Ret Pending, w') \<Longrightarrow>
    poll_step E poll_fn finish ptr task (w, Retesting) (w', Suspended)"
| complete: "wake_request E ptr (w\<lparr>lib := finish (lib w)\<rparr>) = (Ret (), w') \<Longrightarrow>
    poll_step E poll_fn finish ptr task (w, pc) (w', pc)"
| resume: "task \<in> set (scheduled w) \<Longrightarrow>
    poll_step E poll_fn finish ptr task
      (w, Suspended) (w\<lparr>scheduled := removeAll task (scheduled w)\<rparr>, Testing)"
| other: "fst (poll_fn ptr w') = fst (poll_fn ptr w) \<Longrightarrow> reqs w' ptr = reqs w ptr \<Longrightarrow>
    (task \<in> set (scheduled w) \<longrightarrow> task \<in> set (scheduled w')) \<Longrightarrow>
    poll_step E poll_fn finish ptr task (w, pc) (w', pc)"

inductive_cases poll_stepE: "poll_step E poll_fn finish ptr task (w, pc) (w', pc')"

text \<open>Without interference the micro-steps compute \<^verbatim>\<open>RequestHandle::poll\<close>.\<close>

lemma request_poll_steps:
  assumes "request_poll E poll_fn ptr task w = (Ret r, w')"
  shows "(poll_step E poll_fn finish ptr task)\<^sup>*\<^sup>* (w, Testing)
           (w', case r of Ready x \<Rightarrow> Resolved x | Pending \<Rightarrow> Suspended)"
proof -
  let ?step = "poll_step E poll_fn finish ptr task"
  obtain r1 w1 where first: "poll_fn ptr w = (Ret r1, w1)"
    and rest: "(case r1 of Ready x \<Rightarrow> ret (Ready x)
                 | Pending \<Rightarrow> bind (register_waker E ptr task) (\<lambda>_. poll_fn ptr)) w1 = (Ret r, w')"
    using assms by (auto simp: request_poll_def bind_Ret_iff)
  show ?thesis
  proof (cases r1)
    case (Ready x)
    with first rest show ?thesis
      by (auto simp: ret_def intro!: r_into_rtranclp poll_step.first_ready)
  next
    case Pending
    with rest obtain w2 where reg: "register_waker E ptr task w1 = (Ret (), w2)"
      and second: "poll_fn ptr w2 = (Ret r, w')"
      by (auto simp: bind_Ret_iff)
    have "?step (w, Testing) (w1, Registering)"
      using first Pending by (simp add: poll_step.first_pending)
    moreover have "?step (w1, Registering) (w2, Retesting)"
      using reg by (rule poll_step.register)
    moreover have "?step (w2, Retesting) (w', case r of Ready x \<Rightarrow> Resolved x | Pending \<Rightarrow> Suspended)"
      using second by (auto intro: poll_step.intros split: poll.split)
    ultimately show ?thesis
      by (meson converse_rtranclp_into_rtranclp r_into_rtranclp)
  qed
qed

text \<open>
  The invariant: once the waker is registered, the cell holds this task's waker or the task is
  already scheduled; and a suspended task that is not scheduled waits for a pending request.
\<close>

definition wake_inv ::
  "('u, 'wk) env \<Rightarrow> ('wk \<Rightarrow> nat option) \<Rightarrow> (handle \<Rightarrow> (('u, 'wk, 's, 'c) world, 'a poll) prog) \<Rightarrow> handle \<Rightarrow> nat \<Rightarrow>
   ('u, 'wk, 's, 'c) world \<times> 'a poll_pc \<Rightarrow> bool" where
  "wake_inv E stored poll_fn ptr task = (\<lambda>(w, pc).
     pc \<in> {Retesting, Suspended} \<longrightarrow> task \<notin> set (scheduled w) \<longrightarrow>
       (\<exists>a. reqs w ptr = Some a \<and> stored a = Some task)
       \<and> (pc = Suspended \<longrightarrow> fst (poll_fn ptr w) = Ret Pending))"

context waker_cell
begin

lemma wake_schedules:
  assumes "waker_ops E = ops" "wake_request E ptr w = (Ret (), w')"
  shows "\<exists>a. reqs w ptr = Some a \<and> lib w' = lib w \<and> set (scheduled w) \<subseteq> set (scheduled w') \<and>
    (\<forall>t. stored a = Some t \<longrightarrow> t \<in> set (scheduled w'))"
  using assms take_stored
  by (auto simp: wake_request_def split: option.splits prod.splits) (metis fst_conv option.inject option.distinct(1))+

lemma poll_step_inv:
  assumes ops: "waker_ops E = ops" and test: "lib_test (poll_fn ptr)"
    and step: "poll_step E poll_fn finish ptr task s s'"
    and inv: "wake_inv E stored poll_fn ptr task s"
  shows "wake_inv E stored poll_fn ptr task s'"
  using step inv
proof (cases rule: poll_step.cases)
  case (register w w')
  then show ?thesis
    using stored_register ops by (auto simp: wake_inv_def register_waker_def split: option.splits)
next
  case (second_pending w w')
  then show ?thesis
    using inv lib_test_pair [OF test, of w] by (auto simp: wake_inv_def)
next
  case (complete w w' pc)
  with wake_schedules [OF ops complete(3)] inv show ?thesis
    by (auto simp: wake_inv_def)
next
  case (other w' w pc)
  then show ?thesis
    using inv by (auto simp: wake_inv_def)
qed (auto simp: wake_inv_def)

lemma poll_steps_inv:
  assumes "waker_ops E = ops" "lib_test (poll_fn ptr)"
    and "(poll_step E poll_fn finish ptr task)\<^sup>*\<^sup>* (w, Testing) s'"
  shows "wake_inv E stored poll_fn ptr task s'"
  using assms(3)
proof (induction rule: rtranclp_induct)
  case base
  then show ?case by (simp add: wake_inv_def)
next
  case (step s t)
  then show ?case using poll_step_inv [of E poll_fn ptr finish task s t] assms(1,2) by blast
qed

end

section \<open>Properties\<close>

lemma request_poll_calls: "lib_test (poll_fn ptr) \<Longrightarrow> calls (snd (request_poll E poll_fn ptr task w)) = calls w"
  by (auto simp: request_poll_def bind_on_test ret_def register_waker_def bind_def
      elim!: lib_testE split: outcome.splits poll.splits option.splits)

text \<open>How often a request has been freed.\<close>

abbreviation frees :: "handle \<Rightarrow> ('u, 'wk, 's, 'c) world \<Rightarrow> nat" where
  "frees ptr w \<equiv> count_list (calls w) (Ucp_request_free ptr)"

text \<open>
  C18. Waiting for a request ends when the library completes it: if the request is pending in the
  first \<open>k\<close> rounds and its test yields \<open>x\<close> in round \<open>k\<close>, then within \<open>k + 1\<close> polls the future
  returns \<open>x\<close>, in the state of that round with the request freed.
\<close>

theorem await_request_completes:
  assumes "lib_test (f ptr)" "keeps_request ptr others" "reqs w ptr \<noteq> None"
    and "\<forall>i<k. fst (f ptr ((park E ptr task others ^^ i) w)) = Ret Pending"
    and "fst (f ptr ((park E ptr task others ^^ k) w)) = Ret (Ready x)" "k < n"
  shows "await_request E f ptr task others n w =
     (Ret x, snd (request_drop E ptr ((park E ptr task others ^^ k) w)))"
  using assms by (rule await_completes)

text \<open>A run: one round pending, then cancelled; what runs in between is the next script line.\<close>

theorem await_request_completes_witness:
  "fst (await_request (sample_env Debug) (poll_normal (sample_env Debug)) 8 1 (\<lambda>w. w\<lparr>lib := tl (lib w)\<rparr>) 5
     ((sample_world [ok_reply\<lparr>status_of := UCS_INPROGRESS\<rparr>, ok_reply\<lparr>status_of := UCS_ERR_CANCELED\<rparr>])
        \<lparr>reqs := [8 \<mapsto> None]\<rparr>))
   = Ret (Err Canceled)"
  by (subst await_request_completes [where k = 1 and x = "Err Canceled"])
    (simp_all add: keeps_request_def sample_world_def poll_normal_def park_def register_waker_def
      bind_def query_def ret_def lift_def)

lemma await_frees:
  assumes "lib_test (f ptr)" "\<forall>v. frees ptr (others v) = frees ptr v"
    and "await_request E f ptr task others n w = (r, w')"
  shows "frees ptr w' = frees ptr w + (case r of Ret _ \<Rightarrow> 1 | _ \<Rightarrow> 0)"
  using assms(3)
proof (induction n arbitrary: w)
  case 0
  then show ?case by (auto simp: lift_def)
next
  case (Suc n)
  obtain q v where poll: "request_poll E f ptr task w = (q, v)" by fastforce
  then have same: "calls v = calls w"
    using request_poll_calls [of f ptr E task w] assms(1) by simp
  show ?case
  proof (cases "q = Ret Pending")
    case True
    then have "await_request E f ptr task others n (others v) = (r, w')"
      using Suc.prems poll by (simp add: bind_def modify_def)
    from Suc.IH [OF this] assms(2) same show ?thesis by simp
  next
    case False
    with Suc.prems poll same show ?thesis
      by (auto simp: bind_def request_drop_def ffi_def ret_def split: outcome.splits poll.splits prod.splits)
  qed
qed

text \<open>
  A wait frees its request exactly once if it returns, and not at all while it is suspended or
  if the run ends in a fault (the model stops there), provided the other tasks do not free it.
\<close>

theorem await_request_frees_once:
  assumes "lib_test (f ptr)" "\<forall>v. frees ptr (others v) = frees ptr v"
    and "await_request E f ptr task others n w = (r, w')"
  shows "frees ptr w' = frees ptr w + (case r of Ret _ \<Rightarrow> 1 | _ \<Rightarrow> 0)"
  using assms by (rule await_frees)

theorem await_request_frees_once_witness:
  "frees 8 (snd (await_request (sample_env Debug) (poll_recv (sample_env Debug)) 8 1 (\<lambda>w. w) 1
     ((sample_world [] :: (reply list, nat option, unit, unit) world) \<lparr>reqs := [8 \<mapsto> None]\<rparr>))) = 1"
proof -
  let ?w = "(sample_world [] :: (reply list, nat option, unit, unit) world) \<lparr>reqs := [8 \<mapsto> None]\<rparr>"
  let ?run = "await_request (sample_env Debug) (poll_recv (sample_env Debug)) 8 1 (\<lambda>w. w) 1 ?w"
  have "fst ?run = Ret ()"
    by (simp add: numeral_eq_Suc bind_def request_poll_def poll_recv_def query_def sample_world_def
        ok_reply_def ret_def request_drop_def ffi_def split: prod.split)
  with await_request_frees_once [of "poll_recv (sample_env Debug)" 8 "\<lambda>w. w" "sample_env Debug" 1 1 ?w
      "fst ?run" "snd ?run"]
  show ?thesis by (simp add: sample_world_def)
qed

text \<open>
  C2. No wake-up is lost: in every interleaving of a poll with the completion of its request and
  with other activity, when the task ends up suspended and the request is no longer pending, the
  task has been scheduled.
\<close>

theorem no_lost_wakeup:
  assumes "waker_cell (waker_ops E) stored" "lib_test (poll_fn ptr)"
    and "(poll_step E poll_fn finish ptr task)\<^sup>*\<^sup>* (w0, Testing) (w, Suspended)"
    and "fst (poll_fn ptr w) \<noteq> Ret Pending"
  shows "task \<in> set (scheduled w)"
  using waker_cell.poll_steps_inv [OF assms(1) refl assms(2,3)] assms(4)
  by (auto simp: wake_inv_def)

text \<open>The critical run: the request completes after the second test.\<close>

theorem no_lost_wakeup_witness:
  "\<exists>w. (poll_step (sample_env Debug) (poll_normal (sample_env Debug)) tl 8 1)\<^sup>*\<^sup>*
         ((sample_world [ok_reply\<lparr>status_of := UCS_INPROGRESS\<rparr>] :: (reply list, nat option, unit, unit) world)
            \<lparr>reqs := [8 \<mapsto> None]\<rparr>, Testing)
         (w, Suspended)
     \<and> fst (poll_normal (sample_env Debug) 8 w) = Ret (Ready (Ok ())) \<and> 1 \<in> set (scheduled w)"
proof -
  let ?E = "sample_env Debug" and ?f = "poll_normal (sample_env Debug)"
  let ?w = "(sample_world [ok_reply\<lparr>status_of := UCS_INPROGRESS\<rparr>] :: (reply list, nat option, unit, unit) world)
     \<lparr>reqs := [8 \<mapsto> None]\<rparr>"
  let ?v = "?w\<lparr>reqs := [8 \<mapsto> Some 1]\<rparr>"
  let ?u = "?w\<lparr>lib := [], scheduled := [1]\<rparr>"
  have "request_poll ?E ?f 8 1 ?w = (Ret Pending, ?v)"
    by (simp add: request_poll_def poll_normal_def query_def register_waker_def sample_world_def
        bind_def ret_def)
  from request_poll_steps [OF this, of tl]
  have "(poll_step ?E ?f tl 8 1)\<^sup>*\<^sup>* (?w, Testing) (?v, Suspended)" by simp
  moreover have "poll_step ?E ?f tl 8 1 (?v, Suspended) (?u, Suspended)"
    by (rule poll_step.complete) (simp add: wake_request_def sample_world_def)
  ultimately have run: "(poll_step ?E ?f tl 8 1)\<^sup>*\<^sup>* (?w, Testing) (?u, Suspended)"
    by (rule rtranclp.rtrancl_into_rtrancl)
  have ready: "fst (?f 8 ?u) = Ret (Ready (Ok ()))"
    by (simp add: poll_normal_def query_def bind_def ok_reply_def ret_def lift_def)
  have "waker_cell (waker_ops ?E) (\<lambda>a. a)"
    using ow.waker_cell_axioms by simp
  from no_lost_wakeup [OF this _ run] ready have "1 \<in> set (scheduled ?u)" by simp
  with run ready show ?thesis by blast
qed

text \<open>
  C31. The micro-steps are the code's: whatever one uninterrupted call of the future's \<^verbatim>\<open>poll\<close> does, the
  step relation does in a sequence of its steps.
\<close>

theorem request_poll_refines:
  assumes "request_poll E poll_fn ptr task w = (Ret r, w')"
  shows "(poll_step E poll_fn finish ptr task)\<^sup>*\<^sup>* (w, Testing)
           (w', case r of Ready x \<Rightarrow> Resolved x | Pending \<Rightarrow> Suspended)"
  using assms by (rule request_poll_steps)

theorem request_poll_refines_witness:
  "(poll_step (sample_env Debug) (poll_recv (sample_env Debug)) tl 8 1)\<^sup>*\<^sup>*
     (sample_world [], Testing) (sample_world [], Resolved ())"
proof -
  have "request_poll (sample_env Debug) (poll_recv (sample_env Debug)) 8 1 (sample_world []) =
      (Ret (Ready ()), sample_world [])"
    by (simp add: request_poll_def poll_recv_def query_def sample_world_def ok_reply_def bind_def ret_def)
  from request_poll_refines [OF this] show ?thesis by simp
qed

end
