(* ===== verification/Context.thy ===== *)
theory Context
  imports Request
begin

text \<open>
  The configuration and the application context of \<^verbatim>\<open>src/ucp/mod.rs\<close>: reading and releasing a
  configuration, creating a context, sharing it through an \<^verbatim>\<open>Arc\<close>, and its cleanup when the last
  owner goes.
\<close>

section \<open>\<^verbatim>\<open>Config\<close>\<close>

text \<open>\<^verbatim>\<open>Config::default\<close> panics when the library cannot read its configuration.\<close>

definition config_default :: "('u, 'wk) env \<Rightarrow> (('u, 'wk, 's, 'c) world, handle) prog" where
  "config_default E =
     bind (ffi E Ucp_config_read) (\<lambda>r.
     bind (lift (from_status (prof E) (status_of r))) (\<lambda>res.
     bind (lift (unwrap res)) (\<lambda>_. lift (assume_init (out_word r)))))"

definition config_drop :: "('u, 'wk) env \<Rightarrow> handle \<Rightarrow> (('u, 'wk, 's, 'c) world, unit) prog" where
  "config_drop E cfg = bind (ffi E (Ucp_config_release cfg)) (\<lambda>_. ret ())"

definition config_print :: "('u, 'wk) env \<Rightarrow> handle \<Rightarrow> (('u, 'wk, 's, 'c) world, unit) prog" where
  "config_print E cfg =
     (let flags = num (binds E) UCS_CONFIG_PRINT_CONFIG OR num (binds E) UCS_CONFIG_PRINT_DOC
            OR num (binds E) UCS_CONFIG_PRINT_HEADER OR num (binds E) UCS_CONFIG_PRINT_HIDDEN
      in bind (ffi E (Ucp_config_print cfg ''UCP Configuration'' flags)) (\<lambda>_. ret ()))"

section \<open>\<^verbatim>\<open>Context\<close>\<close>

text \<open>\<open>am\<close> is the Cargo feature of that name.\<close>

definition context_features :: "abi \<Rightarrow> bool \<Rightarrow> u64" where
  "context_features B am =
     (let features = num B UCP_FEATURE_RMA OR num B UCP_FEATURE_TAG OR num B UCP_FEATURE_STREAM
                       OR num B UCP_FEATURE_WAKEUP
      in if am then features OR num B UCP_FEATURE_AM else features)"

definition context_params :: "abi \<Rightarrow> bool \<Rightarrow> init_params" where
  "context_params B am =
     \<lparr>init_mask = num B UCP_PARAM_FIELD_FEATURES OR num B UCP_PARAM_FIELD_REQUEST_SIZE
        OR num B UCP_PARAM_FIELD_REQUEST_INIT OR num B UCP_PARAM_FIELD_REQUEST_CLEANUP
        OR num B UCP_PARAM_FIELD_MT_WORKERS_SHARED,
      features = context_features B am,
      request_size = num B SIZE_OF_REQUEST,
      has_init_cleanup = True,
      mt_workers_shared = 1\<rparr>"

definition context_new_with_config ::
  "('u, 'wk) env \<Rightarrow> bool \<Rightarrow> handle \<Rightarrow> (('u, 'wk, 's, 'c) world, (nat, Error) result) prog" where
  "context_new_with_config E am cfg =
     bind (ffi E (Ucp_init_version (num (binds E) UCP_API_MAJOR) (num (binds E) UCP_API_MINOR)
                    (context_params (binds E) am) cfg)) (\<lambda>r.
     try_bind (lift (from_status (prof E) (status_of r))) (\<lambda>_.
     bind (lift (assume_init (out_word r))) (\<lambda>h.
     bind (on_contexts (rc_new \<lparr>c_handle = h\<rparr>)) (\<lambda>a. ret (Ok a)))))"

text \<open>\<^verbatim>\<open>Context::new\<close>: the temporary configuration is dropped when the call is over.\<close>

definition context_new ::
  "('u, 'wk) env \<Rightarrow> bool \<Rightarrow> (('u, 'wk, 's, 'c) world, (nat, Error) result) prog" where
  "context_new E am =
     bind (config_default E) (\<lambda>cfg.
     bind (context_new_with_config E am cfg) (\<lambda>res.
     bind (config_drop E cfg) (\<lambda>_. ret res)))"

definition context_query ::
  "('u, 'wk) env \<Rightarrow> nat \<Rightarrow> (('u, 'wk, 's, 'c) world, (u64, Error) result) prog" where
  "context_query E a =
     bind (on_contexts (rc_get a)) (\<lambda>c.
     bind (ffi E (Ucp_context_query (c_handle c))) (\<lambda>r.
     try_bind (lift (from_status (prof E) (status_of r))) (\<lambda>_.
     bind (lift (assume_init (out_word r))) (\<lambda>attr. ret (Ok attr)))))"

definition context_print :: "('u, 'wk) env \<Rightarrow> nat \<Rightarrow> (('u, 'wk, 's, 'c) world, unit) prog" where
  "context_print E a =
     bind (on_contexts (rc_get a)) (\<lambda>c. bind (ffi E (Ucp_context_print_info (c_handle c))) (\<lambda>_. ret ()))"

definition context_clone :: "nat \<Rightarrow> (('u, 'wk, 's, 'c) world, unit) prog" where
  "context_clone a = on_contexts (rc_clone a)"

text \<open>Dropping an \<^verbatim>\<open>Arc<Context>\<close>; the last one runs \<^verbatim>\<open>Context::drop\<close>.\<close>

definition context_drop :: "('u, 'wk) env \<Rightarrow> nat \<Rightarrow> (('u, 'wk, 's, 'c) world, unit) prog" where
  "context_drop E a =
     bind (on_contexts (rc_drop a)) (\<lambda>last. case last of
         None \<Rightarrow> ret ()
       | Some c \<Rightarrow> bind (ffi E (Ucp_cleanup (c_handle c))) (\<lambda>_. ret ()))"

end
