(* ===== verification/Worker.thy ===== *)
theory Worker
  imports Context
begin

text \<open>
  The worker of \<^verbatim>\<open>src/ucp/worker.rs\<close>: creation, sharing through \<^verbatim>\<open>Rc\<close>, destruction with the last
  owner, and the direct calls (address, wait, arm, event descriptor, flush, thread mode). Progress
  and the polling loops are in the theory \<open>Progress\<close>, which knows all callbacks.
\<close>

section \<open>Creation and sharing\<close>

definition worker_new ::
  "('u, 'wk) env \<Rightarrow> nat \<Rightarrow> (('u, 'wk, 's, 'c) world, (nat, Error) result) prog" where
  "worker_new E ctx =
     bind (on_contexts (rc_get ctx)) (\<lambda>c.
     bind (ffi E (Ucp_worker_create (c_handle c) (num (binds E) UCP_WORKER_PARAM_FIELD_THREAD_MODE)
                    (num (binds E) UCS_THREAD_MODE_SINGLE))) (\<lambda>r.
     try_bind (lift (from_status (prof E) (status_of r))) (\<lambda>_.
     bind (lift (assume_init (out_word r))) (\<lambda>h.
     bind (context_clone ctx) (\<lambda>_.
     bind (on_workers (rc_new \<lparr>w_handle = h, w_context = ctx, am_streams = []\<rparr>)) (\<lambda>a. ret (Ok a)))))))"

text \<open>\<^verbatim>\<open>Context::create_worker\<close>.\<close>

definition create_worker ::
  "('u, 'wk) env \<Rightarrow> nat \<Rightarrow> (('u, 'wk, 's, 'c) world, (nat, Error) result) prog" where
  "create_worker E ctx = worker_new E ctx"

definition worker_clone :: "nat \<Rightarrow> (('u, 'wk, 's, 'c) world, unit) prog" where
  "worker_clone a = on_workers (rc_clone a)"

fun drop_streams :: "nat list \<Rightarrow> (('u, 'wk, 's, 'c) world, unit) prog" where
  "drop_streams [] = ret ()"
| "drop_streams (a # as) = bind (on_streams (rc_drop a)) (\<lambda>_. drop_streams as)"

text \<open>
  Dropping an \<^verbatim>\<open>Rc<Worker>\<close>. The last one runs \<^verbatim>\<open>Worker::drop\<close> and then drops the fields: the
  context's \<^verbatim>\<open>Arc\<close> and the map of active-message streams.
\<close>

definition worker_drop :: "('u, 'wk) env \<Rightarrow> nat \<Rightarrow> (('u, 'wk, 's, 'c) world, unit) prog" where
  "worker_drop E a =
     bind (on_workers (rc_drop a)) (\<lambda>last. case last of
         None \<Rightarrow> ret ()
       | Some wk \<Rightarrow>
           bind (ffi E (Ucp_worker_destroy (w_handle wk))) (\<lambda>_.
           bind (context_drop E (w_context wk)) (\<lambda>_. drop_streams (map snd (am_streams wk)))))"

section \<open>Direct calls\<close>

text \<open>A call on the handle of a shared worker.\<close>

definition worker_call ::
  "('u, 'wk) env \<Rightarrow> nat \<Rightarrow> (handle \<Rightarrow> ffi_call) \<Rightarrow> (('u, 'wk, 's, 'c) world, reply) prog" where
  "worker_call E wk call = bind (on_workers (rc_get wk)) (\<lambda>v. ffi E (call (w_handle v)))"

definition worker_print :: "('u, 'wk) env \<Rightarrow> nat \<Rightarrow> (('u, 'wk, 's, 'c) world, unit) prog" where
  "worker_print E wk = bind (worker_call E wk Ucp_worker_print_info) (\<lambda>_. ret ())"

definition assert_ok :: "ucs_status_t \<Rightarrow> unit outcome" where
  "assert_ok s = (if s = UCS_OK then Ret () else Fault (Panic Assertion_failed))"

definition worker_thread_mode :: "('u, 'wk) env \<Rightarrow> nat \<Rightarrow> (('u, 'wk, 's, 'c) world, u64) prog" where
  "worker_thread_mode E wk =
     bind (worker_call E wk (\<lambda>h. Ucp_worker_query h (num (binds E) UCP_WORKER_ATTR_FIELD_THREAD_MODE))) (\<lambda>r.
     bind (lift (assert_ok (status_of r))) (\<lambda>_. lift (assume_init (out_word r))))"

text \<open>\<^verbatim>\<open>WorkerAddress\<close>: the packed address and the worker it is borrowed from.\<close>

record WorkerAddress =
  wa_handle :: handle
  wa_length :: usize
  wa_worker :: nat

definition worker_address ::
  "('u, 'wk) env \<Rightarrow> nat \<Rightarrow> (('u, 'wk, 's, 'c) world, (WorkerAddress, Error) result) prog" where
  "worker_address E wk =
     bind (worker_call E wk Ucp_worker_get_address) (\<lambda>r.
     try_bind (lift (from_status (prof E) (status_of r))) (\<lambda>_.
     bind (lift (assume_init (out_word r))) (\<lambda>h.
     bind (lift (assume_init (out_len r))) (\<lambda>n.
       ret (Ok \<lparr>wa_handle = h, wa_length = n, wa_worker = wk\<rparr>)))))"

text \<open>\<^verbatim>\<open>WorkerAddress::as_ref\<close>: the slice the packed address is read as.\<close>

definition worker_address_as_ref :: "WorkerAddress \<Rightarrow> handle \<times> usize" where
  "worker_address_as_ref a = (wa_handle a, wa_length a)"

definition worker_address_drop ::
  "('u, 'wk) env \<Rightarrow> WorkerAddress \<Rightarrow> (('u, 'wk, 's, 'c) world, unit) prog" where
  "worker_address_drop E a =
     bind (worker_call E (wa_worker a) (\<lambda>h. Ucp_worker_release_address h (wa_handle a))) (\<lambda>_. ret ())"

definition worker_wait ::
  "('u, 'wk) env \<Rightarrow> nat \<Rightarrow> (('u, 'wk, 's, 'c) world, (unit, Error) result) prog" where
  "worker_wait E wk =
     bind (worker_call E wk Ucp_worker_wait) (\<lambda>r. lift (from_status (prof E) (status_of r)))"

text \<open>\<^verbatim>\<open>arm\<close>: \<open>True\<close> when the caller may sleep, \<open>False\<close> when events are still to be progressed.\<close>

definition worker_arm ::
  "('u, 'wk) env \<Rightarrow> nat \<Rightarrow> (('u, 'wk, 's, 'c) world, (bool, Error) result) prog" where
  "worker_arm E wk =
     bind (worker_call E wk Ucp_worker_arm) (\<lambda>r.
       if status_of r = UCS_OK then ret (Ok True)
       else if status_of r = UCS_ERR_BUSY then ret (Ok False)
       else bind (lift (from_error (prof E) (status_of r))) (\<lambda>e. ret (Err e)))"

definition worker_event_fd ::
  "('u, 'wk) env \<Rightarrow> nat \<Rightarrow> (('u, 'wk, 's, 'c) world, (u64, Error) result) prog" where
  "worker_event_fd E wk =
     bind (worker_call E wk Ucp_worker_get_efd) (\<lambda>r.
     try_bind (lift (from_status (prof E) (status_of r))) (\<lambda>_.
     bind (lift (assume_init (out_word r))) (\<lambda>fd. ret (Ok fd))))"

text \<open>\<^verbatim>\<open>AsRawFd\<close>.\<close>

definition worker_as_raw_fd :: "('u, 'wk) env \<Rightarrow> nat \<Rightarrow> (('u, 'wk, 's, 'c) world, u64) prog" where
  "worker_as_raw_fd E wk = bind (worker_event_fd E wk) (\<lambda>res. lift (unwrap res))"

definition worker_flush :: "('u, 'wk) env \<Rightarrow> nat \<Rightarrow> (('u, 'wk, 's, 'c) world, unit) prog" where
  "worker_flush E wk =
     bind (worker_call E wk Ucp_worker_flush) (\<lambda>r. lift (assert_ok (status_of r)))"

end
