(* ===== verification/Endpoint.thy ===== *)
theory Endpoint
  imports Worker
begin

text \<open>
  The endpoint of \<^verbatim>\<open>src/ucp/endpoint/mod.rs\<close>: the shared state \<^verbatim>\<open>EndpointInner\<close>, to which the
  library keeps a weak reference as user data; creation, the error handler, cloning, closing and
  dropping. Sockets and addresses are in the theory \<open>Connect\<close>.
\<close>

section \<open>\<^verbatim>\<open>EndpointInner\<close>\<close>

definition inner_new :: "nat \<Rightarrow> EndpointInner" where
  "inner_new wk = \<lparr>closed = False, ep_status = UCS_OK, ep_worker = wk\<rparr>"

definition inner_is_closed :: "nat \<Rightarrow> (('u, 'wk, 's, 'c) world, bool) prog" where
  "inner_is_closed a = bind (on_inners (rc_get a)) (\<lambda>i. ret (closed i))"

definition inner_set_status :: "nat \<Rightarrow> ucs_status_t \<Rightarrow> (('u, 'wk, 's, 'c) world, unit) prog" where
  "inner_set_status a status =
     (if status \<noteq> UCS_OK then on_inners (rc_update a (\<lambda>i. i\<lparr>ep_status := status\<rparr>)) else ret ())"

definition inner_check ::
  "('u, 'wk) env \<Rightarrow> nat \<Rightarrow> (('u, 'wk, 's, 'c) world, (unit, Error) result) prog" where
  "inner_check E a = bind (on_inners (rc_get a)) (\<lambda>i. lift (from_status (prof E) (ep_status i)))"

text \<open>
  \<^verbatim>\<open>EndpointInner::closed\<close>: the compare-and-exchange lets exactly one caller through, who
  releases the library's weak reference and records the reset.
\<close>

definition inner_closed :: "nat \<Rightarrow> (('u, 'wk, 's, 'c) world, unit) prog" where
  "inner_closed a =
     bind (on_inners (rc_get a)) (\<lambda>i.
       if closed i then ret ()
       else
         bind (on_inners (rc_update a (\<lambda>i. i\<lparr>closed := True\<rparr>))) (\<lambda>_.
         bind (inner_set_status a UCS_ERR_CONNECTION_RESET) (\<lambda>_. on_inners (weak_drop a))))"

text \<open>Dropping an \<^verbatim>\<open>Rc<EndpointInner>\<close>; the last one drops the worker's \<^verbatim>\<open>Rc\<close>.\<close>

definition inner_drop :: "('u, 'wk) env \<Rightarrow> nat \<Rightarrow> (('u, 'wk, 's, 'c) world, unit) prog" where
  "inner_drop E a =
     bind (on_inners (rc_drop a)) (\<lambda>last. case last of
         None \<Rightarrow> ret ()
       | Some i \<Rightarrow> worker_drop E (ep_worker i))"

section \<open>\<^verbatim>\<open>Endpoint\<close>\<close>

record Endpoint =
  ep_handle :: handle
  ep_inner :: nat

definition zeroed_params :: ep_params where
  "zeroed_params = \<lparr>field_mask = 0, flags = 0, sockaddr = [], address = 0, err_mode_peer = False,
     conn_request = 0, user_data = 0\<rparr>"

definition endpoint_create ::
  "('u, 'wk) env \<Rightarrow> nat \<Rightarrow> ep_params \<Rightarrow> (('u, 'wk, 's, 'c) world, (Endpoint, Error) result) prog" where
  "endpoint_create E wk params =
     bind (worker_clone wk) (\<lambda>_.
     bind (on_inners (rc_new (inner_new wk))) (\<lambda>a.
     bind (on_inners (rc_downgrade a)) (\<lambda>_.
     bind (worker_call E wk (\<lambda>h. Ucp_ep_create h (params\<lparr>field_mask := field_mask params
              OR (num (binds E) UCP_EP_PARAM_FIELD_USER_DATA OR num (binds E) UCP_EP_PARAM_FIELD_ERR_HANDLER),
              user_data := a\<rparr>))) (\<lambda>r.
     bind (lift (from_status (prof E) (status_of r))) (\<lambda>res. case res of
         Inl err \<Rightarrow>
           bind (on_inners (weak_drop a)) (\<lambda>_.
           bind (inner_drop E a) (\<lambda>_. ret (Err err)))
       | Inr _ \<Rightarrow>
           bind (lift (assume_init (out_word r))) (\<lambda>h.
             ret (Ok \<lparr>ep_handle = h, ep_inner = a\<rparr>)))))))"

text \<open>
  The error handler that the library calls with its weak reference as argument. If the shared
  state is alive, the status is recorded and the weak reference kept; otherwise the endpoint is
  closed by force and the weak reference released.
\<close>

definition err_handler ::
  "('u, 'wk) env \<Rightarrow> nat \<Rightarrow> handle \<Rightarrow> ucs_status_t \<Rightarrow> (('u, 'wk, 's, 'c) world, unit) prog" where
  "err_handler E arg ep status =
     bind (on_inners (weak_upgrade arg)) (\<lambda>alive.
       if alive then
         bind (inner_set_status arg status) (\<lambda>_. inner_drop E arg)
       else
         bind (ffi E (Ucp_ep_close_nb ep CLOSE_MODE_FORCE)) (\<lambda>r.
         bind (lift (from_ptr (prof E) (binds E) (ptr_of r))) (\<lambda>_.
           on_inners (weak_drop arg))))"

definition endpoint_clone :: "Endpoint \<Rightarrow> (('u, 'wk, 's, 'c) world, Endpoint) prog" where
  "endpoint_clone e = bind (on_inners (rc_clone (ep_inner e))) (\<lambda>_. ret e)"

text \<open>\<^verbatim>\<open>Endpoint::drop\<close>, then the drop of its field \<^verbatim>\<open>inner\<close>.\<close>

definition endpoint_drop :: "('u, 'wk) env \<Rightarrow> Endpoint \<Rightarrow> (('u, 'wk, 's, 'c) world, unit) prog" where
  "endpoint_drop E e =
     bind (inner_is_closed (ep_inner e)) (\<lambda>is_closed.
     bind (if is_closed then ret ()
           else
             bind (ffi E (Ucp_ep_close_nb (ep_handle e) CLOSE_MODE_FORCE)) (\<lambda>r.
             bind (lift (from_ptr (prof E) (binds E) (ptr_of r))) (\<lambda>_.
               inner_closed (ep_inner e)))) (\<lambda>_.
       inner_drop E (ep_inner e)))"

definition endpoint_is_closed :: "Endpoint \<Rightarrow> (('u, 'wk, 's, 'c) world, bool) prog" where
  "endpoint_is_closed e = inner_is_closed (ep_inner e)"

definition get_status ::
  "('u, 'wk) env \<Rightarrow> Endpoint \<Rightarrow> (('u, 'wk, 's, 'c) world, (unit, Error) result) prog" where
  "get_status E e = inner_check E (ep_inner e)"

definition get_handle ::
  "('u, 'wk) env \<Rightarrow> Endpoint \<Rightarrow> (('u, 'wk, 's, 'c) world, (handle, Error) result) prog" where
  "get_handle E e = try_bind (inner_check E (ep_inner e)) (\<lambda>_. ret (Ok (ep_handle e)))"

definition endpoint_print :: "('u, 'wk) env \<Rightarrow> Endpoint \<Rightarrow> (('u, 'wk, 's, 'c) world, unit) prog" where
  "endpoint_print E e =
     bind (inner_is_closed (ep_inner e)) (\<lambda>is_closed.
       if \<not> is_closed then bind (ffi E (Ucp_ep_print_info (ep_handle e))) (\<lambda>_. ret ()) else ret ())"

definition endpoint_worker :: "Endpoint \<Rightarrow> (('u, 'wk, 's, 'c) world, nat) prog" where
  "endpoint_worker e = bind (on_inners (rc_get (ep_inner e))) (\<lambda>i. ret (ep_worker i))"

text \<open>The test helper \<^verbatim>\<open>get_rc\<close>.\<close>

definition get_rc :: "Endpoint \<Rightarrow> (('u, 'wk, 's, 'c) world, nat \<times> nat) prog" where
  "get_rc e = on_inners (rc_counts (ep_inner e))"

section \<open>Status pointers\<close>

text \<open>
  The chain \<^verbatim>\<open>if status.is_null() { .. } else if UCS_PTR_IS_PTR(status) { .. } else { .. }\<close> with
  which every operation looks at what the library returned.
\<close>

definition on_status_ptr ::
  "('u, 'wk) env \<Rightarrow> handle \<Rightarrow> ('w, 'a) prog \<Rightarrow> ('w, 'a) prog \<Rightarrow> ('w, 'a) prog \<Rightarrow> ('w, 'a) prog" where
  "on_status_ptr E status at_once in_progress failed =
     (if status = 0 then at_once
      else bind (lift (UCS_PTR_IS_PTR (prof E) (binds E) status)) (\<lambda>is_ptr.
        if is_ptr then in_progress else failed))"

text \<open>\<^verbatim>\<open>RequestHandle { ptr: status, poll_fn }.await\<close> under an executor.\<close>

definition await_ptr ::
  "('u, 'wk) env \<Rightarrow> ('u, 'wk, 's, 'c) world executor \<Rightarrow>
   (handle \<Rightarrow> (('u, 'wk, 's, 'c) world, 'a poll) prog) \<Rightarrow> handle \<Rightarrow> (('u, 'wk, 's, 'c) world, 'a) prog" where
  "await_ptr E X poll_fn status = await_request E poll_fn status (x_task X) (x_others X) (x_polls X)"

text \<open>\<^verbatim>\<open>Err(Error::from_ptr(status).unwrap_err())\<close>.\<close>

definition ptr_error :: "('u, 'wk) env \<Rightarrow> handle \<Rightarrow> ('w, ('a, Error) result) prog" where
  "ptr_error E status =
     bind (lift (from_ptr (prof E) (binds E) status)) (\<lambda>res.
     bind (lift (unwrap_err res)) (\<lambda>e. ret (Err e)))"

section \<open>Flushing and closing\<close>

definition endpoint_flush ::
  "('u, 'wk) env \<Rightarrow> ('u, 'wk, 's, 'c) world executor \<Rightarrow> Endpoint \<Rightarrow>
   (('u, 'wk, 's, 'c) world, (unit, Error) result) prog" where
  "endpoint_flush E X e =
     try_bind (get_handle E e) (\<lambda>h.
     bind (ffi E (Ucp_ep_flush_nb h)) (\<lambda>r.
       on_status_ptr E (ptr_of r)
         (ret (Ok ()))
         (await_ptr E X (poll_normal E) (ptr_of r))
         (lift (from_ptr (prof E) (binds E) (ptr_of r)))))"

text \<open>The loop of \<^verbatim>\<open>close\<close>: it tests, and yields to the executor without registering a waker.\<close>

fun close_loop ::
  "('u, 'wk) env \<Rightarrow> (('u, 'wk, 's, 'c) world \<Rightarrow> ('u, 'wk, 's, 'c) world) \<Rightarrow> handle \<Rightarrow> nat \<Rightarrow>
   (('u, 'wk, 's, 'c) world, (unit, Error) result) prog" where
  "close_loop E others status 0 = lift Unfinished"
| "close_loop E others status (Suc n) =
     bind (poll_normal E status) (\<lambda>r. case r of
         Ready result \<Rightarrow> bind (request_drop E status) (\<lambda>_. ret result)
       | Pending \<Rightarrow> bind (modify others) (\<lambda>_. close_loop E others status n))"

definition endpoint_close ::
  "('u, 'wk) env \<Rightarrow> ('u, 'wk, 's, 'c) world executor \<Rightarrow> Endpoint \<Rightarrow> bool \<Rightarrow>
   (('u, 'wk, 's, 'c) world, (unit, Error) result) prog" where
  "endpoint_close E X e force =
     bind (if force then endpoint_is_closed e else ret False) (\<lambda>is_closed.
       if is_closed then ret (Ok ())
       else
         try_bind (if \<not> force then get_status E e else ret (Ok ())) (\<lambda>_.
         bind (ffi E (Ucp_ep_close_nb (ep_handle e) (if force then CLOSE_MODE_FORCE else CLOSE_MODE_FLUSH))) (\<lambda>r.
           on_status_ptr E (ptr_of r)
             (bind (inner_closed (ep_inner e)) (\<lambda>_. ret (Ok ())))
             (bind (close_loop E (x_others X) (ptr_of r) (x_polls X)) (\<lambda>result. case result of
                 Inr _ \<Rightarrow> bind (inner_closed (ep_inner e)) (\<lambda>_. ret result)
               | Inl _ \<Rightarrow> ret result))
             (bind (lift (UCS_PTR_RAW_STATUS (binds E) (ptr_of r))) (\<lambda>status.
                lift (from_status (prof E) status))))))"

end
