(* ===== verification/Ownership.thy ===== *)
theory Ownership
  imports Endpoint
begin

text \<open>
  Who owns what: the reference counts of contexts, workers, endpoint states and streams match the
  pointers that exist, and every operation on them keeps it so, without a fault. \<open>R\<close> counts the
  pointers held outside the shared allocations (by the user's variables and by running code); the
  pointers inside them are counted by \<open>refs_from\<close>.
\<close>

section \<open>The ownership invariant\<close>

record refs =
  r_contexts :: "nat \<Rightarrow> nat"
  r_workers :: "nat \<Rightarrow> nat"
  r_endpoints :: "nat \<Rightarrow> nat"
  r_streams :: "nat \<Rightarrow> nat"

abbreviation inc :: "nat \<Rightarrow> (nat \<Rightarrow> nat) \<Rightarrow> nat \<Rightarrow> nat" where
  "inc a f \<equiv> f(a := Suc (f a))"

abbreviation dec :: "nat \<Rightarrow> (nat \<Rightarrow> nat) \<Rightarrow> nat \<Rightarrow> nat" where
  "dec a f \<equiv> f(a := f a - 1)"

abbreviation worker_streams :: "Worker \<Rightarrow> nat list" where
  "worker_streams wk \<equiv> map snd (am_streams wk)"

text \<open>
  The state of an endpoint: the library holds one weak reference until the endpoint is closed, and
  a closed endpoint has an error status.
\<close>

definition endpoints_ok :: "EndpointInner heap \<Rightarrow> (nat \<Rightarrow> nat) \<Rightarrow> bool" where
  "endpoints_ok h R \<longleftrightarrow> (\<forall>a. case cells h a of
       None \<Rightarrow> R a = 0
     | Some b \<Rightarrow> strong b = R a \<and> 0 < R a \<and> weak b = (if closed (val b) then 0 else 1)
         \<and> (closed (val b) \<longrightarrow> ep_status (val b) \<noteq> UCS_OK))"

definition context_refs :: "('u, 'wk, 's, 'c) world \<Rightarrow> refs \<Rightarrow> nat \<Rightarrow> nat" where
  "context_refs w R a = r_contexts R a + refs_from (workers w) (\<lambda>v. [w_context v]) a"

definition worker_refs :: "('u, 'wk, 's, 'c) world \<Rightarrow> refs \<Rightarrow> nat \<Rightarrow> nat" where
  "worker_refs w R a = r_workers R a + refs_from (inners w) (\<lambda>i. [ep_worker i]) a"

definition stream_refs :: "('u, 'wk, 's, 'c) world \<Rightarrow> refs \<Rightarrow> nat \<Rightarrow> nat" where
  "stream_refs w R a = r_streams R a + refs_from (workers w) worker_streams a"

definition owns :: "('u, 'wk, 's, 'c) world \<Rightarrow> refs \<Rightarrow> bool" where
  "owns w R \<longleftrightarrow>
     heap_fresh (contexts w) \<and> heap_fresh (workers w) \<and> heap_fresh (inners w) \<and> heap_fresh (streams w)
   \<and> counts (contexts w) (context_refs w R) \<and> counts (workers w) (worker_refs w R)
   \<and> counts (streams w) (stream_refs w R)
   \<and> endpoints_ok (inners w) (r_endpoints R)"

lemmas refs_defs = context_refs_def worker_refs_def stream_refs_def

lemma owns_frame [simp]:
  "owns (w\<lparr>lib := u\<rparr>) R = owns w R" "owns (w\<lparr>calls := cs\<rparr>) R = owns w R"
  "owns (w\<lparr>reqs := rq\<rparr>) R = owns w R" "owns (w\<lparr>scheduled := ts\<rparr>) R = owns w R"
  "owns (w\<lparr>channels := ch\<rparr>) R = owns w R"
  by (simp_all add: owns_def refs_defs [abs_def])

section \<open>Total correctness of the primitives\<close>

lemma does_ffi [simp]: "does (ffi E c) w Q \<longleftrightarrow>
   Q (fst (ucx E c (lib w))) (w\<lparr>lib := snd (ucx E c (lib w)), calls := calls w @ [c]\<rparr>)"
  by (simp add: does_def ffi_def split: prod.splits)

lemma does_on [simp]:
  "does (on_contexts m1) w Q1 \<longleftrightarrow> does m1 (contexts w) (\<lambda>x h. Q1 x (w\<lparr>contexts := h\<rparr>))"
  "does (on_workers m2) w Q2 \<longleftrightarrow> does m2 (workers w) (\<lambda>x h. Q2 x (w\<lparr>workers := h\<rparr>))"
  "does (on_inners m3) w Q3 \<longleftrightarrow> does m3 (inners w) (\<lambda>x h. Q3 x (w\<lparr>inners := h\<rparr>))"
  "does (on_streams m4) w Q4 \<longleftrightarrow> does m4 (streams w) (\<lambda>x h. Q4 x (w\<lparr>streams := h\<rparr>))"
  by (auto simp: does_def on_defs split: prod.splits)

lemma counts_cong: "counts h R \<Longrightarrow> R = R' \<Longrightarrow> counts h R'"
  by simp

lemma owns_parts:
  assumes "owns w R"
  shows "heap_fresh (contexts w)" "counts (contexts w) (context_refs w R)"
    and "heap_fresh (workers w)" "counts (workers w) (worker_refs w R)"
    and "heap_fresh (streams w)" "counts (streams w) (stream_refs w R)"
    and "heap_fresh (inners w)" "endpoints_ok (inners w) (r_endpoints R)"
  using assms by (simp_all add: owns_def)

text \<open>Contexts.\<close>

lemma context_clone_owned:
  assumes own: "owns w R" and held: "0 < context_refs w R a"
  shows "does (context_clone a) w (\<lambda>_ w'. owns w' (R\<lparr>r_contexts := inc a (r_contexts R)\<rparr>)
     \<and> workers w' = workers w \<and> inners w' = inners w \<and> streams w' = streams w)"
proof -
  let ?R = "R\<lparr>r_contexts := inc a (r_contexts R)\<rparr>" and ?w = "w\<lparr>contexts := snd (rc_clone a (contexts w))\<rparr>"
  note run = clone_counted [OF owns_parts(2,1) [OF own] held]
  have "(context_refs w R)(a := Suc (context_refs w R a)) = context_refs ?w ?R"
    by (simp add: fun_eq_iff refs_defs)
  with own run(2,3) have "owns ?w ?R"
    by (simp add: owns_def worker_refs_def [abs_def] stream_refs_def [abs_def])
  then show ?thesis
    by (simp add: context_clone_def) (subst does_def, subst run(1), simp)
qed

lemma context_drop_owned:
  assumes own: "owns w R" and held: "0 < r_contexts R a"
  shows "does (context_drop E a) w (\<lambda>_ w'. owns w' (R\<lparr>r_contexts := dec a (r_contexts R)\<rparr>)
     \<and> workers w' = workers w \<and> inners w' = inners w \<and> streams w' = streams w)"
proof -
  let ?R = "R\<lparr>r_contexts := dec a (r_contexts R)\<rparr>" and ?w = "w\<lparr>contexts := snd (rc_drop a (contexts w))\<rparr>"
  have "0 < context_refs w R a" using held by (simp add: context_refs_def)
  note run = drop_counted [OF owns_parts(2,1) [OF own] this]
  have "(context_refs w R)(a := context_refs w R a - 1) = context_refs ?w ?R"
    using held by (simp add: fun_eq_iff refs_defs)
  with own run(2,3) have "owns ?w ?R"
    by (simp add: owns_def worker_refs_def [abs_def] stream_refs_def [abs_def])
  then show ?thesis
    by (simp add: context_drop_def) (subst does_def, subst run(1), simp)
qed

text \<open>Workers.\<close>

lemma worker_clone_owned:
  assumes own: "owns w R" and held: "0 < worker_refs w R a"
  shows "does (worker_clone a) w (\<lambda>_ w'. owns w' (R\<lparr>r_workers := inc a (r_workers R)\<rparr>)
     \<and> contexts w' = contexts w \<and> inners w' = inners w \<and> streams w' = streams w
     \<and> calls w' = calls w \<and> lib w' = lib w)"
proof -
  let ?R = "R\<lparr>r_workers := inc a (r_workers R)\<rparr>" and ?w = "w\<lparr>workers := snd (rc_clone a (workers w))\<rparr>"
  note run = clone_counted [OF owns_parts(4,3) [OF own] held]
  have "(worker_refs w R)(a := Suc (worker_refs w R a)) = worker_refs ?w ?R"
    by (simp add: fun_eq_iff refs_defs)
  with own run(2-4) have "owns ?w ?R"
    by (simp add: owns_def context_refs_def [abs_def] stream_refs_def [abs_def])
  then show ?thesis
    by (simp add: worker_clone_def) (subst does_def, subst run(1), simp)
qed

lemma stream_drop_owned:
  assumes own: "owns w R" and held: "0 < r_streams R a"
  shows "does (on_streams (rc_drop a)) w (\<lambda>_ w'. owns w' (R\<lparr>r_streams := dec a (r_streams R)\<rparr>)
     \<and> contexts w' = contexts w \<and> workers w' = workers w \<and> inners w' = inners w)"
proof -
  let ?R = "R\<lparr>r_streams := dec a (r_streams R)\<rparr>" and ?w = "w\<lparr>streams := snd (rc_drop a (streams w))\<rparr>"
  have "0 < stream_refs w R a" using held by (simp add: stream_refs_def)
  note run = drop_counted [OF owns_parts(6,5) [OF own] this]
  have "(stream_refs w R)(a := stream_refs w R a - 1) = stream_refs ?w ?R"
    using held by (simp add: fun_eq_iff refs_defs)
  with own run(2,3) have "owns ?w ?R"
    by (simp add: owns_def worker_refs_def [abs_def] context_refs_def [abs_def])
  then show ?thesis
    by simp (subst does_def, subst run(1), simp)
qed

lemma drop_streams_owned:
  fixes w :: "('u, 'wk, 's, 'c) world"
  assumes "owns w R" "\<And>x. count_list as x \<le> r_streams R x"
  shows "does (drop_streams as) w (\<lambda>_ w'. owns w' (R\<lparr>r_streams := (\<lambda>x. r_streams R x - count_list as x)\<rparr>)
     \<and> contexts w' = contexts w \<and> workers w' = workers w \<and> inners w' = inners w)"
  using assms
proof (induction as arbitrary: w R)
  case Nil
  then show ?case by simp
next
  case (Cons a as)
  let ?R = "R\<lparr>r_streams := dec a (r_streams R)\<rparr>"
  have "0 < r_streams R a" using Cons.prems(2) [of a] by simp
  note first = stream_drop_owned [OF Cons.prems(1) this]
  have "count_list as x \<le> r_streams ?R x" for x
    using Cons.prems(2) [of x] by (auto split: if_splits)
  note rest = Cons.IH [of _ ?R, OF _ this]
  have eq: "(\<lambda>x. r_streams ?R x - count_list as x) = (\<lambda>x. r_streams R x - count_list (a # as) x)"
    by (auto simp: fun_eq_iff)
  show ?case
    using first unfolding drop_streams.simps does_bind
  proof (rule does_mono)
    fix x and v :: "('u, 'wk, 's, 'c) world"
    assume v: "owns v ?R \<and> contexts v = contexts w \<and> workers v = workers w \<and> inners v = inners w"
    then show "does (drop_streams as) v (\<lambda>_ w'. owns w' (R\<lparr>r_streams := (\<lambda>x. r_streams R x - count_list (a # as) x)\<rparr>)
        \<and> contexts w' = contexts w \<and> workers w' = workers w \<and> inners w' = inners w)"
      using rest [of v] unfolding eq by simp
  qed
qed

text \<open>Taking the last strong pointer of a worker: its fields are now owned by the running code.\<close>

lemma worker_release_owned:
  assumes own: "owns w R" and held: "0 < r_workers R a"
  shows "does (on_workers (rc_drop a)) w (\<lambda>last w'.
     contexts w' = contexts w \<and> inners w' = inners w \<and> streams w' = streams w \<and> calls w' = calls w \<and>
     (case last of
        None \<Rightarrow> owns w' (R\<lparr>r_workers := dec a (r_workers R)\<rparr>) \<and> 1 < worker_refs w R a
      | Some v \<Rightarrow> worker_refs w R a = 1 \<and> cells (workers w') a = None \<and>
          owns w' (R\<lparr>r_workers := dec a (r_workers R), r_streams := (\<lambda>x. r_streams R x + count_list (worker_streams v) x),
            r_contexts := inc (w_context v) (r_contexts R)\<rparr>)))"
proof -
  let ?h = "snd (rc_drop a (workers w))"
  have pos: "0 < worker_refs w R a" using held by (simp add: worker_refs_def)
  note run = drop_counted [OF owns_parts(4,3) [OF own] pos]
  let ?v = "val (the (cells (workers w) a))"
  have refs: "(worker_refs w R)(a := worker_refs w R a - 1) = worker_refs (w\<lparr>workers := ?h\<rparr>) R'"
    if "r_workers R' = dec a (r_workers R)" for R'
    using held that by (simp add: fun_eq_iff refs_defs)
  show ?thesis
  proof (cases "worker_refs w R a = 1")
    case True
    let ?R = "R\<lparr>r_workers := dec a (r_workers R), r_streams := (\<lambda>x. r_streams R x + count_list (worker_streams ?v) x),
            r_contexts := inc (w_context ?v) (r_contexts R)\<rparr>"
    have ctx: "context_refs w R = context_refs (w\<lparr>workers := ?h\<rparr>) ?R"
      using True by (simp add: fun_eq_iff refs_defs run(4) [of "\<lambda>v. [w_context v]", symmetric])
    have str: "stream_refs w R = stream_refs (w\<lparr>workers := ?h\<rparr>) ?R"
      using True by (simp add: fun_eq_iff refs_defs run(4) [of worker_streams, symmetric])
    have "owns (w\<lparr>workers := ?h\<rparr>) ?R"
      using own run(2,3) refs [of ?R] ctx str by (simp add: owns_def)
    moreover have "cells ?h a = None"
      using run(2) True by (auto simp: counts_def split: option.splits dest!: spec [of _ a])
    ultimately show ?thesis
      using True by simp (subst does_def, subst run(1), simp)
  next
    case False
    let ?R = "R\<lparr>r_workers := dec a (r_workers R)\<rparr>"
    have "context_refs w R = context_refs (w\<lparr>workers := ?h\<rparr>) ?R" "stream_refs w R = stream_refs (w\<lparr>workers := ?h\<rparr>) ?R"
      using run(4) False by (simp_all add: fun_eq_iff refs_defs)
    then have "owns (w\<lparr>workers := ?h\<rparr>) ?R"
      using own run(2,3) refs [of ?R] by (simp add: owns_def)
    then show ?thesis
      using False pos by simp (subst does_def, subst run(1), simp)
  qed
qed

lemma worker_drop_owned:
  fixes w :: "('u, 'wk, 's, 'c) world" and E :: "('u, 'wk) env"
  assumes own: "owns w R" and held: "0 < r_workers R a"
  shows "does (worker_drop E a) w (\<lambda>_ w'. owns w' (R\<lparr>r_workers := dec a (r_workers R)\<rparr>) \<and> inners w' = inners w)"
  unfolding worker_drop_def does_bind
  using worker_release_owned [OF own held]
proof (rule does_mono)
  fix last and v :: "('u, 'wk, 's, 'c) world"
  let ?R = "R\<lparr>r_workers := dec a (r_workers R)\<rparr>"
  assume v: "contexts v = contexts w \<and> inners v = inners w \<and> streams v = streams w \<and> calls v = calls w \<and>
     (case last of
        None \<Rightarrow> owns v ?R \<and> 1 < worker_refs w R a
      | Some x \<Rightarrow> worker_refs w R a = 1 \<and> cells (workers v) a = None \<and>
          owns v (R\<lparr>r_workers := dec a (r_workers R), r_streams := (\<lambda>y. r_streams R y + count_list (worker_streams x) y),
            r_contexts := inc (w_context x) (r_contexts R)\<rparr>))"
  show "does (case last of None \<Rightarrow> ret ()
       | Some wk \<Rightarrow> bind (ffi E (Ucp_worker_destroy (w_handle wk))) (\<lambda>_.
           bind (context_drop E (w_context wk)) (\<lambda>_. drop_streams (map snd (am_streams wk))))) v
     (\<lambda>_ w'. owns w' ?R \<and> inners w' = inners w)"
  proof (cases last)
    case None
    with v show ?thesis by simp
  next
    case (Some x)
    let ?S = "?R\<lparr>r_streams := (\<lambda>y. r_streams R y + count_list (worker_streams x) y)\<rparr>"
    let ?u = "v\<lparr>lib := snd (ucx E (Ucp_worker_destroy (w_handle x)) (lib v)),
         calls := calls v @ [Ucp_worker_destroy (w_handle x)]\<rparr>"
    have "owns ?u (?S\<lparr>r_contexts := inc (w_context x) (r_contexts R)\<rparr>)"
      using v Some by simp
    from context_drop_owned [OF this, of "w_context x" E]
    have "does (context_drop E (w_context x)) ?u (\<lambda>_ w'. owns w' ?S \<and> inners w' = inners w)"
      by (rule does_mono) (use v in \<open>simp_all\<close>)
    then show ?thesis
      unfolding Some option.case does_bind does_ffi
    proof (rule does_mono)
      fix y and u :: "('u, 'wk, 's, 'c) world"
      assume u: "owns u ?S \<and> inners u = inners w"
      show "does (drop_streams (worker_streams x)) u (\<lambda>_ w'. owns w' ?R \<and> inners w' = inners w)"
        by (rule does_mono [OF drop_streams_owned [of u ?S "worker_streams x"]]) (use u in simp_all)
    qed
  qed
qed

section \<open>Endpoint states\<close>

lemma put_cell_twice [simp]: "put_cell a b' (put_cell a b h) = put_cell a b' h"
  by (simp add: put_cell_def)

lemma endpointsD:
  "endpoints_ok h R \<Longrightarrow> 0 < R a \<Longrightarrow> \<exists>b. cells h a = Some b \<and> strong b = R a
     \<and> weak b = (if closed (val b) then 0 else 1) \<and> (closed (val b) \<longrightarrow> ep_status (val b) \<noteq> UCS_OK)"
  by (auto simp: endpoints_ok_def split: option.splits dest!: spec [of _ a])

lemma endpoints_cell:
  "endpoints_ok h R \<Longrightarrow> cells h a = Some b \<Longrightarrow> strong b = R a \<and> 0 < R a
     \<and> weak b = (if closed (val b) then 0 else 1) \<and> (closed (val b) \<longrightarrow> ep_status (val b) \<noteq> UCS_OK)"
  by (auto simp: endpoints_ok_def split: option.splits dest!: spec [of _ a])

lemma endpoints_None: "endpoints_ok h R \<Longrightarrow> cells h a = None \<Longrightarrow> R a = 0"
  by (auto simp: endpoints_ok_def split: option.splits dest!: spec [of _ a])

lemma endpointsI:
  "(\<And>a. cells h a = None \<Longrightarrow> R a = 0) \<Longrightarrow>
   (\<And>a b. cells h a = Some b \<Longrightarrow> strong b = R a \<and> 0 < R a
     \<and> weak b = (if closed (val b) then 0 else 1) \<and> (closed (val b) \<longrightarrow> ep_status (val b) \<noteq> UCS_OK)) \<Longrightarrow>
   endpoints_ok h R"
  by (simp add: endpoints_ok_def split: option.splits)

lemma endpoints_put:
  assumes "endpoints_ok h R" "0 < strong b" "weak b = (if closed (val b) then 0 else 1)"
    and "closed (val b) \<longrightarrow> ep_status (val b) \<noteq> UCS_OK"
  shows "endpoints_ok (put_cell a b h) (R(a := strong b))"
proof (rule endpointsI)
  fix x assume "cells (put_cell a b h) x = None"
  then show "(R(a := strong b)) x = 0"
    using assms(1,2) endpoints_None by (auto split: if_splits)
next
  fix x c assume c: "cells (put_cell a b h) x = Some c"
  show "strong c = (R(a := strong b)) x \<and> 0 < (R(a := strong b)) x
      \<and> weak c = (if closed (val c) then 0 else 1) \<and> (closed (val c) \<longrightarrow> ep_status (val c) \<noteq> UCS_OK)"
  proof (cases "x = a")
    case True
    with c assms(2-4) show ?thesis by simp
  next
    case False
    with c endpoints_cell [OF assms(1), of x c] show ?thesis by simp
  qed
qed

lemma endpoints_free:
  assumes "endpoints_ok h R" "strong b = 0" "weak b = 0"
  shows "endpoints_ok (put_cell a b h) (R(a := 0))"
proof (rule endpointsI)
  fix x assume "cells (put_cell a b h) x = None"
  then show "(R(a := 0)) x = 0"
    using assms(1) endpoints_None by (cases "x = a") auto
next
  fix x c assume c: "cells (put_cell a b h) x = Some c"
  then have "x \<noteq> a" using assms(2,3) by auto
  with c endpoints_cell [OF assms(1), of x c]
  show "strong c = (R(a := 0)) x \<and> 0 < (R(a := 0)) x
      \<and> weak c = (if closed (val c) then 0 else 1) \<and> (closed (val c) \<longrightarrow> ep_status (val c) \<noteq> UCS_OK)"
    by simp
qed

text \<open>Replacing the endpoint heap by one that refers to the same workers.\<close>

lemma owns_inners:
  assumes "owns w R" "heap_fresh h" "endpoints_ok h Q"
    and "\<And>x. refs_from h (\<lambda>i. [ep_worker i]) x = refs_from (inners w) (\<lambda>i. [ep_worker i]) x"
  shows "owns (w\<lparr>inners := h\<rparr>) (R\<lparr>r_endpoints := Q\<rparr>)"
  using assms by (simp add: owns_def refs_defs [abs_def])

lemma owns_put_inner:
  assumes own: "owns w R" and cell: "cells (inners w) a = Some b" and "0 < strong b'"
    and "weak b' = (if closed (val b') then 0 else 1)" "closed (val b') \<longrightarrow> ep_status (val b') \<noteq> UCS_OK"
    and "ep_worker (val b') = ep_worker (val b)"
  shows "owns (w\<lparr>inners := put_cell a b' (inners w)\<rparr>) (R\<lparr>r_endpoints := (r_endpoints R)(a := strong b')\<rparr>)"
proof (rule owns_inners [OF own])
  show "heap_fresh (put_cell a b' (inners w))"
    using owns_parts(7) [OF own] cell by (rule heap_fresh_cell)
  show "endpoints_ok (put_cell a b' (inners w)) ((r_endpoints R)(a := strong b'))"
    using endpoints_put [OF owns_parts(8) [OF own]] assms(3-5) by blast
  show "refs_from (put_cell a b' (inners w)) (\<lambda>i. [ep_worker i]) x = refs_from (inners w) (\<lambda>i. [ep_worker i]) x" for x
    using refs_from_put_same [OF owns_parts(7) [OF own] cell] assms(3,6) by simp
qed

text \<open>What is known of the state of an endpoint to which a pointer exists.\<close>

lemma owned_inner:
  assumes "owns w R" "0 < r_endpoints R a"
  obtains b where "cells (inners w) a = Some b" "strong b = r_endpoints R a" "0 < strong b"
    "weak b = (if closed (val b) then 0 else 1)" "closed (val b) \<longrightarrow> ep_status (val b) \<noteq> UCS_OK"
    "0 < worker_refs w R (ep_worker (val b))"
proof -
  obtain b where b: "cells (inners w) a = Some b" "strong b = r_endpoints R a"
    "weak b = (if closed (val b) then 0 else 1)" "closed (val b) \<longrightarrow> ep_status (val b) \<noteq> UCS_OK"
    using endpointsD [OF owns_parts(8) [OF assms(1)] assms(2)] by blast
  have "0 < worker_refs w R (ep_worker (val b))"
    using refs_from_pos [OF owns_parts(7) [OF assms(1)] b(1), of "ep_worker (val b)" "\<lambda>i. [ep_worker i]"]
    by (simp add: worker_refs_def)
  with b assms(2) that show ?thesis by simp
qed

lemma on_inners_get:
  "cells (inners w) a = Some b \<Longrightarrow> 0 < strong b \<Longrightarrow> on_inners (rc_get a) w = (Ret (val b), w)"
  by (simp add: on_inners_def rc_on_cell)

lemma inner_reads:
  assumes "cells (inners w) a = Some b" "0 < strong b"
  shows "inner_is_closed a w = (Ret (closed (val b)), w)"
    and "inner_check E a w = (from_status (prof E) (ep_status (val b)), w)"
  using on_inners_get [OF assms]
  by (simp_all add: inner_is_closed_def inner_check_def bind_Ret_eq ret_def lift_def)

lemma inner_set_status_eq:
  assumes "cells (inners w) a = Some b" "0 < strong b"
  shows "inner_set_status a s w = (Ret (),
     if s = UCS_OK then w else w\<lparr>inners := put_cell a (b\<lparr>val := (val b)\<lparr>ep_status := s\<rparr>\<rparr>) (inners w)\<rparr>)"
  using assms by (simp add: inner_set_status_def on_inners_def rc_on_cell ret_def)

text \<open>The state after \<^verbatim>\<open>EndpointInner::closed\<close>.\<close>

definition after_closed :: "EndpointInner rcbox \<Rightarrow> EndpointInner rcbox" where
  "after_closed b = (if closed (val b) then b
     else b\<lparr>val := (val b)\<lparr>closed := True, ep_status := UCS_ERR_CONNECTION_RESET\<rparr>, weak := weak b - 1\<rparr>)"

lemma after_closed_simps [simp]:
  "strong (after_closed b) = strong b" "closed (val (after_closed b))"
  "ep_worker (val (after_closed b)) = ep_worker (val b)" "after_closed (after_closed b) = after_closed b"
  by (simp_all add: after_closed_def)

lemma inner_closed_eq:
  assumes "cells (inners w) a = Some b" "0 < strong b" "weak b = (if closed (val b) then 0 else 1)"
  shows "inner_closed a w = (Ret (), w\<lparr>inners := put_cell a (after_closed b) (inners w)\<rparr>)"
proof (cases "closed (val b)")
  case True
  then have "put_cell a (after_closed b) (inners w) = inners w"
    using assms by (simp add: after_closed_def put_cell_def fun_upd_idem)
  with True show ?thesis
    using on_inners_get [OF assms(1,2)] by (simp add: inner_closed_def bind_Ret_eq ret_def)
next
  case False
  let ?b = "b\<lparr>val := (val b)\<lparr>closed := True\<rparr>\<rparr>"
  let ?w = "w\<lparr>inners := put_cell a ?b (inners w)\<rparr>"
  have "on_inners (rc_update a (\<lambda>i. i\<lparr>closed := True\<rparr>)) w = (Ret (), ?w)"
    using assms(1,2) by (simp add: on_inners_def rc_on_cell)
  moreover have "cells (inners ?w) a = Some ?b" "0 < strong ?b" using assms(2) by simp_all
  ultimately show ?thesis
    using False assms on_inners_get [OF assms(1,2)] inner_set_status_eq [of ?w a ?b UCS_ERR_CONNECTION_RESET]
    by (simp add: inner_closed_def bind_Ret_eq on_inners_def weak_on_cell after_closed_def)
qed

section \<open>Endpoint operations\<close>

text \<open>The other endpoints are left alone.\<close>

abbreviation same_inners_but :: "nat \<Rightarrow> ('u, 'wk, 's, 'c) world \<Rightarrow> ('u, 'wk, 's, 'c) world \<Rightarrow> bool" where
  "same_inners_but a w w' \<equiv> \<forall>x. x \<noteq> a \<longrightarrow> cells (inners w') x = cells (inners w) x"

abbreviation is_closed_at :: "nat \<Rightarrow> ('u, 'wk, 's, 'c) world \<Rightarrow> bool" where
  "is_closed_at a w \<equiv> (\<exists>b. cells (inners w) a = Some b \<and> closed (val b))"

lemma inner_closed_owned:
  assumes own: "owns w R" and held: "0 < r_endpoints R a"
  shows "does (inner_closed a) w (\<lambda>_ w'. owns w' R \<and> is_closed_at a w' \<and> same_inners_but a w w'
     \<and> calls w' = calls w)"
proof -
  from own held obtain b where b: "cells (inners w) a = Some b" "strong b = r_endpoints R a" "0 < strong b"
    "weak b = (if closed (val b) then 0 else 1)" "closed (val b) \<longrightarrow> ep_status (val b) \<noteq> UCS_OK"
    by (rule owned_inner)
  let ?b = "after_closed b"
  have "owns (w\<lparr>inners := put_cell a ?b (inners w)\<rparr>) (R\<lparr>r_endpoints := (r_endpoints R)(a := strong ?b)\<rparr>)"
    using b by (intro owns_put_inner [OF own b(1)]) (auto simp: after_closed_def)
  moreover have "(r_endpoints R)(a := strong ?b) = r_endpoints R"
    using b(2) by simp
  ultimately show ?thesis
    using b by (simp add: does_def inner_closed_eq)
qed

lemma inner_clone_owned:
  assumes own: "owns w R" and held: "0 < r_endpoints R a"
  shows "does (on_inners (rc_clone a)) w (\<lambda>_ w'. owns w' (R\<lparr>r_endpoints := inc a (r_endpoints R)\<rparr>)
     \<and> same_inners_but a w w' \<and> calls w' = calls w \<and> is_closed_at a w' = is_closed_at a w)"
proof -
  from own held obtain b where b: "cells (inners w) a = Some b" "strong b = r_endpoints R a" "0 < strong b"
    "weak b = (if closed (val b) then 0 else 1)" "closed (val b) \<longrightarrow> ep_status (val b) \<noteq> UCS_OK"
    by (rule owned_inner)
  let ?b = "b\<lparr>strong := Suc (strong b)\<rparr>"
  have "owns (w\<lparr>inners := put_cell a ?b (inners w)\<rparr>) (R\<lparr>r_endpoints := (r_endpoints R)(a := strong ?b)\<rparr>)"
    using b by (intro owns_put_inner [OF own b(1)]) auto
  with b show ?thesis
    by (simp add: does_def on_inners_def rc_on_cell)
qed

text \<open>Freeing the state of an endpoint hands its pointer to the worker to the running code.\<close>

lemma inner_free_owned:
  assumes own: "owns w R" and cell: "cells (inners w) a = Some b" and "r_endpoints R a = 1"
    and zero: "strong b' = 0" "weak b' = 0"
  shows "owns (w\<lparr>inners := put_cell a b' (inners w)\<rparr>)
    (R\<lparr>r_endpoints := dec a (r_endpoints R), r_workers := inc (ep_worker (val b)) (r_workers R)\<rparr>)"
    (is "owns ?w ?S")
proof -
  have "worker_refs w R = worker_refs ?w ?S"
    using refs_from_free [OF owns_parts(7) [OF own] cell zero, of "\<lambda>i. [ep_worker i]", symmetric]
    by (simp add: fun_eq_iff refs_defs)
  moreover have "endpoints_ok (inners ?w) (r_endpoints ?S)"
    using endpoints_free [OF owns_parts(8) [OF own] zero, of a] assms(3) by simp
  moreover have "heap_fresh (inners ?w)"
    using heap_fresh_cell [OF owns_parts(7) [OF own] cell] by simp
  ultimately show ?thesis
    using own by (simp add: owns_def context_refs_def [abs_def] stream_refs_def [abs_def])
qed

text \<open>Dropping a strong pointer; the last one must find the endpoint closed.\<close>

lemma inner_drop_owned:
  assumes own: "owns w R" and held: "0 < r_endpoints R a"
    and last: "r_endpoints R a = 1 \<longrightarrow> is_closed_at a w"
  shows "does (inner_drop E a) w (\<lambda>_ w'. owns w' (R\<lparr>r_endpoints := dec a (r_endpoints R)\<rparr>)
     \<and> same_inners_but a w w' \<and> (1 < r_endpoints R a \<longrightarrow> is_closed_at a w' = is_closed_at a w))"
proof -
  from own held obtain b where b: "cells (inners w) a = Some b" "strong b = r_endpoints R a" "0 < strong b"
    "weak b = (if closed (val b) then 0 else 1)" "closed (val b) \<longrightarrow> ep_status (val b) \<noteq> UCS_OK"
    by (rule owned_inner)
  let ?b = "b\<lparr>strong := strong b - 1\<rparr>" and ?R = "R\<lparr>r_endpoints := dec a (r_endpoints R)\<rparr>"
  let ?w = "w\<lparr>inners := put_cell a ?b (inners w)\<rparr>"
  have run: "on_inners (rc_drop a) w = (Ret (if strong b = 1 then Some (val b) else None), ?w)"
    using b by (simp add: on_inners_def rc_on_cell)
  show ?thesis
  proof (cases "strong b = 1")
    case False
    then have "owns ?w (R\<lparr>r_endpoints := (r_endpoints R)(a := strong ?b)\<rparr>)"
      using b by (intro owns_put_inner [OF own b(1)]) auto
    with b False show ?thesis
      by (simp add: inner_drop_def does_def bind_def run ret_def)
  next
    case True
    let ?k = "ep_worker (val b)"
    have "owns ?w (?R\<lparr>r_workers := inc ?k (r_workers R)\<rparr>)"
      using True b last by (intro inner_free_owned [OF own b(1)]) auto
    from worker_drop_owned [OF this, of ?k E]
    have "does (worker_drop E ?k) ?w (\<lambda>_ w'. owns w' ?R \<and> inners w' = inners ?w)" by simp
    then have "does (worker_drop E ?k) ?w (\<lambda>_ w'. owns w' ?R
       \<and> same_inners_but a w w' \<and> (1 < r_endpoints R a \<longrightarrow> is_closed_at a w' = is_closed_at a w))"
      by (rule does_mono) (use True b(2) in auto)
    then show ?thesis
      using True by (simp add: inner_drop_def does_def bind_def run)
  qed
qed

text \<open>\<^verbatim>\<open>Endpoint::clone\<close> and \<^verbatim>\<open>Endpoint::drop\<close>.\<close>

lemma endpoint_clone_owned:
  "owns w R \<Longrightarrow> 0 < r_endpoints R (ep_inner e) \<Longrightarrow>
   does (endpoint_clone e) w (\<lambda>e' w'. e' = e
     \<and> owns w' (R\<lparr>r_endpoints := inc (ep_inner e) (r_endpoints R)\<rparr>) \<and> calls w' = calls w
     \<and> same_inners_but (ep_inner e) w w' \<and> is_closed_at (ep_inner e) w' = is_closed_at (ep_inner e) w)"
  unfolding endpoint_clone_def does_bind
  by (rule does_mono [OF inner_clone_owned]) auto

context ucx_library
begin

lemma does_from_ptr:
  "does (lift (from_ptr p (binds E) (ptr_of (fst (ucx E c u))))) w Q \<longleftrightarrow>
   Q (if UCS_PTR_IS_ERR (binds E) (ptr_of (fst (ucx E c u)))
      then Err (error_of_status (the (decode (binds E) (ucast (ptr_of (fst (ucx E c u)))))))
      else Ok ()) w"
  by (simp add: does_lift from_returned)

lemma endpoint_drop_owned:
  assumes own: "owns w R" and held: "0 < r_endpoints R (ep_inner e)"
  shows "does (endpoint_drop E e) w (\<lambda>_ w'.
     owns w' (R\<lparr>r_endpoints := dec (ep_inner e) (r_endpoints R)\<rparr>) \<and> same_inners_but (ep_inner e) w w'
     \<and> (1 < r_endpoints R (ep_inner e) \<longrightarrow> is_closed_at (ep_inner e) w'))"
proof -
  let ?a = "ep_inner e" and ?c = "Ucp_ep_close_nb (ep_handle e) CLOSE_MODE_FORCE"
  let ?u = "w\<lparr>lib := snd (ucx E ?c (lib w)), calls := calls w @ [?c]\<rparr>"
  from own held obtain b where b: "cells (inners w) ?a = Some b" "0 < strong b"
    by (rule owned_inner)
  let ?first = "if closed (val b) then ret ()
    else bind (ffi E ?c) (\<lambda>r. bind (lift (from_ptr (prof E) (binds E) (ptr_of r))) (\<lambda>_. inner_closed ?a))"
  have "owns ?u R" using own by simp
  from inner_closed_owned [OF this held]
  have first: "does ?first w (\<lambda>_ w'. owns w' R \<and> is_closed_at ?a w' \<and> same_inners_but ?a w w')"
    using own b by (auto simp: does_from_ptr intro: does_mono)
  have "does (bind ?first (\<lambda>_. inner_drop E ?a)) w (\<lambda>_ w'.
     owns w' (R\<lparr>r_endpoints := dec ?a (r_endpoints R)\<rparr>) \<and> same_inners_but ?a w w'
     \<and> (1 < r_endpoints R ?a \<longrightarrow> is_closed_at ?a w'))"
    unfolding does_bind
  proof (rule does_mono [OF first])
    fix x w' assume w': "owns w' R \<and> is_closed_at ?a w' \<and> same_inners_but ?a w w'"
    then show "does (inner_drop E ?a) w' (\<lambda>_ w'.
       owns w' (R\<lparr>r_endpoints := dec ?a (r_endpoints R)\<rparr>) \<and> same_inners_but ?a w w'
       \<and> (1 < r_endpoints R ?a \<longrightarrow> is_closed_at ?a w'))"
      by (intro does_mono [OF inner_drop_owned [of w' R ?a E]]) (use held in auto)
  qed
  then show ?thesis
    unfolding endpoint_drop_def does_def
    by (subst bind_Ret_eq [where m = "inner_is_closed ?a" and w = w]) (rule inner_reads(1) [OF b])
qed

end

section \<open>Creation\<close>

text \<open>A new endpoint state, with the library's weak reference to it.\<close>

lemma inner_new_owned:
  assumes own: "owns w R" and held: "0 < r_workers R k" and "a = next_addr (inners w)"
  shows "owns (w\<lparr>inners := put_cell a \<lparr>strong = 1, weak = 1, val = inner_new k\<rparr> (snd (rc_new (inner_new k) (inners w)))\<rparr>)
    (R\<lparr>r_workers := dec k (r_workers R), r_endpoints := inc a (r_endpoints R)\<rparr>)"
    (is "owns ?w ?S")
proof -
  let ?n = "snd (rc_new (inner_new k) (inners w))"
  have none: "cells (inners w) a = None"
    using owns_parts(7) [OF own] assms(3) by (simp add: heap_fresh_def)
  have cell: "cells ?n a = Some \<lparr>strong = 1, weak = 0, val = inner_new k\<rparr>"
    using assms(3) by (simp add: rc_new_def)
  have zero: "r_endpoints R a = 0"
    using endpoints_None [OF owns_parts(8) [OF own] none] .
  have fresh: "heap_fresh ?n"
    using owns_parts(7) [OF own] by (rule heap_fresh_new)
  have "refs_from (inners ?w) (\<lambda>i. [ep_worker i]) x = refs_from (inners w) (\<lambda>i. [ep_worker i]) x + count_list [k] x" for x
    using refs_from_put_same [OF fresh cell] refs_from_new [OF owns_parts(7) [OF own]]
    by (simp add: inner_new_def)
  then have "worker_refs w R = worker_refs ?w ?S"
    using held by (auto simp: fun_eq_iff refs_defs)
  moreover have "endpoints_ok (inners ?w) (r_endpoints ?S)"
  proof (rule endpointsI)
    fix x assume "cells (inners ?w) x = None"
    then show "r_endpoints ?S x = 0"
      using endpoints_None [OF owns_parts(8) [OF own], of x] assms(3)
      by (auto simp: rc_new_def split: if_splits)
  next
    fix x c assume "cells (inners ?w) x = Some c"
    then show "strong c = r_endpoints ?S x \<and> 0 < r_endpoints ?S x
      \<and> weak c = (if closed (val c) then 0 else 1) \<and> (closed (val c) \<longrightarrow> ep_status (val c) \<noteq> UCS_OK)"
      using endpoints_cell [OF owns_parts(8) [OF own], of x c] zero assms(3)
      by (auto simp: rc_new_def inner_new_def split: if_splits)
  qed
  moreover have "heap_fresh (inners ?w)"
    using heap_fresh_cell [OF fresh cell] by simp
  ultimately show ?thesis
    using own by (simp add: owns_def context_refs_def [abs_def] stream_refs_def [abs_def])
qed

lemma worker_call_eq:
  assumes "owns w R" "0 < worker_refs w R k"
  obtains h where "\<And>E call. worker_call E k call w = ffi E (call h) w"
proof -
  obtain b where "cells (workers w) k = Some b" "strong b = worker_refs w R k"
    using countsD [OF owns_parts(4) [OF assms(1)] assms(2)] by blast
  then have "on_workers (rc_get k) w = (Ret (val b), w)"
    using assms(2) by (simp add: on_workers_def rc_on_cell)
  then have "worker_call E k call w = ffi E (call (w_handle (val b))) w" for E :: "('a, 'b) env" and call
    by (simp add: worker_call_def bind_Ret_eq)
  with that show ?thesis by blast
qed

lemma new_inner_eq:
  "bind (on_inners (rc_new v)) (\<lambda>a. bind (on_inners (rc_downgrade a)) (\<lambda>_. f a)) w =
   f (next_addr (inners w))
     (w\<lparr>inners := put_cell (next_addr (inners w)) \<lparr>strong = 1, weak = 1, val = v\<rparr> (snd (rc_new v (inners w)))\<rparr>)"
  by (simp add: bind_def on_inners_def rc_new_def rc_downgrade_def)

text \<open>The error path of \<^verbatim>\<open>Endpoint::create\<close>: the weak and the strong reference are released.\<close>

lemma abandon_inner_owned:
  assumes own: "owns w R" and cell: "cells (inners w) a = Some \<lparr>strong = 1, weak = 1, val = i\<rparr>"
    and held: "r_endpoints R a = 1"
  shows "does (bind (on_inners (weak_drop a)) (\<lambda>_. inner_drop E a)) w (\<lambda>_ w'.
    owns w' (R\<lparr>r_endpoints := dec a (r_endpoints R)\<rparr>) \<and> cells (inners w') a = None \<and> same_inners_but a w w')"
proof -
  let ?b = "\<lparr>strong = 0, weak = 0, val = i\<rparr>" and ?c = "\<lparr>strong = 1, weak = 0, val = i\<rparr>"
  let ?u = "w\<lparr>inners := put_cell a ?c (inners w)\<rparr>" and ?v = "w\<lparr>inners := put_cell a ?b (inners w)\<rparr>"
  have u: "on_inners (weak_drop a) w = (Ret (), ?u)"
    using cell by (simp add: on_inners_def weak_on_cell)
  have v: "on_inners (rc_drop a) ?u = (Ret (Some i), ?v)"
    by (simp add: on_inners_def rc_drop_def del: One_nat_def)
  have "owns ?v (R\<lparr>r_endpoints := dec a (r_endpoints R), r_workers := inc (ep_worker i) (r_workers R)\<rparr>)"
    using inner_free_owned [OF own cell held, of ?b] by simp
  from worker_drop_owned [OF this, of "ep_worker i" E]
  have "does (worker_drop E (ep_worker i)) ?v (\<lambda>_ w'. owns w' (R\<lparr>r_endpoints := dec a (r_endpoints R)\<rparr>)
      \<and> cells (inners w') a = None \<and> same_inners_but a w w')"
    by (simp add: does_def) force
  then show ?thesis
    by (simp add: inner_drop_def does_def bind_def u v del: One_nat_def)
qed

text \<open>What the library's answer to \<^verbatim>\<open>ucp_ep_create\<close> makes of the new shared state \<open>a\<close>.\<close>

context ucx_library
begin

lemma create_answered_owned:
  assumes own: "owns t (R\<lparr>r_endpoints := inc a (r_endpoints R)\<rparr>)" and one: "r_endpoints R a = 0"
    and cell: "cells (inners t) a = Some \<lparr>strong = 1, weak = 1, val = v\<rparr>" and r: "r = fst (ucx E (Ucp_ep_create h p) u)"
    and same: "same_inners_but a w t"
  shows "does (bind (lift (from_status (prof E) (status_of r))) (\<lambda>res. case res of
       Inl err \<Rightarrow> bind (on_inners (weak_drop a)) (\<lambda>_. bind (inner_drop E a) (\<lambda>_. ret (Err err)))
     | Inr _ \<Rightarrow> bind (lift (assume_init (out_word r))) (\<lambda>h. ret (Ok \<lparr>ep_handle = h, ep_inner = a\<rparr>)))) t
    (\<lambda>res w'. same_inners_but a w w' \<and> (case res of
       Inl _ \<Rightarrow> owns w' R \<and> cells (inners w') a = None
     | Inr e \<Rightarrow> ep_inner e = a \<and> owns w' (R\<lparr>r_endpoints := inc (ep_inner e) (r_endpoints R)\<rparr>)
         \<and> cells (inners w') (ep_inner e) = Some \<lparr>strong = 1, weak = 1, val = v\<rparr>))" (is "does _ t ?Q")
proof (cases "status_of r = UCS_OK")
  case True
  with r obtain z where "out_word r = Some z" using written(1) by blast
  with True own cell same show ?thesis by simp
next
  case False
  have "does (bind (bind (on_inners (weak_drop a)) (\<lambda>_. inner_drop E a)) (\<lambda>_. ret (Err err))) t ?Q" for err
    unfolding does_bind [of _ "\<lambda>_. ret (Err err)"]
    by (rule does_mono [OF abandon_inner_owned [OF own cell]]) (use one same in \<open>simp_all add: fun_upd_idem\<close>)
  with False show ?thesis by (simp add: bind_assoc del: does_bind does_on)
qed

lemma endpoint_create_owned:
  fixes w :: "('u, 'wk, 's, 'c) world"
  assumes own: "owns w R" and held: "0 < worker_refs w R k"
  shows "does (endpoint_create E k params) w (\<lambda>res w'.
    same_inners_but (next_addr (inners w)) w w' \<and>
    (case res of
       Inl _ \<Rightarrow> owns w' R \<and> cells (inners w') (next_addr (inners w)) = None
     | Inr e \<Rightarrow> ep_inner e = next_addr (inners w)
         \<and> owns w' (R\<lparr>r_endpoints := inc (ep_inner e) (r_endpoints R)\<rparr>)
         \<and> cells (inners w') (ep_inner e) = Some \<lparr>strong = 1, weak = 1, val = inner_new k\<rparr>))"
  unfolding endpoint_create_def does_bind [of "worker_clone k"]
proof (rule does_mono [OF worker_clone_owned [OF own held]], goal_cases)
  case (1 x v)
  let ?a = "next_addr (inners w)" and ?S = "R\<lparr>r_workers := inc k (r_workers R)\<rparr>"
  let ?T = "R\<lparr>r_endpoints := inc ?a (r_endpoints R)\<rparr>" and ?b = "\<lparr>strong = 1, weak = 1, val = inner_new k\<rparr>"
  let ?u = "v\<lparr>inners := put_cell ?a ?b (snd (rc_new (inner_new k) (inners v)))\<rparr>"
  have u: "owns ?u ?T" "cells (inners ?u) ?a = Some ?b" "same_inners_but ?a w ?u"
    using inner_new_owned [of v ?S k ?a] 1 by (simp_all add: rc_new_def)
  have none: "r_endpoints R ?a = 0"
    using endpoints_None [OF owns_parts(8) [OF own]] owns_parts(7) [OF own] by (simp add: heap_fresh_def)
  have "0 < worker_refs ?u ?T k"
    using refs_from_pos [OF owns_parts(7) [OF u(1)] u(2), of k "\<lambda>i. [ep_worker i]"]
    by (simp add: worker_refs_def inner_new_def)
  then obtain h where call: "\<And>E call. worker_call (E :: ('u, 'wk) env) k call ?u = ffi E (call h) ?u"
    by (rule worker_call_eq [OF u(1)]) blast
  let ?p = "params\<lparr>field_mask := field_mask params
    OR (num (binds E) UCP_EP_PARAM_FIELD_USER_DATA OR num (binds E) UCP_EP_PARAM_FIELD_ERR_HANDLER), user_data := ?a\<rparr>"
  let ?c = "Ucp_ep_create h ?p" and ?r = "fst (ucx E (Ucp_ep_create h ?p) (lib ?u))"
  let ?t = "?u\<lparr>lib := snd (ucx E ?c (lib ?u)), calls := calls ?u @ [?c]\<rparr>"
  have "ffi E ?c ?u = (Ret ?r, ?t)"
    by (simp add: ffi_def split: prod.split)
  then have step: "bind (worker_call E k (\<lambda>h. Ucp_ep_create h ?p)) f ?u = f ?r ?t" for f
    by (intro bind_Ret_eq) (simp only: call)
  have t: "owns ?t ?T" "cells (inners ?t) ?a = Some ?b" "same_inners_but ?a w ?t"
    using u by simp_all
  have "next_addr (inners v) = ?a" using 1 by simp
  with create_answered_owned [OF t(1) none t(2) refl t(3), of h ?p "lib ?u"] show ?case
    unfolding does_def [of _ v] does_def [of _ ?t] new_inner_eq by (simp only: step)
qed

end

text \<open>Contexts and workers.\<close>

lemma context_alloc_owned:
  assumes own: "owns w R" and "a = next_addr (contexts w)"
  shows "owns (w\<lparr>contexts := snd (rc_new v (contexts w))\<rparr>) (R\<lparr>r_contexts := inc a (r_contexts R)\<rparr>)"
    (is "owns ?w ?S")
proof -
  have "cells (contexts w) a = None"
    using owns_parts(1) [OF own] assms(2) by (simp add: heap_fresh_def)
  then have "context_refs w R a = 0"
    using counts_None [OF owns_parts(2) [OF own]] by blast
  then have "(context_refs w R)(a := 1) = context_refs ?w ?S"
    by (auto simp: fun_eq_iff refs_defs)
  with counts_new [OF owns_parts(2,1) [OF own], of v] heap_fresh_new [OF owns_parts(1) [OF own], of v] own assms(2)
  show ?thesis
    by (simp add: owns_def worker_refs_def [abs_def] stream_refs_def [abs_def])
qed

lemma worker_alloc_owned:
  assumes own: "owns w R" and a: "a = next_addr (workers w)" and held: "0 < r_contexts R (w_context v)"
    and "am_streams v = []"
  shows "owns (w\<lparr>workers := snd (rc_new v (workers w))\<rparr>)
    (R\<lparr>r_contexts := dec (w_context v) (r_contexts R), r_workers := inc a (r_workers R)\<rparr>)"
    (is "owns ?w ?S")
proof -
  note fresh = owns_parts(3) [OF own]
  have "cells (workers w) a = None"
    using fresh a by (simp add: heap_fresh_def)
  then have "worker_refs w R a = 0"
    using counts_None [OF owns_parts(4) [OF own]] by blast
  then have "(worker_refs w R)(a := 1) = worker_refs ?w ?S"
    by (auto simp: fun_eq_iff refs_defs)
  moreover have "context_refs w R = context_refs ?w ?S" "stream_refs w R = stream_refs ?w ?S"
    using refs_from_new [OF fresh, of v] held assms(4) by (auto simp: fun_eq_iff refs_defs)
  ultimately show ?thesis
    using counts_new [OF owns_parts(4) [OF own] fresh, of v] heap_fresh_new [OF fresh, of v] own a
    by (simp add: owns_def)
qed

lemma does_rc_get: "cells h a = Some b \<Longrightarrow> 0 < strong b \<Longrightarrow> does (rc_get a) h Q \<longleftrightarrow> Q (val b) h"
  by (simp add: does_def rc_on_cell)

context ucx_library
begin

lemma context_new_owned:
  fixes w :: "('u, 'wk, 's, 'c) world"
  assumes own: "owns w R"
  shows "does (context_new_with_config E am cfg) w (\<lambda>res w'.
    inners w' = inners w \<and> workers w' = workers w \<and>
    (case res of Inl _ \<Rightarrow> owns w' R | Inr a \<Rightarrow> owns w' (R\<lparr>r_contexts := inc a (r_contexts R)\<rparr>)))"
proof -
  let ?c = "Ucp_init_version (num (binds E) UCP_API_MAJOR) (num (binds E) UCP_API_MINOR)
                    (context_params (binds E) am) cfg"
  let ?r = "fst (ucx E ?c (lib w))" and ?u = "w\<lparr>lib := snd (ucx E ?c (lib w)), calls := calls w @ [?c]\<rparr>"
  have u: "owns ?u R" using own by simp
  show ?thesis
  proof (cases "status_of ?r = UCS_OK")
    case True
    with written(1) obtain h where "out_word ?r = Some h" by blast
    moreover have "does (on_contexts (rc_new \<lparr>c_handle = h\<rparr>)) ?u (\<lambda>a w'. inners w' = inners w \<and> workers w' = workers w
        \<and> owns w' (R\<lparr>r_contexts := inc a (r_contexts R)\<rparr>))"
      using context_alloc_owned [OF u refl, of "\<lparr>c_handle = h\<rparr>"] by (simp add: does_def rc_new_def on_contexts_def)
    ultimately show ?thesis
      using True by (simp add: context_new_with_config_def)
  next
    case False
    with u show ?thesis by (simp add: context_new_with_config_def)
  qed
qed

lemma worker_new_owned:
  fixes w :: "('u, 'wk, 's, 'c) world"
  assumes own: "owns w R" and held: "0 < context_refs w R c"
  shows "does (worker_new E c) w (\<lambda>res w'. inners w' = inners w \<and>
    (case res of Inl _ \<Rightarrow> owns w' R | Inr a \<Rightarrow> owns w' (R\<lparr>r_workers := inc a (r_workers R)\<rparr>)))"
proof -
  obtain b where b: "cells (contexts w) c = Some b" "0 < strong b"
    using countsD [OF owns_parts(2) [OF own] held] held by auto
  let ?c = "Ucp_worker_create (c_handle (val b)) (num (binds E) UCP_WORKER_PARAM_FIELD_THREAD_MODE)
                    (num (binds E) UCS_THREAD_MODE_SINGLE)"
  let ?r = "fst (ucx E ?c (lib w))" and ?u = "w\<lparr>lib := snd (ucx E ?c (lib w)), calls := calls w @ [?c]\<rparr>"
  have u: "owns ?u R" and held': "0 < context_refs ?u R c"
    using own held by (simp_all add: context_refs_def)
  show ?thesis
  proof (cases "status_of ?r = UCS_OK")
    case True
    with written(1) obtain h where h: "out_word ?r = Some h" by blast
    let ?v = "\<lparr>w_handle = h, w_context = c, am_streams = []\<rparr>"
    let ?tail = "bind (context_clone c) (\<lambda>_. on_workers (rc_new ?v))"
    have "does ?tail ?u (\<lambda>a w'. inners w' = inners w \<and> owns w' (R\<lparr>r_workers := inc a (r_workers R)\<rparr>))"
      unfolding does_bind
    proof (rule does_mono [OF context_clone_owned [OF u held']])
      fix x and y :: "('u, 'wk, 's, 'c) world"
      let ?S = "R\<lparr>r_contexts := inc c (r_contexts R)\<rparr>"
      assume y: "owns y ?S \<and> workers y = workers ?u \<and> inners y = inners ?u \<and> streams y = streams ?u"
      with worker_alloc_owned [of y ?S "next_addr (workers y)" ?v]
      show "does (on_workers (rc_new ?v)) y (\<lambda>a w'. inners w' = inners w \<and> owns w' (R\<lparr>r_workers := inc a (r_workers R)\<rparr>))"
        by (simp add: does_def rc_new_def on_workers_def)
    qed
    then show ?thesis
      using True h by (simp add: worker_new_def does_rc_get [OF b])
  next
    case False
    with u show ?thesis
      by (simp add: worker_new_def does_rc_get [OF b])
  qed
qed

text \<open>
  The error handler of an endpoint that is not closed records the status and touches nothing
  else: the branch that closes by force is not taken.
\<close>

lemma err_handler_eq:
  assumes own: "owns w R" and cell: "cells (inners w) a = Some b" and "\<not> closed (val b)"
  shows "err_handler E a ep s w = (Ret (),
    w\<lparr>inners := put_cell a (if s = UCS_OK then b else b\<lparr>val := (val b)\<lparr>ep_status := s\<rparr>\<rparr>) (inners w)\<rparr>)"
proof -
  let ?b1 = "b\<lparr>strong := Suc (strong b)\<rparr>"
  let ?b2 = "if s = UCS_OK then ?b1 else ?b1\<lparr>val := (val b)\<lparr>ep_status := s\<rparr>\<rparr>"
  let ?w1 = "w\<lparr>inners := put_cell a ?b1 (inners w)\<rparr>" and ?w2 = "w\<lparr>inners := put_cell a ?b2 (inners w)\<rparr>"
  have b: "0 < strong b" "weak b = 1"
    using endpoints_cell [OF owns_parts(8) [OF own] cell] assms(3) by auto
  have "on_inners (weak_upgrade a) w = (Ret True, ?w1)"
    using cell b by (simp add: on_inners_def weak_on_cell)
  moreover have "inner_set_status a s ?w1 = (Ret (), ?w2)"
    using b by (simp add: inner_set_status_eq [where b = ?b1])
  moreover have "inner_drop E a ?w2 = (Ret (), w\<lparr>inners := put_cell a (if s = UCS_OK then b else b\<lparr>val := (val b)\<lparr>ep_status := s\<rparr>\<rparr>) (inners w)\<rparr>)"
    using b by (simp add: inner_drop_def bind_def on_inners_def rc_drop_def ret_def)
  ultimately show ?thesis
    by (simp add: err_handler_def bind_def)
qed

lemma err_handler_owned:
  assumes own: "owns w R" and cell: "cells (inners w) a = Some b" and "\<not> closed (val b)"
  shows "does (err_handler E a ep s) w (\<lambda>_ w'. owns w' R \<and> same_inners_but a w w' \<and> calls w' = calls w
     \<and> is_closed_at a w' = is_closed_at a w)"
proof -
  let ?b = "if s = UCS_OK then b else b\<lparr>val := (val b)\<lparr>ep_status := s\<rparr>\<rparr>"
  have b: "0 < strong b" "weak b = 1" "strong b = r_endpoints R a"
    using endpoints_cell [OF owns_parts(8) [OF own] cell] assms(3) by auto
  then have "owns (w\<lparr>inners := put_cell a ?b (inners w)\<rparr>) (R\<lparr>r_endpoints := (r_endpoints R)(a := strong ?b)\<rparr>)"
    using assms(3) by (intro owns_put_inner [OF own cell]) auto
  moreover have "(r_endpoints R)(a := strong ?b) = r_endpoints R"
    using b(3) by (auto simp: fun_eq_iff)
  ultimately show ?thesis
    using err_handler_eq [OF own cell assms(3), of ep s] b assms(3) cell by (auto simp: does_def)
qed

end

end
