(* ===== verification/Lifecycle.thy ===== *)
theory Lifecycle
  imports Ownership
begin

text \<open>
  The life of contexts, workers and endpoints as a state machine: the user's variables, the
  futures of \<^verbatim>\<open>close\<close> that are under way, and every operation on them as one atomic step. Any
  interleaving of the operations, of the closing futures and of the library's error callbacks is
  a list of steps.
\<close>

section \<open>Closing in steps\<close>

text \<open>
  \<^verbatim>\<open>close\<close> up to its first suspension, and one round of its loop; \<open>Finished\<close> carries the result of
  the future, \<open>Closing\<close> the request it waits for.
\<close>

datatype close_state = Finished "(unit, Error) result" | Closing handle

definition close_start ::
  "('u, 'wk) env \<Rightarrow> Endpoint \<Rightarrow> bool \<Rightarrow> (('u, 'wk, 's, 'c) world, close_state) prog" where
  "close_start E e force =
     bind (if force then endpoint_is_closed e else ret False) (\<lambda>is_closed.
       if is_closed then ret (Finished (Ok ()))
       else
         bind (if \<not> force then get_status E e else ret (Ok ())) (\<lambda>status. case status of
             Inl err \<Rightarrow> ret (Finished (Err err))
           | Inr _ \<Rightarrow>
               bind (ffi E (Ucp_ep_close_nb (ep_handle e) (if force then CLOSE_MODE_FORCE else CLOSE_MODE_FLUSH))) (\<lambda>r.
                 on_status_ptr E (ptr_of r)
                   (bind (inner_closed (ep_inner e)) (\<lambda>_. ret (Finished (Ok ()))))
                   (ret (Closing (ptr_of r)))
                   (bind (lift (UCS_PTR_RAW_STATUS (binds E) (ptr_of r))) (\<lambda>status.
                      bind (lift (from_status (prof E) status)) (\<lambda>result. ret (Finished result)))))))"

definition close_round ::
  "('u, 'wk) env \<Rightarrow> Endpoint \<Rightarrow> handle \<Rightarrow> (('u, 'wk, 's, 'c) world, close_state) prog" where
  "close_round E e ptr =
     bind (poll_normal E ptr) (\<lambda>r. case r of
         Pending \<Rightarrow> ret (Closing ptr)
       | Ready result \<Rightarrow>
           bind (request_drop E ptr) (\<lambda>_. case result of
               Inr _ \<Rightarrow> bind (inner_closed (ep_inner e)) (\<lambda>_. ret (Finished result))
             | Inl _ \<Rightarrow> ret (Finished result)))"

fun close_rounds ::
  "('u, 'wk) env \<Rightarrow> (('u, 'wk, 's, 'c) world \<Rightarrow> ('u, 'wk, 's, 'c) world) \<Rightarrow> Endpoint \<Rightarrow> handle \<Rightarrow> nat \<Rightarrow>
   (('u, 'wk, 's, 'c) world, (unit, Error) result) prog" where
  "close_rounds E others e ptr 0 = lift Unfinished"
| "close_rounds E others e ptr (Suc n) =
     bind (close_round E e ptr) (\<lambda>s. case s of
         Finished result \<Rightarrow> ret result
       | Closing _ \<Rightarrow> bind (modify others) (\<lambda>_. close_rounds E others e ptr n))"

lemma close_loop_rounds:
  "bind (close_loop E others ptr n) (\<lambda>result. case result of
       Inr _ \<Rightarrow> bind (inner_closed (ep_inner e)) (\<lambda>_. ret result)
     | Inl _ \<Rightarrow> ret result) = close_rounds E others e ptr n"
proof (induction n)
  case 0
  then show ?case by (simp add: bind_def lift_def fun_eq_iff)
next
  case (Suc n)
  show ?case
    unfolding close_loop.simps close_rounds.simps close_round_def bind_assoc
  proof (rule arg_cong [where f = "bind (poll_normal E ptr)"], rule ext)
    fix r :: "(unit, Error) result poll"
    show "bind (case r of Ready result \<Rightarrow> bind (request_drop E ptr) (\<lambda>_. ret result)
            | Pending \<Rightarrow> bind (modify others) (\<lambda>_. close_loop E others ptr n))
          (\<lambda>result. case result of Inl x \<Rightarrow> ret result
            | Inr x \<Rightarrow> bind (inner_closed (ep_inner e)) (\<lambda>_. ret result)) =
        bind (case r of Ready result \<Rightarrow> bind (request_drop E ptr)
              (\<lambda>_. case result of Inl x \<Rightarrow> ret (Finished result)
                | Inr x \<Rightarrow> bind (inner_closed (ep_inner e)) (\<lambda>_. ret (Finished result)))
            | Pending \<Rightarrow> ret (Closing ptr))
          (\<lambda>s. case s of Finished result \<Rightarrow> ret result
            | Closing x \<Rightarrow> bind (modify others) (\<lambda>_. close_rounds E others e ptr n))"
      by (simp add: Suc.IH [symmetric] bind_assoc split: poll.split sum.split)
  qed
qed

lemma bind_case_sum: "bind (case s of Inl e \<Rightarrow> f e | Inr x \<Rightarrow> g x) k =
   (case s of Inl e \<Rightarrow> bind (f e) k | Inr x \<Rightarrow> bind (g x) k)"
  by (cases s) simp_all

lemma bind_on_status_ptr:
  "bind (on_status_ptr E ptr a b c) k = on_status_ptr E ptr (bind a k) (bind b k) (bind c k)"
  by (simp add: on_status_ptr_def bind_assoc fun_eq_iff bind_def split: outcome.split prod.split)

lemma endpoint_close_eq:
  "endpoint_close E X e force =
     bind (close_start E e force) (\<lambda>s. case s of
         Finished result \<Rightarrow> ret result
       | Closing ptr \<Rightarrow> close_rounds E (x_others X) e ptr (x_polls X))"
proof -
  let ?k = "\<lambda>s. case s of Finished result \<Rightarrow> ret result
       | Closing ptr \<Rightarrow> close_rounds E (x_others X) e ptr (x_polls X)"
  have last: "bind (lift (UCS_PTR_RAW_STATUS (binds E) ptr)) (\<lambda>status. lift (from_status (prof E) status)) =
     bind (lift (UCS_PTR_RAW_STATUS (binds E) ptr))
       (\<lambda>status. bind (lift (from_status (prof E) status)) ret)" for ptr
    by (simp add: bind_def lift_def ret_def fun_eq_iff split: outcome.split)
  show ?thesis
    unfolding endpoint_close_def close_start_def bind_assoc try_bind_def
    by (intro arg_cong2 [where f = bind] refl ext)
      (simp add: bind_assoc bind_on_status_ptr bind_case_sum close_loop_rounds last)
qed

section \<open>The steps keep ownership\<close>

lemma does_from_status [simp]:
  "does (lift (from_status p s)) w Q \<longleftrightarrow> Q (if s = UCS_OK then Ok () else Err (error_of_status s)) w"
  by (cases "s = UCS_OK") simp_all

lemma does_query [simp]: "does (query E c) w Q \<longleftrightarrow> Q (fst (ucx E c (lib w))) w"
  by (simp add: does_def query_def)

lemma does_inner_get:
  "cells (inners w) a = Some b \<Longrightarrow> 0 < strong b \<Longrightarrow> does (on_inners (rc_get a)) w Q \<longleftrightarrow> Q (val b) w"
  by (simp add: does_def on_inners_get)

context ucx_library
begin

lemma does_on_status_ptr:
  "does (on_status_ptr E ptr a b c) w Q \<longleftrightarrow>
     (if ptr = 0 then does a w Q
      else if UCS_PTR_IS_ERR (binds E) ptr then does c w Q else does b w Q)"
  using trichotomy [of ptr "prof E"] by (simp add: on_status_ptr_def)

lemma returned_code:
  assumes "UCS_PTR_IS_ERR (binds E) (ptr_of (fst (ucx E c u)))"
  obtains s where "decode (binds E) (ucast (ptr_of (fst (ucx E c u)))) = Some s"
    "UCS_PTR_RAW_STATUS (binds E) (ptr_of (fst (ucx E c u))) = Ret s" "s \<noteq> UCS_OK"
proof -
  obtain s where "decode (binds E) (ucast (ptr_of (fst (ucx E c u)))) = Some s"
    using pointers assms unfolding valid_pointers_def by blast
  moreover from this have "UCS_PTR_RAW_STATUS (binds E) (ptr_of (fst (ucx E c u))) = Ret s"
    by (simp add: UCS_PTR_RAW_STATUS_def)
  ultimately show ?thesis using raw_status_not_ok [OF assms] that by blast
qed

lemma does_raw_status:
  "UCS_PTR_IS_ERR (binds E) (ptr_of (fst (ucx E c u))) \<Longrightarrow>
   does (lift (UCS_PTR_RAW_STATUS (binds E) (ptr_of (fst (ucx E c u))))) w Q \<longleftrightarrow>
     Q (the (decode (binds E) (ucast (ptr_of (fst (ucx E c u)))))) w"
  by (erule returned_code) simp

lemma raw_status_error:
  "UCS_PTR_IS_ERR (binds E) (ptr_of (fst (ucx E c u))) \<Longrightarrow>
   the (decode (binds E) (ucast (ptr_of (fst (ucx E c u))))) \<noteq> UCS_OK"
  by (erule returned_code) simp

lemma close_start_owned:
  fixes w :: "('u, 'wk, 's, 'c) world"
  assumes own: "owns w R" and held: "0 < r_endpoints R (ep_inner e)"
  shows "does (close_start E e force) w (\<lambda>s w'. owns w' R \<and> same_inners_but (ep_inner e) w w'
     \<and> (s = Finished (Ok ()) \<longrightarrow> is_closed_at (ep_inner e) w')
     \<and> (is_closed_at (ep_inner e) w \<longrightarrow> is_closed_at (ep_inner e) w' \<and> calls w' = calls w))"
proof -
  let ?a = "ep_inner e"
  let ?c = "Ucp_ep_close_nb (ep_handle e) (if force then CLOSE_MODE_FORCE else CLOSE_MODE_FLUSH)"
  let ?u = "w\<lparr>lib := snd (ucx E ?c (lib w)), calls := calls w @ [?c]\<rparr>"
  from own held obtain b where b: "cells (inners w) ?a = Some b" "0 < strong b"
    "closed (val b) \<longrightarrow> ep_status (val b) \<noteq> UCS_OK"
    by (rule owned_inner)
  have "owns ?u R" using own by simp
  note closing = inner_closed_owned [OF this held]
  have closing': "does (inner_closed ?a) ?u (\<lambda>_ w'. owns w' R \<and> is_closed_at ?a w' \<and> same_inners_but ?a w w')"
    by (rule does_mono [OF closing]) simp
  show ?thesis
  proof (cases force)
    case True
    then show ?thesis
      using b own closing' by (auto simp: close_start_def endpoint_is_closed_def inner_is_closed_def
        does_inner_get [OF b(1,2)] does_on_status_ptr does_raw_status raw_status_error simp del: does_on(3)
        intro: does_mono)
  next
    case False
    then show ?thesis
      using b own closing' by (auto simp: close_start_def get_status_def inner_check_def
        does_inner_get [OF b(1,2)] does_on_status_ptr does_raw_status raw_status_error simp del: does_on(3)
        intro: does_mono)
  qed
qed

lemma close_round_owned:
  fixes w :: "('u, 'wk, 's, 'c) world"
  assumes own: "owns w R" and held: "0 < r_endpoints R (ep_inner e)"
  shows "does (close_round E e ptr) w (\<lambda>s w'. owns w' R \<and> same_inners_but (ep_inner e) w w'
     \<and> (s = Finished (Ok ()) \<longrightarrow> is_closed_at (ep_inner e) w')
     \<and> (is_closed_at (ep_inner e) w \<longrightarrow> is_closed_at (ep_inner e) w')
     \<and> (case s of Finished _ \<Rightarrow> frees ptr w' = Suc (frees ptr w) | Closing p \<Rightarrow> p = ptr \<and> w' = w))"
proof -
  let ?a = "ep_inner e" and ?c = "Ucp_request_free ptr"
  let ?u = "w\<lparr>lib := snd (ucx E ?c (lib w)), calls := calls w @ [?c]\<rparr>"
  have "owns ?u R" using own by simp
  from inner_closed_owned [OF this held]
  have "does (inner_closed ?a) ?u (\<lambda>_ w'. owns w' R \<and> is_closed_at ?a w' \<and> same_inners_but ?a w w'
     \<and> calls w' = calls w @ [?c])"
    by (rule does_mono) simp
  then show ?thesis
    using own by (auto simp: close_round_def poll_normal_def request_drop_def intro: does_mono)
qed

end

section \<open>The machine\<close>

record ('u, 'wk, 's, 'c) sys =
  mem :: "('u, 'wk, 's, 'c) world"
  context_vars :: "nat list"
  worker_vars :: "nat list"
  endpoint_vars :: "Endpoint list"
  closers :: "(Endpoint \<times> handle) list"

datatype action =
    New_context bool handle
  | Clone_context nat
  | Drop_context nat
  | New_worker nat
  | Clone_worker nat
  | Drop_worker nat
  | New_endpoint nat ep_params
  | Clone_endpoint Endpoint
  | Drop_endpoint Endpoint
  | Peer_error nat handle ucs_status_t
  | Close Endpoint bool
  | Poll_close Endpoint handle
  | Cancel_close Endpoint handle

definition in_mem :: "(('u, 'wk, 's, 'c) world, 'a) prog \<Rightarrow> (('u, 'wk, 's, 'c) sys, 'a) prog" where
  "in_mem m s = (case m (mem s) of (r, w) \<Rightarrow> (r, s\<lparr>mem := w\<rparr>))"

definition note_close :: "Endpoint \<Rightarrow> close_state \<Rightarrow> (('u, 'wk, 's, 'c) sys, unit) prog" where
  "note_close e c = modify (\<lambda>s. case c of
       Finished _ \<Rightarrow> s
     | Closing ptr \<Rightarrow> s\<lparr>closers := (e, ptr) # closers s\<rparr>)"

text \<open>What each action runs, and how the variables change.\<close>

fun exec :: "('u, 'wk) env \<Rightarrow> action \<Rightarrow> (('u, 'wk, 's, 'c) sys, unit) prog" where
  "exec E (New_context am cfg) =
     bind (in_mem (context_new_with_config E am cfg)) (\<lambda>res.
       modify (\<lambda>s. case res of Inl _ \<Rightarrow> s | Inr a \<Rightarrow> s\<lparr>context_vars := a # context_vars s\<rparr>))"
| "exec E (Clone_context a) =
     bind (in_mem (context_clone a)) (\<lambda>_. modify (\<lambda>s. s\<lparr>context_vars := a # context_vars s\<rparr>))"
| "exec E (Drop_context a) =
     bind (in_mem (context_drop E a)) (\<lambda>_. modify (\<lambda>s. s\<lparr>context_vars := remove1 a (context_vars s)\<rparr>))"
| "exec E (New_worker c) =
     bind (in_mem (worker_new E c)) (\<lambda>res.
       modify (\<lambda>s. case res of Inl _ \<Rightarrow> s | Inr a \<Rightarrow> s\<lparr>worker_vars := a # worker_vars s\<rparr>))"
| "exec E (Clone_worker a) =
     bind (in_mem (worker_clone a)) (\<lambda>_. modify (\<lambda>s. s\<lparr>worker_vars := a # worker_vars s\<rparr>))"
| "exec E (Drop_worker a) =
     bind (in_mem (worker_drop E a)) (\<lambda>_. modify (\<lambda>s. s\<lparr>worker_vars := remove1 a (worker_vars s)\<rparr>))"
| "exec E (New_endpoint k params) =
     bind (in_mem (endpoint_create E k params)) (\<lambda>res.
       modify (\<lambda>s. case res of Inl _ \<Rightarrow> s | Inr e \<Rightarrow> s\<lparr>endpoint_vars := e # endpoint_vars s\<rparr>))"
| "exec E (Clone_endpoint e) =
     bind (in_mem (endpoint_clone e)) (\<lambda>e'. modify (\<lambda>s. s\<lparr>endpoint_vars := e' # endpoint_vars s\<rparr>))"
| "exec E (Drop_endpoint e) =
     bind (in_mem (endpoint_drop E e)) (\<lambda>_. modify (\<lambda>s. s\<lparr>endpoint_vars := remove1 e (endpoint_vars s)\<rparr>))"
| "exec E (Peer_error a h status) = in_mem (err_handler E a h status)"
| "exec E (Close e force) = bind (in_mem (close_start E e force)) (note_close e)"
| "exec E (Poll_close e ptr) =
     bind (modify (\<lambda>s. s\<lparr>closers := remove1 (e, ptr) (closers s)\<rparr>)) (\<lambda>_.
     bind (in_mem (close_round E e ptr)) (note_close e))"
| "exec E (Cancel_close e ptr) = modify (\<lambda>s. s\<lparr>closers := remove1 (e, ptr) (closers s)\<rparr>)"

text \<open>
  What can happen when: an operation needs a variable to be called on; a variable that a closing
  future borrows is not dropped (the borrow checker's guarantee); the library reports errors on
  endpoints that are not closed, with the user data it was given.
\<close>

fun enabled :: "action \<Rightarrow> ('u, 'wk, 's, 'c) sys \<Rightarrow> bool" where
  "enabled (New_context am cfg) s = True"
| "enabled (Clone_context a) s = (a \<in> set (context_vars s))"
| "enabled (Drop_context a) s = (a \<in> set (context_vars s))"
| "enabled (New_worker c) s = (c \<in> set (context_vars s))"
| "enabled (Clone_worker a) s = (a \<in> set (worker_vars s))"
| "enabled (Drop_worker a) s = (a \<in> set (worker_vars s))"
| "enabled (New_endpoint k params) s = (k \<in> set (worker_vars s))"
| "enabled (Clone_endpoint e) s = (e \<in> set (endpoint_vars s))"
| "enabled (Drop_endpoint e) s = (e \<in> set (endpoint_vars s)
     \<and> (e \<in> fst ` set (closers s) \<longrightarrow> e \<in> set (remove1 e (endpoint_vars s))))"
| "enabled (Peer_error a h status) s = (case cells (inners (mem s)) a of
       Some b \<Rightarrow> \<not> closed (val b) | None \<Rightarrow> False)"
| "enabled (Close e force) s = (e \<in> set (endpoint_vars s))"
| "enabled (Poll_close e ptr) s = ((e, ptr) \<in> set (closers s))"
| "enabled (Cancel_close e ptr) s = ((e, ptr) \<in> set (closers s))"

definition empty_sys :: "'u \<Rightarrow> ('u, 'wk, 's, 'c) sys" where
  "empty_sys u = \<lparr>mem = \<lparr>lib = u, calls = [], reqs = Map.empty, scheduled = [], contexts = empty_heap,
     workers = empty_heap, inners = empty_heap, streams = empty_heap, channels = empty_heap\<rparr>,
     context_vars = [], worker_vars = [], endpoint_vars = [], closers = []\<rparr>"

inductive reachable :: "('u, 'wk) env \<Rightarrow> ('u, 'wk, 's, 'c) sys \<Rightarrow> bool" for E where
  start: "reachable E (empty_sys u)"
| step: "reachable E s \<Longrightarrow> enabled act s \<Longrightarrow> exec E act s = (r, s') \<Longrightarrow> reachable E s'"

section \<open>The invariant\<close>

definition refs_of :: "('u, 'wk, 's, 'c) sys \<Rightarrow> refs" where
  "refs_of s = \<lparr>r_contexts = count_list (context_vars s), r_workers = count_list (worker_vars s),
     r_endpoints = count_list (map ep_inner (endpoint_vars s)), r_streams = (\<lambda>_. 0)\<rparr>"

definition sys_inv :: "('u, 'wk, 's, 'c) sys \<Rightarrow> bool" where
  "sys_inv s \<longleftrightarrow> owns (mem s) (refs_of s) \<and> fst ` set (closers s) \<subseteq> set (endpoint_vars s)"

text \<open>
  The same with references that are held by values outside this machine: \<open>X\<close> counts them. The steps
  are shown to keep this invariant, so that a larger machine can contain this one.
\<close>

definition tally :: "nat list \<Rightarrow> (nat \<Rightarrow> nat) \<Rightarrow> nat \<Rightarrow> nat" where
  "tally xs f a = count_list xs a + f a"

definition refs_with :: "refs \<Rightarrow> ('u, 'wk, 's, 'c) sys \<Rightarrow> refs" where
  "refs_with X s = \<lparr>r_contexts = tally (context_vars s) (r_contexts X), r_workers = tally (worker_vars s) (r_workers X),
     r_endpoints = tally (map ep_inner (endpoint_vars s)) (r_endpoints X), r_streams = r_streams X\<rparr>"

definition sys_inv_with :: "refs \<Rightarrow> ('u, 'wk, 's, 'c) sys \<Rightarrow> bool" where
  "sys_inv_with X s \<longleftrightarrow> owns (mem s) (refs_with X s) \<and> fst ` set (closers s) \<subseteq> set (endpoint_vars s)"

definition no_refs :: refs where
  "no_refs = \<lparr>r_contexts = (\<lambda>_. 0), r_workers = (\<lambda>_. 0), r_endpoints = (\<lambda>_. 0), r_streams = (\<lambda>_. 0)\<rparr>"

lemma does_in_mem [simp]: "does (in_mem m) s Q \<longleftrightarrow> does m (mem s) (\<lambda>x w. Q x (s\<lparr>mem := w\<rparr>))"
  by (auto simp: does_def in_mem_def split: prod.splits)

lemma tally_none: "tally xs (\<lambda>_. 0) = count_list xs"
  by (simp add: tally_def fun_eq_iff)

lemma tally_Cons: "tally (x # xs) f = inc x (tally xs f)"
  by (simp add: tally_def fun_eq_iff)

lemma count_list_pos: "x \<in> set xs \<Longrightarrow> 0 < count_list xs x"
  using count_list_0_iff [of xs x] by simp

lemma count_map_remove1:
  "e \<in> set es \<Longrightarrow> count_list (map f (remove1 e es)) = dec (f e) (count_list (map f es))"
  by (induction es) (auto simp: fun_eq_iff count_list_0_iff intro!: Suc_pred count_list_pos)

lemma tally_map_remove1: "e \<in> set es \<Longrightarrow> tally (map g (remove1 e es)) f = dec (g e) (tally (map g es) f)"
  using count_list_pos [of "g e" "map g es"] by (simp add: tally_def fun_eq_iff count_map_remove1)

lemma tally_remove1: "x \<in> set xs \<Longrightarrow> tally (remove1 x xs) f = dec x (tally xs f)"
  using tally_map_remove1 [of x xs "\<lambda>x. x" f] by simp

lemma tally_pos: "x \<in> set xs \<Longrightarrow> 0 < tally xs f x"
  using count_list_0_iff [of xs x] by (simp add: tally_def)

lemma refs_of_simps:
  "r_contexts (refs_of s) = count_list (context_vars s)"
  "r_workers (refs_of s) = count_list (worker_vars s)"
  "r_endpoints (refs_of s) = count_list (map ep_inner (endpoint_vars s))"
  by (simp_all add: refs_of_def)

lemma refs_with_simps:
  "r_contexts (refs_with X s) = tally (context_vars s) (r_contexts X)"
  "r_workers (refs_with X s) = tally (worker_vars s) (r_workers X)"
  "r_endpoints (refs_with X s) = tally (map ep_inner (endpoint_vars s)) (r_endpoints X)"
  "r_streams (refs_with X s) = r_streams X"
  by (simp_all add: refs_with_def)

lemma refs_with_updates:
  "refs_with X (s\<lparr>mem := w\<rparr>) = refs_with X s" "refs_with X (s\<lparr>closers := cs\<rparr>) = refs_with X s"
  "refs_with X (s\<lparr>context_vars := xs\<rparr>) = (refs_with X s)\<lparr>r_contexts := tally xs (r_contexts X)\<rparr>"
  "refs_with X (s\<lparr>worker_vars := xs\<rparr>) = (refs_with X s)\<lparr>r_workers := tally xs (r_workers X)\<rparr>"
  "refs_with X (s\<lparr>endpoint_vars := es\<rparr>) = (refs_with X s)\<lparr>r_endpoints := tally (map ep_inner es) (r_endpoints X)\<rparr>"
  by (simp_all add: refs_with_def)

lemma sys_inv_with_none: "sys_inv_with no_refs s = sys_inv s"
  by (simp add: sys_inv_with_def sys_inv_def refs_with_def refs_of_def no_refs_def tally_none)

lemmas step_simps = sys_inv_with_def refs_with_simps refs_with_updates tally_Cons tally_remove1 tally_map_remove1

lemma held_by_vars:
  "c \<in> set (context_vars s) \<Longrightarrow> 0 < r_contexts (refs_with X s) c"
  "k \<in> set (worker_vars s) \<Longrightarrow> 0 < r_workers (refs_with X s) k"
  "e \<in> set (endpoint_vars s) \<Longrightarrow> 0 < r_endpoints (refs_with X s) (ep_inner e)"
  by (simp_all add: refs_with_simps tally_pos)

lemma endpoint_held: "e \<in> set (endpoint_vars s) \<Longrightarrow> 0 < r_endpoints (refs_of s) (ep_inner e)"
  using count_list_0_iff [of "map ep_inner (endpoint_vars s)" "ep_inner e"] by (simp add: refs_of_simps)

lemma empty_sys_inv: "sys_inv (empty_sys u)"
  by (simp add: sys_inv_def empty_sys_def refs_of_def owns_def heap_fresh_def empty_heap_def counts_def
      endpoints_ok_def refs_from_def refs_defs)

context ucx_library
begin

text \<open>Every enabled action returns, and keeps the invariant.\<close>

lemma exec_context:
  assumes inv: "sys_inv_with X s"
  shows "does (exec E (New_context am cfg)) s (\<lambda>_. sys_inv_with X)"
    and "c \<in> set (context_vars s) \<Longrightarrow> does (exec E (Clone_context c)) s (\<lambda>_. sys_inv_with X)"
    and "c \<in> set (context_vars s) \<Longrightarrow> does (exec E (Drop_context c)) s (\<lambda>_. sys_inv_with X)"
    and "c \<in> set (context_vars s) \<Longrightarrow> does (exec E (New_worker c)) s (\<lambda>_. sys_inv_with X)"
proof -
  have own: "owns (mem s) (refs_with X s)" using inv by (simp add: sys_inv_with_def)
  show "does (exec E (New_context am cfg)) s (\<lambda>_. sys_inv_with X)"
    using inv by (auto simp: step_simps split: sum.splits
        intro!: does_mono [OF context_new_owned [OF own]])
  assume c: "c \<in> set (context_vars s)"
  have held: "0 < r_contexts (refs_with X s) c" "0 < context_refs (mem s) (refs_with X s) c"
    using held_by_vars(1) [OF c, of X] by (simp_all add: context_refs_def)
  show "does (exec E (Clone_context c)) s (\<lambda>_. sys_inv_with X)"
    using inv by (auto simp: step_simps
        intro!: does_mono [OF context_clone_owned [OF own held(2)]])
  show "does (exec E (Drop_context c)) s (\<lambda>_. sys_inv_with X)"
    using inv c by (auto simp: step_simps
        intro!: does_mono [OF context_drop_owned [OF own held(1)]])
  show "does (exec E (New_worker c)) s (\<lambda>_. sys_inv_with X)"
    using inv by (auto simp: step_simps split: sum.splits
        intro!: does_mono [OF worker_new_owned [OF own held(2)]])
qed

lemma exec_worker:
  assumes inv: "sys_inv_with X s" and k: "k \<in> set (worker_vars s)"
  shows "does (exec E (Clone_worker k)) s (\<lambda>_. sys_inv_with X)"
    and "does (exec E (Drop_worker k)) s (\<lambda>_. sys_inv_with X)"
    and "does (exec E (New_endpoint k params)) s (\<lambda>_. sys_inv_with X)"
proof -
  have own: "owns (mem s) (refs_with X s)" using inv by (simp add: sys_inv_with_def)
  have held: "0 < r_workers (refs_with X s) k" "0 < worker_refs (mem s) (refs_with X s) k"
    using held_by_vars(2) [OF k, of X] by (simp_all add: worker_refs_def)
  show "does (exec E (Clone_worker k)) s (\<lambda>_. sys_inv_with X)"
    using inv by (auto simp: step_simps
        intro!: does_mono [OF worker_clone_owned [OF own held(2)]])
  show "does (exec E (Drop_worker k)) s (\<lambda>_. sys_inv_with X)"
    using inv k by (auto simp: step_simps
        intro!: does_mono [OF worker_drop_owned [OF own held(1)]])
  show "does (exec E (New_endpoint k params)) s (\<lambda>_. sys_inv_with X)"
    using inv by (auto simp: step_simps split: sum.splits
        intro!: does_mono [OF endpoint_create_owned [OF own held(2)]])
qed

lemma exec_endpoint:
  assumes inv: "sys_inv_with X s" and e: "e \<in> set (endpoint_vars s)"
  shows "does (exec E (Clone_endpoint e)) s (\<lambda>_. sys_inv_with X)"
    and "(e \<in> fst ` set (closers s) \<longrightarrow> e \<in> set (remove1 e (endpoint_vars s))) \<Longrightarrow>
      does (exec E (Drop_endpoint e)) s (\<lambda>_. sys_inv_with X)"
    and "does (exec E (Close e force)) s (\<lambda>_. sys_inv_with X)"
proof -
  have own: "owns (mem s) (refs_with X s)" and closers: "fst ` set (closers s) \<subseteq> set (endpoint_vars s)"
    using inv by (simp_all add: sys_inv_with_def)
  note held = held_by_vars(3) [OF e, of X]
  show "does (exec E (Clone_endpoint e)) s (\<lambda>_. sys_inv_with X)"
    using inv by (auto simp: step_simps
        intro!: does_mono [OF endpoint_clone_owned [OF own held]])
  show "does (exec E (Close e force)) s (\<lambda>_. sys_inv_with X)"
    using inv e by (auto simp: step_simps note_close_def split: close_state.split
        intro!: does_mono [OF close_start_owned [OF own held]])
  assume borrowed: "e \<in> fst ` set (closers s) \<longrightarrow> e \<in> set (remove1 e (endpoint_vars s))"
  have "fst ` set (closers s) \<subseteq> set (remove1 e (endpoint_vars s))"
  proof
    fix x assume "x \<in> fst ` set (closers s)"
    then show "x \<in> set (remove1 e (endpoint_vars s))"
      using closers borrowed by (cases "x = e") auto
  qed
  then show "does (exec E (Drop_endpoint e)) s (\<lambda>_. sys_inv_with X)"
    using e by (simp add: step_simps)
      (rule does_mono [OF endpoint_drop_owned [OF own held]], simp add: refs_with_simps)
qed

lemma exec_inv:
  assumes inv: "sys_inv_with X s" and "enabled act s"
  shows "does (exec E act) s (\<lambda>_. sys_inv_with X)"
  using assms(2)
proof (cases act)
  case (Peer_error a h status)
  then obtain b where "cells (inners (mem s)) a = Some b" "\<not> closed (val b)"
    using assms(2) by (auto split: option.splits)
  moreover have "owns (mem s) (refs_with X s)" using inv by (simp add: sys_inv_with_def)
  ultimately show ?thesis
    using inv Peer_error by (auto simp: step_simps intro: does_mono [OF err_handler_owned])
next
  case (Poll_close e ptr)
  then have e: "e \<in> set (endpoint_vars s)" and closers: "fst ` set (closers s) \<subseteq> set (endpoint_vars s)"
    using assms by (force simp: sys_inv_with_def)+
  have own: "owns (mem s) (refs_with X s)" using inv by (simp add: sys_inv_with_def)
  have "fst ` set (remove1 x (closers s)) \<subseteq> set (endpoint_vars s)" for x
    using closers set_remove1_subset [of x "closers s"] by blast
  then show ?thesis
    using e own Poll_close by (auto simp: step_simps note_close_def split: close_state.split
        intro!: does_mono [OF close_round_owned [OF own held_by_vars(3) [OF e, of X]]])
next
  case (Cancel_close e ptr)
  have "fst ` set (remove1 x (closers s)) \<subseteq> set (endpoint_vars s)" for x
    using inv set_remove1_subset [of x "closers s"] by (force simp: sys_inv_with_def)
  then show ?thesis
    using inv Cancel_close by (simp add: step_simps)
next
  case (Drop_endpoint e)
  then have "e \<in> set (endpoint_vars s)"
    "e \<in> fst ` set (closers s) \<longrightarrow> e \<in> set (remove1 e (endpoint_vars s))"
    using assms(2) by simp_all
  from exec_endpoint(2) [OF inv this] Drop_endpoint show ?thesis by simp
qed (use inv exec_context exec_worker exec_endpoint(1,3) in \<open>simp_all del: exec.simps\<close>)

lemma reachable_inv: "reachable E s \<Longrightarrow> sys_inv s"
proof (induction rule: reachable.induct)
  case (start u)
  show ?case by (rule empty_sys_inv)
next
  case (step s act r s')
  then show ?case
    using exec_inv [of no_refs s act] by (auto simp: does_def sys_inv_with_none)
qed

end

section \<open>Every handle is destroyed once\<close>

text \<open>
  A predicate on worlds that every run of a program keeps, whatever it returns. The balance:
  workers destroyed and workers alive add up to the workers ever created, and likewise contexts.
\<close>

definition keeps :: "('w \<Rightarrow> bool) \<Rightarrow> ('w, 'a) prog \<Rightarrow> bool" where
  "keeps P m \<longleftrightarrow> (\<forall>w. P w \<longrightarrow> P (snd (m w)))"

lemma keepsD: "keeps P m \<Longrightarrow> P w \<Longrightarrow> P (snd (m w))"
  by (simp add: keeps_def)

lemma keeps_bind [intro]: "keeps P m \<Longrightarrow> (\<And>x. keeps P (f x)) \<Longrightarrow> keeps P (bind m f)"
  by (auto simp: keeps_def bind_def split: prod.splits outcome.splits)

lemma keeps_try_bind [intro]: "keeps P m \<Longrightarrow> (\<And>x. keeps P (f x)) \<Longrightarrow> keeps P (try_bind m f)"
  unfolding try_bind_def by (rule keeps_bind) (auto simp: keeps_def split: sum.split)

lemma keeps_basic [simp]: "keeps P (ret x)" "keeps P (lift r)" "keeps P (query E c)"
  by (simp_all add: keeps_def ret_def lift_def query_def)

fun is_destroy :: "ffi_call \<Rightarrow> bool" where
  "is_destroy (Ucp_worker_destroy h) = True"
| "is_destroy _ = False"

fun is_cleanup :: "ffi_call \<Rightarrow> bool" where
  "is_cleanup (Ucp_cleanup h) = True"
| "is_cleanup _ = False"

fun is_free :: "ffi_call \<Rightarrow> bool" where
  "is_free (Ucp_request_free p) = True"
| "is_free _ = False"

definition destroys :: "('u, 'wk, 's, 'c) world \<Rightarrow> nat" where
  "destroys w = length (filter is_destroy (calls w))"

definition cleanups :: "('u, 'wk, 's, 'c) world \<Rightarrow> nat" where
  "cleanups w = length (filter is_cleanup (calls w))"

definition no_weak :: "'a heap \<Rightarrow> bool" where
  "no_weak h \<longleftrightarrow> (\<forall>a b. cells h a = Some b \<longrightarrow> weak b = 0)"

definition balanced :: "('u, 'wk, 's, 'c) world \<Rightarrow> bool" where
  "balanced w \<longleftrightarrow> heap_fresh (workers w) \<and> heap_fresh (contexts w)
     \<and> no_weak (workers w) \<and> no_weak (contexts w)
     \<and> destroys w + card (dom (cells (workers w))) = next_addr (workers w)
     \<and> cleanups w + card (dom (cells (contexts w))) = next_addr (contexts w)"

lemma keeps_balanced_frame [simp]:
  "keeps balanced (on_inners m1)" "keeps balanced (on_streams m2)" "keeps balanced (on_channels m3)"
  "\<not> is_destroy c \<Longrightarrow> \<not> is_cleanup c \<Longrightarrow> keeps balanced (ffi E c)"
  by (simp_all add: keeps_def balanced_def destroys_def cleanups_def on_defs ffi_def split: prod.split)

lemma dom_put_live: "cells h a = Some b \<Longrightarrow> 0 < strong b' \<Longrightarrow> dom (cells (put_cell a b' h)) = dom (cells h)"
  by auto

lemma card_new: "heap_fresh h \<Longrightarrow> card (dom (cells (snd (rc_new v h)))) = Suc (card (dom (cells h)))"
  using heap_fresh_finite [of h] by (auto simp: rc_new_def heap_fresh_def card_insert_if)

lemma card_free:
  assumes "heap_fresh h" "cells h a = Some b" "strong b' = 0" "weak b' = 0"
  shows "Suc (card (dom (cells (put_cell a b' h)))) = card (dom (cells h))"
proof -
  have "dom (cells (put_cell a b' h)) = dom (cells h) - {a}" using assms(3,4) by auto
  moreover have "a \<in> dom (cells h)" using assms(2) by blast
  ultimately show ?thesis
    using card_Suc_Diff1 [OF heap_fresh_finite [OF assms(1)]] by metis
qed

lemma snd_on:
  "snd (on_workers m1 w) = w\<lparr>workers := snd (m1 (workers w))\<rparr>"
  "snd (on_contexts m2 w) = w\<lparr>contexts := snd (m2 (contexts w))\<rparr>"
  by (simp_all add: on_defs split: prod.split)

lemma next_addr_new [simp]: "next_addr (snd (rc_new v h)) = Suc (next_addr h)"
  by (simp add: rc_new_def)

text \<open>An operation that neither allocates nor frees.\<close>

definition same_alloc :: "('a heap, 'b) prog \<Rightarrow> bool" where
  "same_alloc m \<longleftrightarrow> (\<forall>h. next_addr (snd (m h)) = next_addr h \<and> dom (cells (snd (m h))) = dom (cells h)
     \<and> (no_weak h \<longrightarrow> no_weak (snd (m h))))"

lemma same_alloc_rc [simp]:
  "same_alloc (rc_clone a)" "same_alloc (rc_get a)" "same_alloc (rc_update a f)"
  by (auto simp: same_alloc_def rc_defs put_cell_def no_weak_def split: option.splits)

lemma same_alloc_fresh: "same_alloc m \<Longrightarrow> heap_fresh h \<Longrightarrow> heap_fresh (snd (m h))"
  unfolding heap_fresh_def same_alloc_def by (metis domIff)

lemma no_weak_new [simp]: "no_weak h \<Longrightarrow> no_weak (snd (rc_new v h))"
  by (simp add: no_weak_def rc_new_def)

lemma keeps_balanced_heap [simp]:
  "same_alloc m1 \<Longrightarrow> keeps balanced (on_workers m1)" "same_alloc m2 \<Longrightarrow> keeps balanced (on_contexts m2)"
  "keeps balanced (on_workers (rc_new v))" "keeps balanced (on_contexts (rc_new c))"
proof -
  show "same_alloc m1 \<Longrightarrow> keeps balanced (on_workers m1)" "same_alloc m2 \<Longrightarrow> keeps balanced (on_contexts m2)"
    by (simp_all add: keeps_def balanced_def snd_on same_alloc_fresh destroys_def cleanups_def)
      (simp_all add: same_alloc_def)
  show "keeps balanced (on_workers (rc_new v))" "keeps balanced (on_contexts (rc_new c))"
    by (simp_all add: keeps_def balanced_def snd_on card_new heap_fresh_new destroys_def cleanups_def)
qed

text \<open>Dropping the last owner frees the allocation and makes the one call that destroys the handle.\<close>

lemma rc_drop_alloc:
  assumes fresh: "heap_fresh h" and "no_weak h"
  shows "next_addr (snd (rc_drop a h)) = next_addr h" "heap_fresh (snd (rc_drop a h))" "no_weak (snd (rc_drop a h))"
    and "case fst (rc_drop a h) of
       Ret (Some v) \<Rightarrow> Suc (card (dom (cells (snd (rc_drop a h))))) = card (dom (cells h))
     | _ \<Rightarrow> card (dom (cells (snd (rc_drop a h)))) = card (dom (cells h))"
proof -
  have shared: "card (dom (cells (put_cell a b' h))) = card (dom (cells h))" if "cells h a = Some b" "0 < strong b'" for b b'
    using dom_put_live [of h a b b'] that by simp
  show "next_addr (snd (rc_drop a h)) = next_addr h" "heap_fresh (snd (rc_drop a h))"
    using heap_fresh_cell [OF fresh] fresh by (simp_all add: rc_drop_def split: option.split)
  show "no_weak (snd (rc_drop a h))"
    using assms(2) by (auto simp: rc_drop_def no_weak_def put_cell_def split: option.split if_splits)
  show "case fst (rc_drop a h) of
       Ret (Some v) \<Rightarrow> Suc (card (dom (cells (snd (rc_drop a h))))) = card (dom (cells h))
     | _ \<Rightarrow> card (dom (cells (snd (rc_drop a h)))) = card (dom (cells h))"
    using assms(2) card_free [OF fresh] shared
    by (auto simp: rc_drop_def no_weak_def simp del: put_cell_simps split: option.split)
qed

lemma keeps_balanced_context_drop [simp]:
  "keeps balanced (context_drop E c :: (('u, 'wk, 's, 'c) world, unit) prog)"
  unfolding keeps_def
proof (intro allI impI)
    fix w :: "('u, 'wk, 's, 'c) world" assume w: "balanced w"
    then have h: "heap_fresh (contexts w)" "no_weak (contexts w)" by (simp_all add: balanced_def)
    obtain r h' where run: "rc_drop c (contexts w) = (r, h')" by fastforce
    show "balanced (snd (context_drop E c w))"
      using w rc_drop_alloc [OF h, of c]
      by (auto simp: context_drop_def bind_def on_contexts_def run balanced_def destroys_def cleanups_def
          ffi_def ret_def split: outcome.splits option.splits prod.splits)
qed

lemma keeps_balanced_drop_streams [simp]: "keeps balanced (drop_streams as)"
  by (induction as) (auto intro!: keeps_bind)

lemma keeps_balanced_worker_drop [simp]:
  "keeps balanced (worker_drop E k :: (('u, 'wk, 's, 'c) world, unit) prog)"
  unfolding keeps_def
proof (intro allI impI)
    fix w :: "('u, 'wk, 's, 'c) world" assume w: "balanced w"
    then have h: "heap_fresh (workers w)" "no_weak (workers w)" by (simp_all add: balanced_def)
    obtain r h' where run: "rc_drop k (workers w) = (r, h')" by fastforce
    show "balanced (snd (worker_drop E k w))"
    proof (cases "\<exists>v. r = Ret (Some v)")
      case False
      then show ?thesis
        using w rc_drop_alloc [OF h, of k]
        by (auto simp: worker_drop_def bind_def on_workers_def run balanced_def destroys_def cleanups_def
            ret_def split: outcome.splits option.splits)
    next
      case True
      then obtain v where v: "r = Ret (Some v)" by blast
      let ?c = "Ucp_worker_destroy (w_handle v)"
      let ?u = "w\<lparr>workers := h', lib := snd (ucx E ?c (lib w)), calls := calls w @ [?c]\<rparr>"
      have "balanced ?u"
        using w rc_drop_alloc [OF h, of k] by (simp add: run v balanced_def destroys_def cleanups_def)
      moreover have "keeps balanced (bind (context_drop E (w_context v)) (\<lambda>_. drop_streams (worker_streams v)) ::
          (('u, 'wk, 's, 'c) world, unit) prog)"
        by (intro keeps_bind) simp_all
      moreover have "worker_drop E k w = bind (context_drop E (w_context v)) (\<lambda>_. drop_streams (worker_streams v)) ?u"
        by (simp add: worker_drop_def bind_def [of "on_workers _"] on_workers_def run v ffi_def
            bind_def [of "ffi E _"] split: prod.split)
      ultimately show ?thesis by (simp add: keeps_def)
    qed
qed

lemma keeps_in_mem: "keeps P m \<Longrightarrow> keeps (\<lambda>s. P (mem s)) (in_mem m)"
  by (auto simp: keeps_def in_mem_def split: prod.splits)

lemma keeps_modify: "(\<And>s. mem (f s) = mem s) \<Longrightarrow> keeps (\<lambda>s. P (mem s)) (modify f)"
  by (simp add: keeps_def modify_def)

text \<open>
  What a predicate on worlds needs so that the actions of the machine keep it: the accesses of
  the operations keep it, and so do the two drops that end in a call which destroys a handle.
  \<open>freeing_frame\<close> adds the releases of requests, which polling a closing future makes.
\<close>

definition plain_call :: "ffi_call \<Rightarrow> bool" where
  "plain_call c \<longleftrightarrow> \<not> is_destroy c \<and> \<not> is_cleanup c \<and> \<not> is_free c"

lemma plain_calls [simp]:
  "is_destroy c \<or> is_cleanup c \<or> is_free c \<Longrightarrow> \<not> plain_call c"
  "\<not> is_destroy c \<Longrightarrow> \<not> is_cleanup c \<Longrightarrow> \<not> is_free c \<Longrightarrow> plain_call c"
  by (auto simp: plain_call_def)

locale world_frame =
  fixes E :: "('u, 'wk) env" and P :: "('u, 'wk, 's, 'c) world \<Rightarrow> bool"
  assumes inners_frame: "P w \<Longrightarrow> P (w\<lparr>inners := h\<rparr>)"
    and call_frame: "P w \<Longrightarrow> plain_call c \<Longrightarrow> P (w\<lparr>lib := u, calls := calls w @ [c]\<rparr>)"
    and new_context_frame: "P w \<Longrightarrow> P (w\<lparr>contexts := snd (rc_new x (contexts w))\<rparr>)"
    and clone_context_frame: "P w \<Longrightarrow> P (w\<lparr>contexts := snd (rc_clone a (contexts w))\<rparr>)"
    and new_worker_frame: "P w \<Longrightarrow> am_streams v = [] \<Longrightarrow> P (w\<lparr>workers := snd (rc_new v (workers w))\<rparr>)"
    and clone_worker_frame: "P w \<Longrightarrow> P (w\<lparr>workers := snd (rc_clone a (workers w))\<rparr>)"
    and context_drop_kept: "keeps P (context_drop E a)"
    and worker_drop_kept: "keeps P (worker_drop E a)"
begin

lemma primitives_kept [simp]:
  "keeps P (on_inners m)" "plain_call c \<Longrightarrow> keeps P (ffi E c)"
  "keeps P (on_contexts (rc_new x))" "keeps P (on_contexts (rc_clone a))" "keeps P (on_contexts (rc_get a))"
  "am_streams v = [] \<Longrightarrow> keeps P (on_workers (rc_new v))" "keeps P (on_workers (rc_clone a))"
  "keeps P (on_workers (rc_get a))"
proof -
  have get: "snd (rc_get a h) = h" for a and h :: "'x heap"
    by (simp add: rc_get_def split: option.split)
  show "keeps P (on_contexts (rc_get a))" "keeps P (on_workers (rc_get a))"
    by (simp_all add: keeps_def snd_on get)
qed (simp_all add: keeps_def snd_on inners_frame call_frame new_context_frame clone_context_frame new_worker_frame
    clone_worker_frame on_inners_def ffi_def split: prod.split)

lemma calls_kept [simp]: "(\<And>h. plain_call (call h)) \<Longrightarrow> keeps P (worker_call E k call)"
  by (auto simp: worker_call_def intro!: keeps_bind)

lemma inner_kept [simp]:
  "keeps P (inner_closed a)" "keeps P (inner_drop E a)" "keeps P (inner_is_closed a)"
  "keeps P (inner_check E a)" "keeps P (inner_set_status a st)"
  by (auto simp: inner_closed_def inner_drop_def inner_is_closed_def inner_check_def inner_set_status_def
      worker_drop_kept intro!: keeps_bind split: option.split)

lemma operations_kept [simp]:
  "keeps P (context_new_with_config E am cfg)" "keeps P (context_clone c)" "keeps P (context_drop E c)"
  "keeps P (worker_new E c)" "keeps P (worker_clone k)" "keeps P (worker_drop E k)"
  "keeps P (endpoint_create E k params)" "keeps P (endpoint_clone e)"
  "keeps P (endpoint_drop E e)" "keeps P (err_handler E a h st)"
  "keeps P (close_start E e force)"
  by (auto simp: context_new_with_config_def context_clone_def worker_new_def worker_clone_def
      endpoint_create_def endpoint_clone_def endpoint_drop_def err_handler_def close_start_def
      on_status_ptr_def endpoint_is_closed_def get_status_def context_drop_kept worker_drop_kept
      intro!: keeps_bind keeps_try_bind split: sum.split)

lemma exec_kept: "(\<And>e ptr. act \<noteq> Poll_close e ptr) \<Longrightarrow> keeps (\<lambda>s. P (mem s)) (exec E act)"
  by (cases act) (auto simp: note_close_def intro!: keeps_bind keeps_in_mem keeps_modify
      split: sum.split close_state.split)

end

locale freeing_frame = world_frame +
  assumes free_frame: "P w \<Longrightarrow> P (w\<lparr>lib := u, calls := calls w @ [Ucp_request_free p]\<rparr>)"
begin

lemma request_drop_kept [simp]: "keeps P (request_drop E p)"
  by (auto simp: request_drop_def keeps_def bind_def ffi_def ret_def free_frame split: prod.split)

lemma close_round_kept [simp]: "keeps P (close_round E e ptr)"
  by (auto simp: close_round_def poll_normal_def intro!: keeps_bind split: sum.split poll.split)

lemma every_exec_kept: "keeps (\<lambda>s. P (mem s)) (exec E act)"
proof (cases "\<exists>e ptr. act = Poll_close e ptr")
  case True
  then show ?thesis
    by (auto simp: note_close_def intro!: keeps_bind keeps_in_mem keeps_modify split: close_state.split)
next
  case False
  then show ?thesis by (auto intro: exec_kept)
qed

end

interpretation balance: freeing_frame E "balanced :: ('u, 'wk, 's, 'c) world \<Rightarrow> bool" for E :: "('u, 'wk) env"
proof
  fix w :: "('u, 'wk, 's, 'c) world" and a assume w: "balanced w"
  show "balanced (w\<lparr>contexts := snd (rc_clone a (contexts w))\<rparr>)"
    using keepsD [OF keeps_balanced_heap(2) [OF same_alloc_rc(1)] w] by (simp add: snd_on)
  show "balanced (w\<lparr>workers := snd (rc_clone a (workers w))\<rparr>)"
    using keepsD [OF keeps_balanced_heap(1) [OF same_alloc_rc(1)] w] by (simp add: snd_on)
next
  fix w :: "('u, 'wk, 's, 'c) world" and x v assume w: "balanced w"
  show "balanced (w\<lparr>contexts := snd (rc_new x (contexts w))\<rparr>)"
    using keepsD [OF keeps_balanced_heap(4) w] by (simp add: snd_on)
  show "balanced (w\<lparr>workers := snd (rc_new v (workers w))\<rparr>)"
    using keepsD [OF keeps_balanced_heap(3) w] by (simp add: snd_on)
qed (simp_all add: balanced_def destroys_def cleanups_def plain_call_def)

lemma reachable_balanced: "reachable E s \<Longrightarrow> balanced (mem s)"
proof (induction rule: reachable.induct)
  case (start u)
  show ?case by (simp add: empty_sys_def balanced_def empty_heap_def heap_fresh_def no_weak_def
      destroys_def cleanups_def)
next
  case (step s act r s')
  then show ?case
    using balance.every_exec_kept [of E act] by (auto simp: keeps_def dest!: spec [of _ s])
qed

lemma counts_empty: "counts h R \<Longrightarrow> (\<And>a. R a = 0) \<Longrightarrow> cells h = Map.empty"
  by (rule ext) (metis counts_cell less_numeral_extra(3) option.exhaust)

lemma refs_from_empty: "cells h = Map.empty \<Longrightarrow> refs_from h f a = 0"
  by (simp add: refs_from_def)

lemma owns_nothing:
  assumes "owns w R" "\<And>a. r_contexts R a = 0" "\<And>a. r_workers R a = 0" "\<And>a. r_endpoints R a = 0"
    and "\<And>a. r_streams R a = 0"
  shows "cells (inners w) = Map.empty \<and> cells (workers w) = Map.empty
    \<and> cells (contexts w) = Map.empty \<and> cells (streams w) = Map.empty"
proof -
  have inners: "cells (inners w) = Map.empty"
  proof (rule ext)
    fix a show "cells (inners w) a = None"
      using endpoints_cell [OF owns_parts(8) [OF assms(1)], of a] assms(4) [of a]
      by (cases "cells (inners w) a") auto
  qed
  then have workers: "cells (workers w) = Map.empty"
    using counts_empty [OF owns_parts(4) [OF assms(1)]] assms(3) by (simp add: refs_defs refs_from_empty)
  moreover have "cells (contexts w) = Map.empty"
    using counts_empty [OF owns_parts(2) [OF assms(1)]] assms(2) workers by (simp add: refs_defs refs_from_empty)
  moreover have "cells (streams w) = Map.empty"
    using counts_empty [OF owns_parts(6) [OF assms(1)]] assms(5) workers by (simp add: refs_defs refs_from_empty)
  ultimately show ?thesis using inners by blast
qed

section \<open>Properties\<close>

text \<open>
  In every reachable state, every enabled operation returns: no interleaving of creating,
  cloning, dropping and closing contexts, workers and endpoints, with error callbacks at any
  time, reaches a dangling pointer, an over-released reference, an uninitialised value or a panic.
\<close>

theorem lifecycle_never_faults:
  assumes "ucx_library E" "reachable E s" "enabled act s"
  shows "\<exists>s'. exec E act s = (Ret (), s') \<and> reachable E s'"
proof -
  have "does (exec E act) s (\<lambda>_. sys_inv_with no_refs)"
    using ucx_library.exec_inv [OF assms(1), of no_refs s act] ucx_library.reachable_inv [OF assms(1,2)] assms(3)
    by (simp add: sys_inv_with_none del: exec.simps)
  then obtain s' where "exec E act s = (Ret (), s')" by (auto simp: does_def)
  with reachable.step [OF assms(2,3) this] show ?thesis by blast
qed

text \<open>A run of the machine for the witnesses: a context, a worker, an endpoint and its clone.\<close>

fun run :: "('u, 'wk) env \<Rightarrow> action list \<Rightarrow> ('u, 'wk, 's, 'c) sys \<Rightarrow> ('u, 'wk, 's, 'c) sys" where
  "run E [] s = s"
| "run E (act # acts) s = run E acts (snd (exec E act s))"

fun enabled_run :: "('u, 'wk) env \<Rightarrow> action list \<Rightarrow> ('u, 'wk, 's, 'c) sys \<Rightarrow> bool" where
  "enabled_run E [] s = True"
| "enabled_run E (act # acts) s = (enabled act s \<and> enabled_run E acts (snd (exec E act s)))"

lemma run_reachable: "reachable E s \<Longrightarrow> enabled_run E acts s \<Longrightarrow> reachable E (run E acts s)"
proof (induction acts arbitrary: s)
  case (Cons act acts)
  then show ?case
    using reachable.step [of E s act "fst (exec E act s)" "snd (exec E act s)"] by simp
qed simp

abbreviation demo_endpoint :: Endpoint where
  "demo_endpoint \<equiv> \<lparr>ep_handle = 0, ep_inner = 0\<rparr>"

definition demo :: "action list" where
  "demo = [New_context False 0, New_worker 0, New_endpoint 0 zeroed_params, Clone_endpoint demo_endpoint]"

lemmas machine_simps = in_mem_def bind_def try_bind_def modify_def ret_def lift_def ffi_def query_def on_defs
  rc_defs put_cell_def scripted.simps from_ptr_def lawful_def ok_reply_def assume_init.simps
  context_new_with_config_def context_clone_def context_drop_def
  worker_new_def worker_clone_def worker_call_def worker_drop_def
  endpoint_create_def endpoint_clone_def endpoint_drop_def inner_new_def
  inner_is_closed_def inner_closed_def inner_set_status_def inner_drop_def

definition demo_sys :: "(reply list, nat option, unit, unit) sys" where
  "demo_sys = run (lawful_env Debug) demo (empty_sys [])"

definition demo_log :: "ffi_call list" where
  "demo_log = calls (mem demo_sys)"

lemma demo_sys_eq: "demo_sys = \<lparr>mem = \<lparr>lib = [], calls = demo_log, reqs = Map.empty, scheduled = [],
     contexts = \<lparr>cells = [0 \<mapsto> \<lparr>strong = 2, weak = 0, val = \<lparr>c_handle = 0\<rparr>\<rparr>], next_addr = 1\<rparr>,
     workers = \<lparr>cells = [0 \<mapsto> \<lparr>strong = 2, weak = 0,
        val = \<lparr>w_handle = 0, w_context = 0, am_streams = []\<rparr>\<rparr>], next_addr = 1\<rparr>,
     inners = \<lparr>cells = [0 \<mapsto> \<lparr>strong = 2, weak = 1, val = inner_new 0\<rparr>], next_addr = 1\<rparr>,
     streams = empty_heap, channels = empty_heap\<rparr>,
   context_vars = [0], worker_vars = [0], endpoint_vars = [demo_endpoint, demo_endpoint], closers = []\<rparr>"
  by (simp add: demo_log_def demo_sys_def demo_def empty_sys_def empty_heap_def machine_simps numeral_2_eq_2)

lemma demo_sys_simps:
  "endpoint_vars demo_sys = [demo_endpoint, demo_endpoint]" "worker_vars demo_sys = [0]"
  "context_vars demo_sys = [0]" "closers demo_sys = []" "lib (mem demo_sys) = []"
  "cells (inners (mem demo_sys)) 0 = Some \<lparr>strong = 2, weak = 1, val = inner_new 0\<rparr>"
  by (simp_all add: demo_sys_eq)

lemma demo_reachable: "reachable (lawful_env Debug) demo_sys"
proof -
  have "enabled_run (lawful_env Debug) demo (empty_sys [] :: (reply list, nat option, unit, unit) sys)"
    by (simp add: demo_def empty_sys_def empty_heap_def machine_simps)
  with reachable.start show ?thesis
    unfolding demo_sys_def by (rule run_reachable)
qed

lemma demo_enabled: "enabled (Drop_endpoint demo_endpoint) demo_sys"
  by (simp add: demo_sys_simps)

theorem lifecycle_never_faults_witness:
  "\<exists>s'. exec (lawful_env Debug) (Drop_endpoint demo_endpoint) demo_sys = (Ret (), s')
     \<and> reachable (lawful_env Debug) s'"
  using lifecycle_never_faults [OF lawful.ucx_library_axioms demo_reachable demo_enabled] .

text \<open>
  The counts that the test helper reads: as many strong references as there are endpoint
  variables, and one weak reference, the library's, exactly until the endpoint is closed.
\<close>

theorem reference_counts:
  assumes "ucx_library E" "reachable E s" "e \<in> set (endpoint_vars s)"
  shows "\<exists>c. inner_is_closed (ep_inner e) (mem s) = (Ret c, mem s)
    \<and> get_rc e (mem s) = (Ret (count_list (map ep_inner (endpoint_vars s)) (ep_inner e), if c then 0 else 1), mem s)"
proof -
  have inv: "sys_inv s" using ucx_library.reachable_inv [OF assms(1,2)] .
  then have "owns (mem s) (refs_of s)" by (simp add: sys_inv_def)
  then obtain b where b: "cells (inners (mem s)) (ep_inner e) = Some b" "0 < strong b"
    "strong b = r_endpoints (refs_of s) (ep_inner e)" "weak b = (if closed (val b) then 0 else 1)"
    using endpoint_held [OF assms(3)] by (rule owned_inner)
  then show ?thesis
    by (intro exI [of _ "closed (val b)"])
      (simp add: inner_reads(1) [OF b(1,2)] get_rc_def on_inners_def rc_on_cell refs_of_simps)
qed

theorem reference_counts_witness:
  "\<exists>c. get_rc demo_endpoint (mem demo_sys) = (Ret (2, if c then 0 else 1), mem demo_sys)"
proof -
  have "demo_endpoint \<in> set (endpoint_vars demo_sys)" by (simp add: demo_sys_simps)
  from reference_counts [OF lawful.ucx_library_axioms demo_reachable this] obtain c where
    "get_rc demo_endpoint (mem demo_sys) = (Ret (count_list (map ep_inner (endpoint_vars demo_sys))
       (ep_inner demo_endpoint), if c then 0 else 1), mem demo_sys)" by (elim exE conjE)
  moreover have "count_list (map ep_inner (endpoint_vars demo_sys)) (ep_inner demo_endpoint) = 2"
    by (simp add: demo_sys_simps)
  ultimately show ?thesis by (intro exI [of _ c]) simp
qed

text \<open>
  Nothing is destroyed while it can be used: whoever holds an endpoint can reach its worker,
  and through the worker its context, and both are alive.
\<close>

theorem handles_alive:
  assumes "ucx_library E" "reachable E s" "e \<in> set (endpoint_vars s)"
  shows "\<exists>i v c. rc_get (ep_inner e) (inners (mem s)) = (Ret i, inners (mem s))
    \<and> rc_get (ep_worker i) (workers (mem s)) = (Ret v, workers (mem s))
    \<and> rc_get (w_context v) (contexts (mem s)) = (Ret c, contexts (mem s))"
proof -
  have inv: "sys_inv s" using ucx_library.reachable_inv [OF assms(1,2)] .
  then have own: "owns (mem s) (refs_of s)" by (simp add: sys_inv_def)
  then obtain b where b: "cells (inners (mem s)) (ep_inner e) = Some b" "0 < strong b"
    "0 < worker_refs (mem s) (refs_of s) (ep_worker (val b))"
    using endpoint_held [OF assms(3)] by (rule owned_inner)
  obtain v where v: "cells (workers (mem s)) (ep_worker (val b)) = Some v" "0 < strong v"
    using countsD [OF owns_parts(4) [OF own] b(3)] b(3) by auto
  have "0 < context_refs (mem s) (refs_of s) (w_context (val v))"
    using refs_from_pos [OF owns_parts(3) [OF own] v(1), of "w_context (val v)" "\<lambda>v. [w_context v]"]
    by (simp add: context_refs_def)
  with countsD [OF owns_parts(2) [OF own] this]
  obtain c where c: "cells (contexts (mem s)) (w_context (val v)) = Some c" "0 < strong c" by auto
  show ?thesis
    using rc_on_cell(1) [OF b(1,2)] rc_on_cell(1) [OF v] rc_on_cell(1) [OF c] by blast
qed

theorem handles_alive_witness:
  "\<exists>v. rc_get 0 (workers (mem demo_sys)) = (Ret v, workers (mem demo_sys))"
proof -
  have "demo_endpoint \<in> set (endpoint_vars demo_sys)" by (simp add: demo_sys_simps)
  from handles_alive [OF lawful.ucx_library_axioms demo_reachable this]
  obtain i v where "rc_get (ep_inner demo_endpoint) (inners (mem demo_sys)) = (Ret i, inners (mem demo_sys))"
    and v: "rc_get (ep_worker i) (workers (mem demo_sys)) = (Ret v, workers (mem demo_sys))"
    by (elim exE conjE)
  then have "i = inner_new 0" by (simp add: rc_get_def demo_sys_simps)
  with v show ?thesis by (intro exI [of _ v]) (simp add: inner_new_def)
qed

text \<open>
  No leak and no double destruction: when the last variable is gone, no allocation is left,
  and \<^verbatim>\<open>ucp_worker_destroy\<close> and \<^verbatim>\<open>ucp_cleanup\<close> have been called exactly once per worker and context
  ever created.
\<close>

theorem all_released:
  assumes "ucx_library E" "reachable E s"
    and "context_vars s = []" "worker_vars s = []" "endpoint_vars s = []"
  shows "cells (inners (mem s)) = Map.empty \<and> cells (workers (mem s)) = Map.empty
    \<and> cells (contexts (mem s)) = Map.empty
    \<and> destroys (mem s) = next_addr (workers (mem s)) \<and> cleanups (mem s) = next_addr (contexts (mem s))"
proof -
  have "owns (mem s) (refs_of s)"
    using ucx_library.reachable_inv [OF assms(1,2)] by (simp add: sys_inv_def)
  from owns_nothing [OF this] assms(3-5) reachable_balanced [OF assms(2)]
  show ?thesis by (simp add: refs_of_def balanced_def)
qed

definition teardown :: "action list" where
  "teardown = [Drop_worker 0, Drop_endpoint demo_endpoint, Drop_context 0, Drop_endpoint demo_endpoint]"

theorem all_released_witness:
  "destroys (mem (run (lawful_env Debug) teardown demo_sys)) = 1
   \<and> cleanups (mem (run (lawful_env Debug) teardown demo_sys)) = 1"
proof -
  let ?s = "run (lawful_env Debug) teardown demo_sys"
  have "enabled_run (lawful_env Debug) teardown demo_sys"
    by (simp add: teardown_def demo_sys_eq machine_simps)
  then have "reachable (lawful_env Debug) ?s"
    using run_reachable [OF demo_reachable] by blast
  moreover have "context_vars ?s = [] \<and> worker_vars ?s = [] \<and> endpoint_vars ?s = []"
    and "next_addr (workers (mem ?s)) = 1 \<and> next_addr (contexts (mem ?s)) = 1"
    by (simp_all add: teardown_def demo_sys_eq machine_simps)
  ultimately show ?thesis
    using all_released [OF lawful.ucx_library_axioms, where s = ?s] by simp
qed

end
