(* ===== verification/Closing.thy ===== *)
theory Closing
  imports Lifecycle
begin

text \<open>
  What closing an endpoint guarantees: safety and completion of \<^verbatim>\<open>Endpoint::close\<close>, what closed
  endpoints answer, what a failed close, an error of the peer and the drop of one clone leave
  behind.
\<close>


section \<open>Closing\<close>

text \<open>
  What the other tasks may do to an endpoint between two polls of its \<^verbatim>\<open>close\<close>: anything that
  keeps ownership, leaves the caller's variable alone and does not reopen the endpoint.
\<close>

definition shares :: "nat \<Rightarrow> (('u, 'wk, 's, 'c) world \<Rightarrow> ('u, 'wk, 's, 'c) world) \<Rightarrow> bool" where
  "shares a others \<longleftrightarrow> (\<forall>w R. owns w R \<longrightarrow> 0 < r_endpoints R a \<longrightarrow>
     (\<exists>R'. owns (others w) R' \<and> 0 < r_endpoints R' a))"

lemma closed_status:
  assumes "owns w R" "0 < r_endpoints R a" "is_closed_at a w"
  shows "\<exists>err. inner_check E a w = (Ret (Err err), w)"
proof -
  from assms(1,2) obtain b where b: "cells (inners w) a = Some b" "0 < strong b"
    "closed (val b) \<longrightarrow> ep_status (val b) \<noteq> UCS_OK"
    by (rule owned_inner)
  with assms(3) show ?thesis by (simp add: inner_reads(2) [OF b(1,2)])
qed

definition close_post :: "('u, 'wk) env \<Rightarrow> nat \<Rightarrow> (unit, Error) result outcome \<times> ('u, 'wk, 's, 'c) world \<Rightarrow> bool" where
  "close_post E a = (\<lambda>(res, w').
     (\<exists>R'. owns w' R' \<and> 0 < r_endpoints R' a) \<and> (\<forall>f. res \<noteq> Fault f)
     \<and> (res = Ret (Ok ()) \<longrightarrow> is_closed_at a w' \<and> (\<exists>err. inner_check E a w' = (Ret (Err err), w'))))"

context ucx_library
begin

lemma close_rounds_post:
  fixes w :: "('u, 'wk, 's, 'c) world"
  assumes rely: "shares (ep_inner e) others"
    and "owns w R" "0 < r_endpoints R (ep_inner e)"
  shows "close_post E (ep_inner e) (close_rounds E others e ptr n w)"
  using assms(2,3)
proof (induction n arbitrary: w R)
  case 0
  then show ?case by (auto simp: close_post_def lift_def)
next
  case (Suc n)
  obtain c v where round: "close_round E e ptr w = (Ret c, v)" and v: "owns v R"
    and ok: "c = Finished (Ok ()) \<longrightarrow> is_closed_at (ep_inner e) v"
    using close_round_owned [OF Suc.prems, of ptr] by (auto simp: does_def)
  show ?case
  proof (cases c)
    case (Finished res)
    then show ?thesis
      using v Suc.prems(2) ok closed_status [OF v Suc.prems(2)]
      by (auto simp: close_post_def bind_def round ret_def)
  next
    case (Closing p)
    obtain R' where "owns (others v) R'" "0 < r_endpoints R' (ep_inner e)"
      using rely v Suc.prems(2) unfolding shares_def by blast
    from Suc.IH [OF this] Closing show ?thesis
      by (simp add: bind_def round modify_def)
  qed
qed

lemma close_post_holds:
  fixes w :: "('u, 'wk, 's, 'c) world"
  assumes "shares (ep_inner e) (x_others X)" "owns w R" "0 < r_endpoints R (ep_inner e)"
  shows "close_post E (ep_inner e) (endpoint_close E X e force w)"
proof -
  obtain c v where first: "close_start E e force w = (Ret c, v)" and v: "owns v R"
    and ok: "c = Finished (Ok ()) \<longrightarrow> is_closed_at (ep_inner e) v"
    using close_start_owned [OF assms(2,3), of force] by (auto simp: does_def)
  show ?thesis
  proof (cases c)
    case (Finished res)
    then show ?thesis
      using v assms(3) ok closed_status [OF v assms(3)]
      by (auto simp: endpoint_close_eq close_post_def bind_def first ret_def)
  next
    case (Closing p)
    then show ?thesis
      using close_rounds_post [OF assms(1) v assms(3)] by (simp add: endpoint_close_eq bind_def first)
  qed
qed

end

lemma close_rounds_complete:
  assumes "\<forall>i<k. fst (poll_normal E ptr ((others ^^ i) w)) = Ret Pending"
    and "fst (poll_normal E ptr ((others ^^ k) w)) = Ret (Ready res)" "k < n"
    and "does (close_round E e ptr) ((others ^^ k) w) (\<lambda>_ _. True)"
  shows "fst (close_rounds E others e ptr n w) = Ret res"
  using assms
proof (induction k arbitrary: w n)
  case 0
  let ?u = "w\<lparr>lib := snd (ucx E (Ucp_request_free ptr) (lib w)), calls := calls w @ [Ucp_request_free ptr]\<rparr>"
  obtain m where n: "n = Suc m" using "0.prems"(3) by (cases n) simp_all
  have poll: "poll_normal E ptr w = (Ret (Ready res), w)"
    using "0.prems"(2) lib_test_pair [OF poll_tests(1), of E ptr w] by simp
  have drop: "request_drop E ptr w = (Ret (), ?u)"
    by (simp add: request_drop_def bind_def ffi_def ret_def split: prod.split)
  show ?case
    using "0.prems"(4)
    by (auto simp: n bind_def poll drop close_round_def does_def ret_def split: sum.splits prod.splits outcome.splits)
next
  case (Suc k)
  obtain m where n: "n = Suc m" "k < m" using Suc.prems(3) by (metis Suc_lessE)
  have step: "(others ^^ Suc i) w = (others ^^ i) (others w)" for i
    by (simp add: funpow_swap1)
  have "fst (poll_normal E ptr w) = Ret Pending"
    using Suc.prems(1) by (metis funpow_0 zero_less_Suc)
  then have poll: "poll_normal E ptr w = (Ret Pending, w)"
    using lib_test_pair [OF poll_tests(1), of E ptr w] by simp
  have "fst (close_rounds E others e ptr m (others w)) = Ret res"
    using Suc.prems n(2) step by (intro Suc.IH) (metis Suc_mono, simp_all)
  then show ?case
    by (simp add: n bind_def poll close_round_def ret_def modify_def)
qed


definition quiet :: "nat \<Rightarrow> ('u, 'wk, 's, 'c) world executor" where
  "quiet n = \<lparr>x_task = 1, x_others = (\<lambda>w. w), x_polls = n\<rparr>"

lemma demo_owns: "owns (mem demo_sys) (refs_of demo_sys)" "0 < r_endpoints (refs_of demo_sys) 0"
  using ucx_library.reachable_inv [OF lawful.ucx_library_axioms demo_reachable]
  by (simp_all add: sys_inv_def refs_of_simps demo_sys_simps)

lemma quiet_shares: "shares a (x_others (quiet n))"
  by (auto simp: shares_def quiet_def)


text \<open>
  \<^verbatim>\<open>close\<close> returns what the library reports: when the close request is pending for \<open>k\<close> tests
  and then has the result \<open>res\<close>, the future returns \<open>res\<close> within \<open>k + 1\<close> polls.
\<close>

theorem close_completes:
  assumes "ucx_library E" "owns ((x_others X ^^ k) w1) R" "0 < r_endpoints R (ep_inner e)"
    and "close_start E e force w = (Ret (Closing ptr), w1)"
    and "\<forall>i<k. fst (poll_normal E ptr ((x_others X ^^ i) w1)) = Ret Pending"
    and "fst (poll_normal E ptr ((x_others X ^^ k) w1)) = Ret (Ready res)" "k < x_polls X"
  shows "fst (endpoint_close E X e force w) = Ret res"
proof -
  have "does (close_round E e ptr) ((x_others X ^^ k) w1) (\<lambda>_ _. True)"
    by (rule does_mono [OF ucx_library.close_round_owned [OF assms(1-3)]]) simp
  from close_rounds_complete [where others = "x_others X" and w = w1 and k = k and n = "x_polls X"
      and ptr = ptr and res = res, OF assms(5-7) this] show ?thesis
    by (simp add: endpoint_close_eq bind_def assms(4))
qed

theorem close_completes_witness:
  "fst (endpoint_close (lawful_env Debug) (quiet 1) demo_endpoint True
     (mem demo_sys\<lparr>lib := [ok_reply\<lparr>ptr_of := 64\<rparr>]\<rparr>)) = Ret (Ok ())"
proof (rule close_completes [OF lawful.ucx_library_axioms, where k = 0 and ptr = 64])
  let ?w = "mem demo_sys\<lparr>lib := [ok_reply\<lparr>ptr_of := 64\<rparr>]\<rparr>" and ?c = "Ucp_ep_close_nb 0 CLOSE_MODE_FORCE"
  let ?v = "?w\<lparr>lib := [], calls := calls ?w @ [?c]\<rparr>"
  show "owns ((x_others (quiet 1) ^^ 0) ?v) (refs_of demo_sys)" "0 < r_endpoints (refs_of demo_sys) (ep_inner demo_endpoint)"
    using demo_owns by simp_all
  show "close_start (lawful_env Debug) demo_endpoint True ?w = (Ret (Closing 64), ?v)"
    by (simp add: demo_sys_eq machine_simps close_start_def endpoint_is_closed_def on_status_ptr_def
        UCS_PTR_IS_PTR_def UCS_PTR_IS_ERR_def usize_sub_def err_last_def)
  show "fst (poll_normal (lawful_env Debug) 64 ((x_others (quiet 1) ^^ 0) ?v)) = Ret (Ready (Ok ()))"
    by (simp add: poll_normal_def bind_def query_def ret_def lift_def lawful_def ok_reply_def)
qed (simp_all add: quiet_def)

text \<open>How often the library was told to close an endpoint.\<close>

fun is_close_of :: "handle \<Rightarrow> ffi_call \<Rightarrow> bool" where
  "is_close_of h (Ucp_ep_close_nb h' mode) = (h' = h)"
| "is_close_of h _ = False"

definition closes :: "handle \<Rightarrow> ('u, 'wk, 's, 'c) world \<Rightarrow> nat" where
  "closes h w = length (filter (is_close_of h) (calls w))"

lemma keeps_closes [simp]:
  "keeps (\<lambda>w. closes h w = n) (on_contexts m0)" "keeps (\<lambda>w. closes h w = n) (on_workers m1)"
  "keeps (\<lambda>w. closes h w = n) (on_inners m2)" "keeps (\<lambda>w. closes h w = n) (on_streams m3)"
  "\<not> is_close_of h c \<Longrightarrow> keeps (\<lambda>w. closes h w = n) (ffi E c)"
  by (simp_all add: keeps_def closes_def on_defs ffi_def split: prod.split)

lemma keeps_closes_ops [simp]:
  "keeps (\<lambda>w. closes h w = n) (drop_streams as)" "keeps (\<lambda>w. closes h w = n) (worker_drop E k)"
  "keeps (\<lambda>w. closes h w = n) (inner_drop E a)" "keeps (\<lambda>w. closes h w = n) (inner_closed a)"
proof -
  show *: "keeps (\<lambda>w. closes h w = n) (drop_streams as)" for as
    by (induction as) (auto intro!: keeps_bind)
  show **: "keeps (\<lambda>w. closes h w = n) (worker_drop E k)" for k
    by (auto simp: worker_drop_def context_drop_def * intro!: keeps_bind split: option.split)
  show "keeps (\<lambda>w. closes h w = n) (inner_drop E a)" "keeps (\<lambda>w. closes h w = n) (inner_closed a)"
    by (auto simp: inner_drop_def inner_closed_def inner_set_status_def ** intro!: keeps_bind split: option.split)
qed

lemma keeps_closesD: "keeps (\<lambda>w. closes h w = closes h v) m \<Longrightarrow> closes h (snd (m v)) = closes h v"
  by (simp add: keeps_def)

text \<open>
  A closed endpoint is not closed again: closing it by force succeeds at once, closing it
  gracefully fails at once, both without touching anything, and dropping it releases the memory
  without another \<^verbatim>\<open>ucp_ep_close_nb\<close>.
\<close>

theorem closed_is_silent:
  assumes "ucx_library E" "owns w R" "0 < r_endpoints R (ep_inner e)"
    and "inner_is_closed (ep_inner e) w = (Ret True, w)"
  shows "endpoint_close E X e True w = (Ret (Ok ()), w)
    \<and> (\<exists>err. endpoint_close E X e False w = (Ret (Err err), w))
    \<and> closes h (snd (endpoint_drop E e w)) = closes h w"
proof -
  obtain b where b: "cells (inners w) (ep_inner e) = Some b" "0 < strong b"
    using assms(2,3) by (rule owned_inner)
  then have closed: "closed (val b)"
    using assms(4) by (simp add: inner_reads(1) [OF b])
  with b obtain err where err: "inner_check E (ep_inner e) w = (Ret (Err err), w)"
    using closed_status [OF assms(2,3), of E] by blast
  have "endpoint_close E X e True w = (Ret (Ok ()), w)"
    by (simp add: endpoint_close_def endpoint_is_closed_def bind_def assms(4) ret_def)
  moreover have "endpoint_close E X e False w = (Ret (Err err), w)"
    by (simp add: endpoint_close_def get_status_def try_bind_def bind_def err ret_def)
  moreover have "endpoint_drop E e w = inner_drop E (ep_inner e) w"
    by (simp add: endpoint_drop_def bind_def assms(4) ret_def)
  ultimately show ?thesis
    using keeps_closesD [of h w "inner_drop E (ep_inner e)"] by auto
qed

definition closed_demo :: "(reply list, nat option, unit, unit) world" where
  "closed_demo = snd (endpoint_close (lawful_env Debug) (quiet 1) demo_endpoint True (mem demo_sys))"

lemma closed_demo_facts:
  "owns closed_demo (refs_of demo_sys)" "inner_is_closed (ep_inner demo_endpoint) closed_demo = (Ret True, closed_demo)"
proof -
  have held: "0 < r_endpoints (refs_of demo_sys) (ep_inner demo_endpoint)" using demo_owns by simp
  have start: "close_start (lawful_env Debug) demo_endpoint True (mem demo_sys) = (Ret (Finished (Ok ())), closed_demo)"
    by (simp add: closed_demo_def demo_sys_eq machine_simps close_start_def endpoint_close_def
        endpoint_is_closed_def on_status_ptr_def)
  have inv: "owns closed_demo (refs_of demo_sys) \<and> is_closed_at 0 closed_demo"
    using does_Ret [OF ucx_library.close_start_owned [OF lawful.ucx_library_axioms demo_owns(1) held] start] by simp
  then show "owns closed_demo (refs_of demo_sys)" by blast
  with held obtain b where "cells (inners closed_demo) 0 = Some b" "0 < strong b"
    by (auto elim: owned_inner)
  with inv show "inner_is_closed (ep_inner demo_endpoint) closed_demo = (Ret True, closed_demo)"
    by (simp add: inner_reads(1))
qed

theorem closed_is_silent_witness:
  "endpoint_close (lawful_env Debug) (quiet 1) demo_endpoint True closed_demo = (Ret (Ok ()), closed_demo)
   \<and> closes 0 (snd (endpoint_drop (lawful_env Debug) demo_endpoint closed_demo)) = closes 0 closed_demo"
proof -
  have "0 < r_endpoints (refs_of demo_sys) (ep_inner demo_endpoint)" using demo_owns by simp
  from closed_is_silent [OF lawful.ucx_library_axioms closed_demo_facts(1) this closed_demo_facts(2)]
  show ?thesis by blast
qed





text \<open>
  C37. Dropping one clone of an open endpoint closes the connection of all of them: if other
  variables still refer to it, they find it closed.
\<close>

theorem drop_closes_all:
  assumes "ucx_library E" "owns w R" "1 < r_endpoints R (ep_inner e)"
  shows "\<exists>w'. endpoint_drop E e w = (Ret (), w')
    \<and> inner_is_closed (ep_inner e) w' = (Ret True, w') \<and> (\<exists>err. get_handle E e w' = (Ret (Err err), w'))"
proof -
  have "0 < r_endpoints R (ep_inner e)" using assms(3) by simp
  from ucx_library.endpoint_drop_owned [OF assms(1,2) this]
  obtain w' where run: "endpoint_drop E e w = (Ret (), w')"
    and own: "owns w' (R\<lparr>r_endpoints := dec (ep_inner e) (r_endpoints R)\<rparr>)" (is "owns w' ?R")
    and closed: "is_closed_at (ep_inner e) w'"
    using assms(3) by (auto simp: does_def)
  have held: "0 < r_endpoints ?R (ep_inner e)" using assms(3) by simp
  obtain err where err: "inner_check E (ep_inner e) w' = (Ret (Err err), w')"
    using closed_status [OF own held closed] by blast
  obtain b where b: "cells (inners w') (ep_inner e) = Some b" "0 < strong b"
    using own held by (rule owned_inner)
  with closed have "inner_is_closed (ep_inner e) w' = (Ret True, w')"
    by (simp add: inner_reads(1) [OF b])
  then show ?thesis
    using run by (intro exI [of _ w']) (simp add: get_handle_def try_bind_def bind_def err ret_def)
qed

theorem drop_closes_all_witness:
  "\<exists>w'. endpoint_drop (lawful_env Debug) demo_endpoint (mem demo_sys) = (Ret (), w')
     \<and> inner_is_closed 0 w' = (Ret True, w')"
proof -
  have "1 < r_endpoints (refs_of demo_sys) (ep_inner demo_endpoint)"
    by (simp add: refs_of_simps demo_sys_simps)
  from drop_closes_all [OF lawful.ucx_library_axioms demo_owns(1) this]
  show ?thesis by auto
qed

end
