(* ===== verification/Operation.thy ===== *)
theory Operation
  imports Endpoint
begin

text \<open>
  The protocol that all data operations on an endpoint share: refuse when the endpoint has an
  error, issue one call, and finish at once, with an error, or after awaiting the request. It is
  stated as a locale; each operation is an interpretation of it.
\<close>

section \<open>The contract\<close>

text \<open>
  \<open>op\<close> is the operation, \<open>call\<close> the library call it issues on a handle, \<open>total\<close> what it reports on
  success (its computation may overflow), \<open>fail\<close> what it does with an error pointer.
\<close>

locale nb_operation =
  fixes E :: "('u, 'wk) env"
    and op :: "('u, 'wk, 's, 'c) world executor \<Rightarrow> Endpoint \<Rightarrow> (('u, 'wk, 's, 'c) world, ('a, Error) result) prog"
    and call :: "handle \<Rightarrow> ffi_call"
    and total :: "'a outcome"
    and fail :: "handle \<Rightarrow> (('u, 'wk, 's, 'c) world, ('a, Error) result) prog"
  assumes op_eq: "op X e = try_bind (get_handle E e) (\<lambda>h.
      bind (ffi E (call h)) (\<lambda>r.
      bind (lift total) (\<lambda>x.
        on_status_ptr E (ptr_of r)
          (ret (Ok x))
          (try_bind (await_ptr E X (poll_normal E) (ptr_of r)) (\<lambda>_. ret (Ok x)))
          (fail (ptr_of r)))))"
    and fail_eq: "from_ptr (prof E) (binds E) ptr = Ret (Err err) \<Longrightarrow> fail ptr w = (Ret (Err err), w)"
begin

text \<open>What the call returns, and the world after it.\<close>

abbreviation returned :: "Endpoint \<Rightarrow> ('u, 'wk, 's, 'c) world \<Rightarrow> handle" where
  "returned e w \<equiv> ptr_of (fst (ucx E (call (ep_handle e)) (lib w)))"

abbreviation called :: "Endpoint \<Rightarrow> ('u, 'wk, 's, 'c) world \<Rightarrow> ('u, 'wk, 's, 'c) world" where
  "called e w \<equiv> w\<lparr>lib := snd (ucx E (call (ep_handle e)) (lib w)), calls := calls w @ [call (ep_handle e)]\<rparr>"

lemma refused:
  "get_status E e w = (Ret (Err err), w) \<Longrightarrow> op X e w = (Ret (Err err), w)"
  by (simp add: op_eq get_handle_def get_status_def try_bind_def bind_def ret_def)

lemma issued:
  assumes "get_status E e w = (Ret (Ok ()), w)" "total = Ret x"
  shows "op X e w = on_status_ptr E (returned e w) (ret (Ok x))
    (try_bind (await_ptr E X (poll_normal E) (returned e w)) (\<lambda>_. ret (Ok x))) (fail (returned e w)) (called e w)"
  using assms by (simp add: op_eq get_handle_def get_status_def try_bind_def bind_def ret_def ffi_def lift_def
      split: prod.split)

lemma overflowing:
  assumes "get_status E e w = (Ret (Ok ()), w)" "total = Fault f"
  shows "op X e w = (Fault f, called e w)"
  using assms by (simp add: op_eq get_handle_def get_status_def try_bind_def bind_def ret_def ffi_def lift_def
      split: prod.split)

lemma issued_unfinished:
  assumes "get_status E e w = (Ret (Ok ()), w)" "total = Unfinished"
  shows "op X e w = (Unfinished, called e w)"
  using assms by (simp add: op_eq get_handle_def get_status_def try_bind_def bind_def ret_def ffi_def lift_def
      split: prod.split)

lemma at_once:
  assumes "get_status E e w = (Ret (Ok ()), w)" "total = Ret x" "returned e w = 0"
  shows "op X e w = (Ret (Ok x), called e w)"
  using issued [OF assms(1,2), of X] assms(3) by (simp add: on_status_ptr_def ret_def)

lemma failed:
  assumes "ucx_library E" "get_status E e w = (Ret (Ok ()), w)" "total = Ret x"
    and err: "UCS_PTR_IS_ERR (binds E) (returned e w)"
  shows "op X e w =
    (Ret (Err (error_of_status (the (decode (binds E) (ucast (returned e w)))))), called e w)"
proof -
  have nonnull: "returned e w \<noteq> 0"
    using status_abi.trichotomy [of "binds E" "returned e w"] err ucx_library.axioms(1) [OF assms(1)] by auto
  show ?thesis
    using nonnull issued [OF assms(2,3), of X] err status_abi.trichotomy [of "binds E" "returned e w" "prof E"]
      ucx_library.axioms(1) [OF assms(1)] ucx_library.from_returned [OF assms(1), of "prof E" "call (ep_handle e)" "lib w"]
      fail_eq [of "returned e w" _ "called e w"]
    by (simp add: on_status_ptr_def)
qed

lemma awaited:
  assumes "ucx_library E" "get_status E e w = (Ret (Ok ()), w)" "total = Ret x"
    and "returned e w \<noteq> 0" "\<not> UCS_PTR_IS_ERR (binds E) (returned e w)"
  shows "op X e w =
    try_bind (await_ptr E X (poll_normal E) (returned e w)) (\<lambda>_. ret (Ok x)) (called e w)"
  using issued [OF assms(2,3), of X] assms(4,5) status_abi.trichotomy [of "binds E" "returned e w" "prof E"]
    ucx_library.axioms(1) [OF assms(1)]
  by (simp add: on_status_ptr_def)

text \<open>The request is completed in round \<open>k\<close>: the operation reports its result.\<close>

abbreviation round_of :: "('u, 'wk, 's, 'c) world executor \<Rightarrow> Endpoint \<Rightarrow> ('u, 'wk, 's, 'c) world \<Rightarrow> nat \<Rightarrow> ('u, 'wk, 's, 'c) world" where
  "round_of X e w k \<equiv> (park E (returned e w) (x_task X) (x_others X) ^^ k) (called e w)"

lemma completed:
  assumes "ucx_library E" "get_status E e w = (Ret (Ok ()), w)" "total = Ret x"
    and "returned e w \<noteq> 0" "\<not> UCS_PTR_IS_ERR (binds E) (returned e w)"
    and "keeps_request (returned e w) (x_others X)" "reqs w (returned e w) \<noteq> None"
    and "\<forall>i<k. fst (poll_normal E (returned e w) (round_of X e w i)) = Ret Pending"
    and "fst (poll_normal E (returned e w) (round_of X e w k)) = Ret (Ready res)" "k < x_polls X"
  shows "op X e w = (Ret (map_sum (\<lambda>err. err) (\<lambda>_. x) res),
    snd (request_drop E (returned e w) (round_of X e w k)))"
proof -
  have "await_ptr E X (poll_normal E) (returned e w) (called e w) =
      (Ret res, snd (request_drop E (returned e w) (round_of X e w k)))"
    unfolding await_ptr_def by (rule await_completes) (use assms(6-10) in simp_all)
  then show ?thesis
    unfolding awaited [OF assms(1-5)]
    by (simp add: try_bind_def bind_def ret_def split: sum.split)
qed

text \<open>Exactly one request is freed if the operation returns after awaiting, and none otherwise.\<close>

lemma freed_once:
  assumes "ucx_library E" "get_status E e w = (Ret (Ok ()), w)" "total = Ret x"
    and "returned e w \<noteq> 0" "\<not> UCS_PTR_IS_ERR (binds E) (returned e w)"
    and "\<forall>v. frees (returned e w) (x_others X v) = frees (returned e w) v"
    and "op X e w = (res, w')"
  shows "frees (returned e w) w' = frees (returned e w) (called e w) + (case res of Ret _ \<Rightarrow> 1 | _ \<Rightarrow> 0)"
proof -
  obtain q v where run: "await_ptr E X (poll_normal E) (returned e w) (called e w) = (q, v)" by fastforce
  have "frees (returned e w) v = frees (returned e w) (called e w) + (case q of Ret _ \<Rightarrow> 1 | _ \<Rightarrow> 0)"
    using await_frees [OF poll_tests(1) assms(6) run [unfolded await_ptr_def]] .
  with assms(7) run show ?thesis
    unfolding awaited [OF assms(1-5)]
    by (auto simp: try_bind_def bind_def ret_def split: outcome.splits sum.splits)
qed

text \<open>Success means that the whole total is reported.\<close>

lemma reports:
  assumes "ucx_library E" "op X e w = (Ret (Ok y), w')"
  shows "total = Ret y"
proof -
  have ok: "get_status E e w = (Ret (Ok ()), w)"
    using assms(2) unfolding op_eq get_handle_def get_status_def inner_check_def
    by (auto simp: try_bind_def bind_def ret_def lift_def on_inners_def rc_get_def from_status_def from_error_def
        split: option.splits if_splits sum.splits outcome.splits)
  obtain x where x: "total = Ret x"
    using assms(2) overflowing [OF ok] issued_unfinished [OF ok] by (cases total) auto
  consider "returned e w = 0" | "UCS_PTR_IS_ERR (binds E) (returned e w)"
    | "returned e w \<noteq> 0" "\<not> UCS_PTR_IS_ERR (binds E) (returned e w)" by blast
  then show ?thesis
  proof cases
    case 1
    then show ?thesis using at_once [OF ok x, of X] assms(2) x by simp
  next
    case 2
    then show ?thesis using failed [OF assms(1) ok x, of X] assms(2) by simp
  next
    case 3
    then show ?thesis
      using awaited [OF assms(1) ok x 3, of X] assms(2) x
      by (auto simp: try_bind_def bind_def ret_def split: outcome.splits sum.splits prod.splits)
  qed
qed

end

section \<open>Flushing is such an operation\<close>

lemma bind_ret_right: "bind m ret = m"
  by (simp add: bind_def ret_def fun_eq_iff split: prod.split outcome.split)

lemma try_bind_unit: "try_bind m (\<lambda>_. ret (Ok ())) = (m :: ('w, (unit, 'e) result) prog)"
proof -
  have "(\<lambda>r. case r of Inl e \<Rightarrow> ret (Inl e) | Inr x \<Rightarrow> ret (Ok ())) = (ret :: (unit, 'e) result \<Rightarrow> ('w, (unit, 'e) result) prog)"
    by (simp add: fun_eq_iff split: sum.split)
  then show ?thesis by (simp add: try_bind_def bind_ret_right)
qed

lemma ptr_error_eq: "from_ptr (prof E) (binds E) ptr = Ret (Err err) \<Longrightarrow> ptr_error E ptr w = (Ret (Err err), w)"
  by (simp add: ptr_error_def ret_def)

interpretation flush: nb_operation E "endpoint_flush E" Ucp_ep_flush_nb "Ret ()"
  "\<lambda>ptr. lift (from_ptr (prof E) (binds E) ptr)" for E
  by unfold_locales (simp_all add: endpoint_flush_def try_bind_unit ret_def)

end
