(* ===== verification/Stream.thy ===== *)
theory Stream
  imports Operation
begin

text \<open>
  \<^verbatim>\<open>src/ucp/endpoint/stream.rs\<close>: sending and receiving on the stream of an endpoint. \<open>poll_stream\<close>
  is in the theory \<open>Request\<close>.
\<close>

definition stream_send ::
  "('u, 'wk) env \<Rightarrow> ('u, 'wk, 's, 'c) world executor \<Rightarrow> Endpoint \<Rightarrow> slice \<Rightarrow>
   (('u, 'wk, 's, 'c) world, (usize, Error) result) prog" where
  "stream_send E X e buf =
     try_bind (get_handle E e) (\<lambda>h.
     bind (ffi E (Ucp_stream_send_nb h (Bytes (as_ptr buf)) (slice_len buf) (ucp_dt_make_contig (binds E) 1))) (\<lambda>r.
       on_status_ptr E (ptr_of r)
         (ret (Ok (slice_len buf)))
         (try_bind (await_ptr E X (poll_normal E) (ptr_of r)) (\<lambda>_. ret (Ok (slice_len buf))))
         (ptr_error E (ptr_of r))))"

definition stream_recv ::
  "('u, 'wk) env \<Rightarrow> ('u, 'wk, 's, 'c) world executor \<Rightarrow> Endpoint \<Rightarrow> slice \<Rightarrow>
   (('u, 'wk, 's, 'c) world, (usize, Error) result) prog" where
  "stream_recv E X e buf =
     try_bind (get_handle E e) (\<lambda>h.
     bind (ffi E (Ucp_stream_recv_nb h (Bytes (as_ptr buf)) (slice_len buf) (ucp_dt_make_contig (binds E) 1))) (\<lambda>r.
       on_status_ptr E (ptr_of r)
         (bind (lift (assume_init (out_len r))) (\<lambda>len. ret (Ok len)))
         (bind (await_ptr E X (poll_stream E) (ptr_of r)) (\<lambda>len. ret (Ok len)))
         (ptr_error E (ptr_of r))))"

interpretation stream_send: nb_operation E "\<lambda>X e. stream_send E X e buf"
  "\<lambda>h. Ucp_stream_send_nb h (Bytes (as_ptr buf)) (slice_len buf) (ucp_dt_make_contig (binds E) 1)"
  "Ret (slice_len buf)" "ptr_error E" for E buf
  by unfold_locales (simp_all add: stream_send_def ptr_error_eq)

end
