(* ===== verification/Connect.thy ===== *)
theory Connect
  imports Stream
begin

text \<open>
  Connecting: the constructors of \<^verbatim>\<open>Endpoint\<close> in \<^verbatim>\<open>src/ucp/endpoint/mod.rs\<close> (to a socket, to a
  worker's address, from a connection request) and the methods of \<^verbatim>\<open>Worker\<close> that call them.
\<close>

text \<open>\<^verbatim>\<open>ConnectionRequest\<close> of \<^verbatim>\<open>src/ucp/listener.rs\<close>.\<close>

record ConnectionRequest =
  cr_handle :: handle

definition socket_params :: "abi \<Rightarrow> u8 list \<Rightarrow> ep_params" where
  "socket_params B addr = zeroed_params\<lparr>
     field_mask := num B UCP_EP_PARAM_FIELD_FLAGS OR num B UCP_EP_PARAM_FIELD_SOCK_ADDR
       OR num B UCP_EP_PARAM_FIELD_ERR_HANDLING_MODE,
     flags := num32 B UCP_EP_PARAMS_FLAGS_CLIENT_SERVER,
     sockaddr := addr,
     err_mode_peer := True\<rparr>"

definition addr_params :: "abi \<Rightarrow> handle \<Rightarrow> ep_params" where
  "addr_params B addr = zeroed_params\<lparr>
     field_mask := num B UCP_EP_PARAM_FIELD_REMOTE_ADDRESS OR num B UCP_EP_PARAM_FIELD_ERR_HANDLING_MODE,
     address := addr,
     err_mode_peer := True\<rparr>"

definition accept_params :: "abi \<Rightarrow> ConnectionRequest \<Rightarrow> ep_params" where
  "accept_params B connection = zeroed_params\<lparr>
     field_mask := num B UCP_EP_PARAM_FIELD_CONN_REQUEST,
     conn_request := cr_handle connection\<rparr>"

text \<open>
  The first message of a connection (a workaround for a defect of UCX) is four bytes, at the
  address \<open>buf\<close> of a local array. When it fails, the new endpoint is dropped on the way out.
\<close>

definition connect_socket ::
  "('u, 'wk) env \<Rightarrow> ('u, 'wk, 's, 'c) world executor \<Rightarrow> nat \<Rightarrow> u8 list \<Rightarrow> handle \<Rightarrow>
   (('u, 'wk, 's, 'c) world, (Endpoint, Error) result) prog" where
  "connect_socket E X wk addr buf =
     try_bind (endpoint_create E wk (socket_params (binds E) addr)) (\<lambda>endpoint.
     bind (stream_send E X endpoint \<lparr>as_ptr = buf, contents = [0, 1, 2, 3]\<rparr>) (\<lambda>sent. case sent of
         Inl err \<Rightarrow> bind (endpoint_drop E endpoint) (\<lambda>_. ret (Err err))
       | Inr _ \<Rightarrow> ret (Ok endpoint)))"

definition connect_addr ::
  "('u, 'wk) env \<Rightarrow> nat \<Rightarrow> handle \<Rightarrow> (('u, 'wk, 's, 'c) world, (Endpoint, Error) result) prog" where
  "connect_addr E wk addr = endpoint_create E wk (addr_params (binds E) addr)"

definition accept ::
  "('u, 'wk) env \<Rightarrow> ('u, 'wk, 's, 'c) world executor \<Rightarrow> nat \<Rightarrow> ConnectionRequest \<Rightarrow> slice \<Rightarrow>
   (('u, 'wk, 's, 'c) world, (Endpoint, Error) result) prog" where
  "accept E X wk connection buf =
     try_bind (endpoint_create E wk (accept_params (binds E) connection)) (\<lambda>endpoint.
     bind (stream_recv E X endpoint buf) (\<lambda>received. case received of
         Inl err \<Rightarrow> bind (endpoint_drop E endpoint) (\<lambda>_. ret (Err err))
       | Inr _ \<Rightarrow> ret (Ok endpoint)))"

text \<open>\<^verbatim>\<open>Worker::connect_addr\<close>, on the address another worker hands out.\<close>

definition worker_connect_addr ::
  "('u, 'wk) env \<Rightarrow> nat \<Rightarrow> WorkerAddress \<Rightarrow> (('u, 'wk, 's, 'c) world, (Endpoint, Error) result) prog" where
  "worker_connect_addr E wk addr = connect_addr E wk (wa_handle addr)"

text \<open>\<^verbatim>\<open>Worker::connect_socket\<close> and \<^verbatim>\<open>Worker::accept\<close>.\<close>

definition worker_connect_socket ::
  "('u, 'wk) env \<Rightarrow> ('u, 'wk, 's, 'c) world executor \<Rightarrow> nat \<Rightarrow> u8 list \<Rightarrow> handle \<Rightarrow>
   (('u, 'wk, 's, 'c) world, (Endpoint, Error) result) prog" where
  "worker_connect_socket E X wk addr buf = connect_socket E X wk addr buf"

definition worker_accept ::
  "('u, 'wk) env \<Rightarrow> ('u, 'wk, 's, 'c) world executor \<Rightarrow> nat \<Rightarrow> ConnectionRequest \<Rightarrow> slice \<Rightarrow>
   (('u, 'wk, 's, 'c) world, (Endpoint, Error) result) prog" where
  "worker_accept E X wk connection buf = accept E X wk connection buf"

end
