(* ===== verification/Tag.thy ===== *)
theory Tag
  imports Operation
begin

text \<open>
  \<^verbatim>\<open>src/ucp/endpoint/tag.rs\<close>: tagged sends on an endpoint and tagged receives on a worker.
  \<open>poll_tag\<close> is in the theory \<open>Request\<close>.
\<close>

section \<open>Receiving\<close>

definition tag_recv_mask ::
  "('u, 'wk) env \<Rightarrow> ('u, 'wk, 's, 'c) world executor \<Rightarrow> nat \<Rightarrow> u64 \<Rightarrow> u64 \<Rightarrow> slice \<Rightarrow>
   (('u, 'wk, 's, 'c) world, (u64 \<times> usize, Error) result) prog" where
  "tag_recv_mask E X wk tag tag_mask buf =
     bind (worker_call E wk (\<lambda>h. Ucp_tag_recv_nb h (Bytes (as_ptr buf)) (slice_len buf)
             (ucp_dt_make_contig (binds E) 1) tag tag_mask)) (\<lambda>r.
     try_bind (lift (from_ptr (prof E) (binds E) (ptr_of r))) (\<lambda>_.
       await_ptr E X (poll_tag E) (ptr_of r)))"

definition tag_recv ::
  "('u, 'wk) env \<Rightarrow> ('u, 'wk, 's, 'c) world executor \<Rightarrow> nat \<Rightarrow> u64 \<Rightarrow> slice \<Rightarrow>
   (('u, 'wk, 's, 'c) world, (usize, Error) result) prog" where
  "tag_recv E X wk tag buf =
     bind (tag_recv_mask E X wk tag (- 1) buf) (\<lambda>res. ret (map_sum id snd res))"

definition tag_recv_vectored ::
  "('u, 'wk) env \<Rightarrow> ('u, 'wk, 's, 'c) world executor \<Rightarrow> nat \<Rightarrow> u64 \<Rightarrow> slice list \<Rightarrow>
   (('u, 'wk, 's, 'c) world, (usize, Error) result) prog" where
  "tag_recv_vectored E X wk tag iov =
     bind (worker_call E wk (\<lambda>h. Ucp_tag_recv_nb h (Iovec iov) (word_of_nat (length iov))
             (num (binds E) UCP_DATATYPE_IOV) tag (- 1))) (\<lambda>r.
     try_bind (lift (from_ptr (prof E) (binds E) (ptr_of r))) (\<lambda>_.
     bind (await_ptr E X (poll_tag E) (ptr_of r)) (\<lambda>res. ret (map_sum id snd res))))"

section \<open>Sending\<close>

definition tag_send ::
  "('u, 'wk) env \<Rightarrow> ('u, 'wk, 's, 'c) world executor \<Rightarrow> Endpoint \<Rightarrow> u64 \<Rightarrow> slice \<Rightarrow>
   (('u, 'wk, 's, 'c) world, (usize, Error) result) prog" where
  "tag_send E X e tag buf =
     try_bind (get_handle E e) (\<lambda>h.
     bind (ffi E (Ucp_tag_send_nb h (Bytes (as_ptr buf)) (slice_len buf) (ucp_dt_make_contig (binds E) 1) tag)) (\<lambda>r.
       on_status_ptr E (ptr_of r)
         (ret (Ok (slice_len buf)))
         (try_bind (await_ptr E X (poll_normal E) (ptr_of r)) (\<lambda>_. ret (Ok (slice_len buf))))
         (ptr_error E (ptr_of r))))"

text \<open>The total length is summed after the call, and the sum is checked for overflow in a checked build.\<close>

definition tag_send_vectored ::
  "('u, 'wk) env \<Rightarrow> ('u, 'wk, 's, 'c) world executor \<Rightarrow> Endpoint \<Rightarrow> u64 \<Rightarrow> slice list \<Rightarrow>
   (('u, 'wk, 's, 'c) world, (usize, Error) result) prog" where
  "tag_send_vectored E X e tag iov =
     try_bind (get_handle E e) (\<lambda>h.
     bind (ffi E (Ucp_tag_send_nb h (Iovec iov) (word_of_nat (length iov)) (num (binds E) UCP_DATATYPE_IOV) tag)) (\<lambda>r.
     bind (lift (usize_sum (prof E) 0 (map slice_len iov))) (\<lambda>total_len.
       on_status_ptr E (ptr_of r)
         (ret (Ok total_len))
         (try_bind (await_ptr E X (poll_normal E) (ptr_of r)) (\<lambda>_. ret (Ok total_len)))
         (ptr_error E (ptr_of r)))))"

interpretation tag_send: nb_operation E "\<lambda>X e. tag_send E X e tag buf"
  "\<lambda>h. Ucp_tag_send_nb h (Bytes (as_ptr buf)) (slice_len buf) (ucp_dt_make_contig (binds E) 1) tag"
  "Ret (slice_len buf)" "ptr_error E" for E tag buf
  by unfold_locales (simp_all add: tag_send_def ptr_error_eq)

interpretation tag_send_vectored: nb_operation E "\<lambda>X e. tag_send_vectored E X e tag iov"
  "\<lambda>h. Ucp_tag_send_nb h (Iovec iov) (word_of_nat (length iov)) (num (binds E) UCP_DATATYPE_IOV) tag"
  "usize_sum (prof E) 0 (map slice_len iov)" "ptr_error E" for E tag iov
  by unfold_locales (simp_all add: tag_send_vectored_def ptr_error_eq)

end
