(* ===== verification/Rma.thy ===== *)
theory Rma
  imports Operation
begin

text \<open>
  \<^verbatim>\<open>src/ucp/endpoint/rma.rs\<close>: registered memory, remote keys, and the one-sided \<^verbatim>\<open>put\<close> and \<^verbatim>\<open>get\<close>.
\<close>

section \<open>Memory registration\<close>

record MemoryHandle =
  mh_handle :: handle
  mh_context :: nat

definition memory_register ::
  "('u, 'wk) env \<Rightarrow> nat \<Rightarrow> slice \<Rightarrow> (('u, 'wk, 's, 'c) world, MemoryHandle) prog" where
  "memory_register E ctx region =
     bind (on_contexts (rc_get ctx)) (\<lambda>c.
     bind (ffi E (Ucp_mem_map (c_handle c)
            (num (binds E) UCP_MEM_MAP_PARAM_FIELD_ADDRESS OR num (binds E) UCP_MEM_MAP_PARAM_FIELD_LENGTH)
            (as_ptr region) (slice_len region))) (\<lambda>r.
     bind (lift (assert_ok (status_of r))) (\<lambda>_.
     bind (lift (assume_init (out_word r))) (\<lambda>h.
     bind (context_clone ctx) (\<lambda>_. ret \<lparr>mh_handle = h, mh_context = ctx\<rparr>)))))"

record RKeyBuffer =
  rk_buf :: handle
  rk_len :: usize

definition memory_pack ::
  "('u, 'wk) env \<Rightarrow> MemoryHandle \<Rightarrow> (('u, 'wk, 's, 'c) world, RKeyBuffer) prog" where
  "memory_pack E m =
     bind (on_contexts (rc_get (mh_context m))) (\<lambda>c.
     bind (ffi E (Ucp_rkey_pack (c_handle c) (mh_handle m))) (\<lambda>r.
     bind (lift (assert_ok (status_of r))) (\<lambda>_.
     bind (lift (assume_init (out_word r))) (\<lambda>buf.
     bind (lift (assume_init (out_len r))) (\<lambda>len. ret \<lparr>rk_buf = buf, rk_len = len\<rparr>)))))"

text \<open>\<^verbatim>\<open>MemoryHandle::drop\<close>, then the drop of its context.\<close>

definition memory_drop :: "('u, 'wk) env \<Rightarrow> MemoryHandle \<Rightarrow> (('u, 'wk, 's, 'c) world, unit) prog" where
  "memory_drop E m =
     bind (on_contexts (rc_get (mh_context m))) (\<lambda>c.
     bind (ffi E (Ucp_mem_unmap (c_handle c) (mh_handle m))) (\<lambda>_. context_drop E (mh_context m)))"

text \<open>\<^verbatim>\<open>RKeyBuffer::as_ref\<close>: the slice the library's buffer is read as.\<close>

definition rkey_buffer_as_ref :: "RKeyBuffer \<Rightarrow> handle \<times> usize" where
  "rkey_buffer_as_ref b = (rk_buf b, rk_len b)"

definition rkey_buffer_drop :: "('u, 'wk) env \<Rightarrow> RKeyBuffer \<Rightarrow> (('u, 'wk, 's, 'c) world, unit) prog" where
  "rkey_buffer_drop E b = bind (ffi E (Ucp_rkey_buffer_release (rk_buf b))) (\<lambda>_. ret ())"

section \<open>Remote keys\<close>

record RKey =
  rkey_handle :: handle

definition rkey_unpack ::
  "('u, 'wk) env \<Rightarrow> Endpoint \<Rightarrow> slice \<Rightarrow> (('u, 'wk, 's, 'c) world, RKey) prog" where
  "rkey_unpack E e rkey_buffer =
     bind (ffi E (Ucp_ep_rkey_unpack (ep_handle e) (as_ptr rkey_buffer))) (\<lambda>r.
     bind (lift (assert_ok (status_of r))) (\<lambda>_.
     bind (lift (assume_init (out_word r))) (\<lambda>h. ret \<lparr>rkey_handle = h\<rparr>)))"

definition rkey_drop :: "('u, 'wk) env \<Rightarrow> RKey \<Rightarrow> (('u, 'wk, 's, 'c) world, unit) prog" where
  "rkey_drop E k = bind (ffi E (Ucp_rkey_destroy (rkey_handle k))) (\<lambda>_. ret ())"

section \<open>\<^verbatim>\<open>put\<close> and \<^verbatim>\<open>get\<close>\<close>

definition put ::
  "('u, 'wk) env \<Rightarrow> ('u, 'wk, 's, 'c) world executor \<Rightarrow> Endpoint \<Rightarrow> slice \<Rightarrow> u64 \<Rightarrow> RKey \<Rightarrow>
   (('u, 'wk, 's, 'c) world, (unit, Error) result) prog" where
  "put E X e buf remote_addr rkey =
     try_bind (get_handle E e) (\<lambda>h.
     bind (ffi E (Ucp_put_nb h (Bytes (as_ptr buf)) (slice_len buf) remote_addr (rkey_handle rkey))) (\<lambda>r.
       on_status_ptr E (ptr_of r)
         (ret (Ok ()))
         (await_ptr E X (poll_normal E) (ptr_of r))
         (lift (from_ptr (prof E) (binds E) (ptr_of r)))))"

definition get ::
  "('u, 'wk) env \<Rightarrow> ('u, 'wk, 's, 'c) world executor \<Rightarrow> Endpoint \<Rightarrow> slice \<Rightarrow> u64 \<Rightarrow> RKey \<Rightarrow>
   (('u, 'wk, 's, 'c) world, (unit, Error) result) prog" where
  "get E X e buf remote_addr rkey =
     try_bind (get_handle E e) (\<lambda>h.
     bind (ffi E (Ucp_get_nb h (Bytes (as_ptr buf)) (slice_len buf) remote_addr (rkey_handle rkey))) (\<lambda>r.
       on_status_ptr E (ptr_of r)
         (ret (Ok ()))
         (await_ptr E X (poll_normal E) (ptr_of r))
         (lift (from_ptr (prof E) (binds E) (ptr_of r)))))"

interpretation put: nb_operation E "\<lambda>X e. put E X e buf remote_addr rkey"
  "\<lambda>h. Ucp_put_nb h (Bytes (as_ptr buf)) (slice_len buf) remote_addr (rkey_handle rkey)"
  "Ret ()" "\<lambda>ptr. lift (from_ptr (prof E) (binds E) ptr)" for E buf remote_addr rkey
  by unfold_locales (simp_all add: put_def try_bind_unit ret_def)

interpretation get: nb_operation E "\<lambda>X e. get E X e buf remote_addr rkey"
  "\<lambda>h. Ucp_get_nb h (Bytes (as_ptr buf)) (slice_len buf) remote_addr (rkey_handle rkey)"
  "Ret ()" "\<lambda>ptr. lift (from_ptr (prof E) (binds E) ptr)" for E buf remote_addr rkey
  by unfold_locales (simp_all add: get_def try_bind_unit ret_def)

end
