(* ===== verification/AmSend.thy ===== *)
theory AmSend
  imports Operation
begin

text \<open>
  Sending active messages: \<^verbatim>\<open>am_send\<close> of \<^verbatim>\<open>src/ucp/endpoint/am.rs\<close>, on a handle, and the
  operations of an endpoint that call it.
\<close>

datatype AmProto = Proto_Eager | Proto_Rndv

definition am_send_flags :: "abi \<Rightarrow> bool \<Rightarrow> AmProto option \<Rightarrow> u32" where
  "am_send_flags B need_reply proto =
     (let flags = (case proto of
          Some Proto_Eager \<Rightarrow> num32 B UCP_AM_SEND_FLAG_EAGER
        | Some Proto_Rndv \<Rightarrow> num32 B UCP_AM_SEND_FLAG_RNDV
        | None \<Rightarrow> 0)
      in if need_reply then flags OR num32 B UCP_AM_SEND_FLAG_REPLY else flags)"

text \<open>One buffer is sent as contiguous bytes, any other number as an array of I/O vectors.\<close>

definition am_buffer :: "slice list \<Rightarrow> buffer \<times> usize" where
  "am_buffer data =
     (if length data = 1 then (Bytes (as_ptr (hd data)), slice_len (hd data))
      else (Iovec data, word_of_nat (length data)))"

definition am_datatype :: "abi \<Rightarrow> slice list \<Rightarrow> u64" where
  "am_datatype B data =
     (if length data = 1 then ucp_dt_make_contig B 1 else num B UCP_DATATYPE_IOV)"

definition am_send_param :: "abi \<Rightarrow> slice list \<Rightarrow> bool \<Rightarrow> AmProto option \<Rightarrow> request_param" where
  "am_send_param B data need_reply proto =
     \<lparr>op_attr_mask = num32 B UCP_OP_ATTR_FIELD_CALLBACK OR num32 B UCP_OP_ATTR_FIELD_DATATYPE
        OR num32 B UCP_OP_ATTR_FIELD_FLAGS,
      req_flags = am_send_flags B need_reply proto,
      data_type = am_datatype B data\<rparr>"

definition am_send_raw ::
  "('u, 'wk) env \<Rightarrow> ('u, 'wk, 's, 'c) world executor \<Rightarrow> handle \<Rightarrow> u32 \<Rightarrow> slice \<Rightarrow> slice list \<Rightarrow> bool \<Rightarrow>
   AmProto option \<Rightarrow> (('u, 'wk, 's, 'c) world, (unit, Error) result) prog" where
  "am_send_raw E X ep i header data need_reply proto =
     (let (buffer, count) = am_buffer data
      in bind (ffi E (Ucp_am_send_nbx ep i header buffer count (am_send_param (binds E) data need_reply proto))) (\<lambda>r.
        on_status_ptr E (ptr_of r)
          (ret (Ok ()))
          (await_ptr E X (poll_normal E) (ptr_of r))
          (ptr_error E (ptr_of r))))"

definition am_send_vectorized ::
  "('u, 'wk) env \<Rightarrow> ('u, 'wk, 's, 'c) world executor \<Rightarrow> Endpoint \<Rightarrow> u32 \<Rightarrow> slice \<Rightarrow> slice list \<Rightarrow> bool \<Rightarrow>
   AmProto option \<Rightarrow> (('u, 'wk, 's, 'c) world, (unit, Error) result) prog" where
  "am_send_vectorized E X e i header data need_reply proto =
     try_bind (get_handle E e) (\<lambda>h. am_send_raw E X h i header data need_reply proto)"

definition am_send ::
  "('u, 'wk) env \<Rightarrow> ('u, 'wk, 's, 'c) world executor \<Rightarrow> Endpoint \<Rightarrow> u32 \<Rightarrow> slice \<Rightarrow> slice \<Rightarrow> bool \<Rightarrow>
   AmProto option \<Rightarrow> (('u, 'wk, 's, 'c) world, (unit, Error) result) prog" where
  "am_send E X e i header data need_reply proto =
     am_send_vectorized E X e i header [data] need_reply proto"

interpretation am_send: nb_operation E "\<lambda>X e. am_send_vectorized E X e i header data need_reply proto"
  "\<lambda>h. Ucp_am_send_nbx h i header (fst (am_buffer data)) (snd (am_buffer data))
     (am_send_param (binds E) data need_reply proto)"
  "Ret ()" "ptr_error E" for E i header data need_reply proto
  by unfold_locales
    (simp_all add: am_send_vectorized_def am_send_raw_def try_bind_unit ptr_error_eq case_prod_beta)

end
