(* ===== verification/Transfers.thy ===== *)
theory Transfers
  imports Closing Connect Tag Rma AmSend
begin

text \<open>
  What the data operations guarantee: sends, receives, one-sided access and active messages. Most
  statements are instances of the contract of the theory \<open>Operation\<close>.
\<close>

text \<open>
  Once an endpoint has an error (of the peer, or because it was closed) every operation on it
  returns that error without a library call and without any other effect.
\<close>

theorem refused_after_error:
  assumes "get_status E e w = (Ret (Err err), w)"
  shows "endpoint_flush E X e w = (Ret (Err err), w)
    \<and> stream_send E X e buf w = (Ret (Err err), w) \<and> stream_recv E X e buf w = (Ret (Err err), w)
    \<and> tag_send E X e tag buf w = (Ret (Err err), w) \<and> tag_send_vectored E X e tag iov w = (Ret (Err err), w)
    \<and> put E X e buf addr rkey w = (Ret (Err err), w) \<and> get E X e buf addr rkey w = (Ret (Err err), w)
    \<and> am_send E X e i hdr buf reply proto w = (Ret (Err err), w)"
proof -
  have "stream_recv E X e buf w = (Ret (Err err), w)"
    using assms by (simp add: stream_recv_def get_handle_def get_status_def try_bind_def bind_def ret_def)
  then show ?thesis
    using assms by (simp add: flush.refused stream_send.refused tag_send.refused tag_send_vectored.refused
        put.refused get.refused am_send.refused am_send_def)
qed

theorem refused_after_error_witness:
  "\<exists>err. stream_send (lawful_env Debug) (quiet 1) demo_endpoint \<lparr>as_ptr = 16, contents = [7]\<rparr> closed_demo
     = (Ret (Err err), closed_demo)"
proof -
  have "0 < r_endpoints (refs_of demo_sys) 0" by (rule demo_owns)
  moreover have "is_closed_at 0 closed_demo"
    using closed_demo_facts(2) by (auto simp: inner_is_closed_def bind_def on_inners_def rc_get_def ret_def
        split: option.splits if_splits)
  ultimately obtain err where "inner_check (lawful_env Debug) 0 closed_demo = (Ret (Err err), closed_demo)"
    using closed_status [OF closed_demo_facts(1)] by blast
  then have "get_status (lawful_env Debug) demo_endpoint closed_demo = (Ret (Err err), closed_demo)"
    by (simp add: get_status_def)
  from refused_after_error [OF this] show ?thesis by blast
qed

definition after_call :: "('u, 'wk) env \<Rightarrow> ffi_call \<Rightarrow> ('u, 'wk, 's, 'c) world \<Rightarrow> ('u, 'wk, 's, 'c) world" where
  "after_call E c w = w\<lparr>lib := snd (ucx E c (lib w)), calls := calls w @ [c]\<rparr>"

lemma ffi_after: "ffi E c w = (Ret (fst (ucx E c (lib w))), after_call E c w)"
  by (simp add: ffi_def after_call_def split: prod.split)

text \<open>
  An operation whose call fails at once returns the error the library reported, after exactly
  one call and with no request to wait for or to free.
\<close>

theorem immediate_failure:
  assumes "ucx_library E" "get_status E e w = (Ret (Ok ()), w)"
    and "\<forall>c. ptr_of (fst (ucx E c (lib w))) = p" "UCS_PTR_IS_ERR (binds E) p" "decode (binds E) (ucast p) = Some s"
  shows "stream_send E X e buf w = (Ret (Err (error_of_status s)), after_call E (Ucp_stream_send_nb (ep_handle e)
       (Bytes (as_ptr buf)) (slice_len buf) (ucp_dt_make_contig (binds E) 1)) w)
    \<and> put E X e buf addr rkey w = (Ret (Err (error_of_status s)), after_call E (Ucp_put_nb (ep_handle e)
       (Bytes (as_ptr buf)) (slice_len buf) addr (rkey_handle rkey)) w)
    \<and> endpoint_flush E X e w = (Ret (Err (error_of_status s)), after_call E (Ucp_ep_flush_nb (ep_handle e)) w)
    \<and> am_send E X e i hdr buf reply proto w = (Ret (Err (error_of_status s)),
        after_call E (Ucp_am_send_nbx (ep_handle e) i hdr (Bytes (as_ptr buf)) (slice_len buf)
          (am_send_param (binds E) [buf] reply proto)) w)"
  using assms stream_send.failed [OF assms(1,2) refl, of buf X] put.failed [OF assms(1,2) refl, of buf addr rkey X]
    flush.failed [OF assms(1,2) refl, of X] am_send.failed [OF assms(1,2) refl, of i hdr "[buf]" reply proto X]
  by (simp add: after_call_def am_send_def am_buffer_def)

lemma demo_status: "get_status (lawful_env Debug) demo_endpoint (mem demo_sys\<lparr>lib := u\<rparr>) =
   (Ret (Ok ()), mem demo_sys\<lparr>lib := u\<rparr>)"
  by (simp add: demo_sys_eq machine_simps get_status_def inner_check_def)

abbreviation canceled_ptr :: handle where
  "canceled_ptr \<equiv> status_ptr ucx_abi UCS_ERR_CANCELED"

lemma canceled_ptr:
  "UCS_PTR_IS_ERR ucx_abi canceled_ptr" "ucx_decode (ucast canceled_ptr) = Some UCS_ERR_CANCELED"
proof -
  show "UCS_PTR_IS_ERR ucx_abi canceled_ptr"
    by (rule ucx.status_ptr_is_err) (simp add: is_error_status_def status_codes_def)
  show "ucx_decode (ucast canceled_ptr) = Some UCS_ERR_CANCELED"
    unfolding status_ptr_def ucast_scast_id ucx_abi_code
    by (rule ucx_decode_code) (simp add: status_codes_def)
qed

theorem immediate_failure_witness:
  "fst (stream_send (lawful_env Debug) (quiet 1) demo_endpoint \<lparr>as_ptr = 16, contents = [7]\<rparr>
     (mem demo_sys\<lparr>lib := [ok_reply\<lparr>ptr_of := canceled_ptr\<rparr>]\<rparr>)) = Ret (Err Canceled)"
proof -
  let ?w = "mem demo_sys\<lparr>lib := [ok_reply\<lparr>ptr_of := canceled_ptr\<rparr>]\<rparr>"
  have err: "UCS_PTR_IS_ERR (binds (lawful_env Debug)) canceled_ptr"
    and code: "decode (binds (lawful_env Debug)) (ucast canceled_ptr) = Some UCS_ERR_CANCELED"
    using canceled_ptr by simp_all
  have "\<forall>c. ptr_of (fst (ucx (lawful_env Debug) c (lib ?w))) = canceled_ptr"
    using canceled_ptr by (simp add: lawful_def)
  from immediate_failure [OF lawful.ucx_library_axioms demo_status this err code]
  show ?thesis by simp
qed

text \<open>
  C20. A send that succeeds reports the whole length, however it completed: of the buffer, or of
  all buffers of a vectored send together, as an exact number (no wrap-around) whenever the sizes
  are those of slices that can exist together in memory.
\<close>

theorem sends_report_length:
  assumes "ucx_library E" "\<forall>s\<in>set (buf # iov). slice_ok s"
    and "sum_list (map (\<lambda>s. length (contents s)) iov) < 2 ^ 64"
  shows "(stream_send E X e buf w = (Ret (Ok n), w1) \<longrightarrow> unat n = length (contents buf))
    \<and> (tag_send E X e tag buf w = (Ret (Ok m), w2) \<longrightarrow> unat m = length (contents buf))
    \<and> (tag_send_vectored E X e tag iov w = (Ret (Ok k), w3) \<longrightarrow>
         unat k = sum_list (map (\<lambda>s. length (contents s)) iov))"
proof -
  have lens: "map (unat \<circ> slice_len) iov = map (\<lambda>s. length (contents s)) iov"
    using assms(2) by (simp add: unat_slice_len)
  obtain s where s: "usize_sum (prof E) 0 (map slice_len iov) = Ret s"
    "unat s = sum_list (map (\<lambda>s. length (contents s)) iov)"
    using usize_sum_exact [of 0 "map slice_len iov" "prof E"] assms(3) by (auto simp: lens)
  have "slice_ok buf" using assms(2) by simp
  then have "unat (slice_len buf) = length (contents buf)" by (rule unat_slice_len)
  then show ?thesis
    using s stream_send.reports [OF assms(1), of X e buf w n w1] tag_send.reports [OF assms(1), of X e tag buf w m w2]
      tag_send_vectored.reports [OF assms(1), of X e tag iov w k w3]
    by auto
qed

theorem sends_report_length_witness:
  "\<exists>n w'. tag_send_vectored (lawful_env Debug) (quiet 1) demo_endpoint 5
     [\<lparr>as_ptr = 16, contents = [7, 8]\<rparr>, \<lparr>as_ptr = 32, contents = [9]\<rparr>] (mem demo_sys) = (Ret (Ok n), w') \<and> unat n = 3"
proof -
  let ?iov = "[\<lparr>as_ptr = 16, contents = [7, 8]\<rparr>, \<lparr>as_ptr = 32, contents = [9 :: u8]\<rparr>]"
  let ?run = "tag_send_vectored (lawful_env Debug) (quiet 1) demo_endpoint 5 ?iov (mem demo_sys)"
  have ok: "?run = (Ret (Ok 3), snd ?run)"
    by (simp add: demo_sys_eq machine_simps tag_send_vectored_def get_handle_def inner_check_def on_status_ptr_def
        slice_len_def usize_add_def)
  from sends_report_length [OF lawful.ucx_library_axioms, where buf = "hd ?iov" and iov = ?iov] ok
  have "unat (3 :: usize) = 3" by (simp add: slice_ok_def)
  with ok show ?thesis by (intro exI [of _ 3] exI [of _ "snd ?run"]) simp
qed

text \<open>
  Exactly one request is freed by a send that had to wait and returned, none by one that is
  still suspended: neither a leak nor a double free.
\<close>

theorem tag_send_frees_once:
  assumes "ucx_library E" "get_status E e w = (Ret (Ok ()), w)"
    and "ptr = ptr_of (fst (ucx E call (lib w)))" "ptr \<noteq> 0" "\<not> UCS_PTR_IS_ERR (binds E) ptr"
    and "call = Ucp_tag_send_nb (ep_handle e) (Bytes (as_ptr buf)) (slice_len buf) (ucp_dt_make_contig (binds E) 1) tag"
    and "\<forall>v. frees ptr (x_others X v) = frees ptr v"
    and "tag_send E X e tag buf w = (res, w')"
  shows "frees ptr w' = frees ptr w + (case res of Ret _ \<Rightarrow> 1 | _ \<Rightarrow> 0)"
  using tag_send.freed_once [OF assms(1,2) refl, of buf tag X res w'] assms(3-) by simp

theorem tag_send_frees_once_witness:
  "frees 64 (snd (tag_send (lawful_env Debug) (quiet 1) demo_endpoint 5 \<lparr>as_ptr = 16, contents = [7]\<rparr>
     (mem demo_sys\<lparr>lib := [ok_reply\<lparr>ptr_of := 64\<rparr>]\<rparr>))) = frees 64 (mem demo_sys) + 1"
proof -
  let ?w = "mem demo_sys\<lparr>lib := [ok_reply\<lparr>ptr_of := 64\<rparr>]\<rparr>" and ?buf = "\<lparr>as_ptr = 16, contents = [7 :: u8]\<rparr>"
  let ?run = "tag_send (lawful_env Debug) (quiet 1) demo_endpoint 5 ?buf ?w"
  have not_err: "\<not> UCS_PTR_IS_ERR ucx_abi 64"
    by (simp add: UCS_PTR_IS_ERR_def err_last_def)
  then have ret: "fst ?run = Ret (Ok 1)"
    by (simp add: demo_sys_eq machine_simps tag_send_def get_handle_def inner_check_def on_status_ptr_def
        slice_len_def quiet_def await_ptr_def UCS_PTR_IS_PTR_def usize_sub_def err_last_def
        request_poll_def poll_normal_def request_drop_def)
  have ptr: "64 = ptr_of (fst (ucx (lawful_env Debug) c (lib ?w)))" for c
    using not_err by (simp add: lawful_def)
  have quiet_frees: "\<forall>v. frees 64 (x_others (quiet 1) v) = frees 64 v" by (simp add: quiet_def)
  from tag_send_frees_once [OF lawful.ucx_library_axioms demo_status ptr _ _ refl quiet_frees,
      where res = "fst ?run" and w' = "snd ?run"]
  show ?thesis using ret not_err by simp
qed

text \<open>
  A one-sided \<^verbatim>\<open>get\<close> that has to wait returns what its request reports: success, or the error
  of the completion, in the round in which the library completes it.
\<close>

theorem get_completes:
  assumes "ucx_library E" "get_status E e w = (Ret (Ok ()), w)"
    and "call = Ucp_get_nb (ep_handle e) (Bytes (as_ptr buf)) (slice_len buf) addr (rkey_handle rkey)"
    and "ptr = ptr_of (fst (ucx E call (lib w)))" "ptr \<noteq> 0" "\<not> UCS_PTR_IS_ERR (binds E) ptr"
    and "keeps_request ptr (x_others X)" "reqs w ptr \<noteq> None"
    and "rounds = (\<lambda>i. (park E ptr (x_task X) (x_others X) ^^ i) (after_call E call w))"
    and "\<forall>i<k. fst (poll_normal E ptr (rounds i)) = Ret Pending"
    and "fst (poll_normal E ptr (rounds k)) = Ret (Ready res)" "k < x_polls X"
  shows "get E X e buf addr rkey w = (Ret res, snd (request_drop E ptr (rounds k)))"
proof -
  have "map_sum (\<lambda>err. err) (\<lambda>_. ()) res = res" by (cases res) simp_all
  then show ?thesis
    using get.completed [OF assms(1,2) refl, of buf addr rkey X k res] assms(3-)
    by (simp add: after_call_def)
qed

theorem get_completes_witness:
  "fst (get (lawful_env Debug) (quiet 1) demo_endpoint \<lparr>as_ptr = 16, contents = [0, 0]\<rparr> 4096 \<lparr>rkey_handle = 3\<rparr>
     (mem demo_sys\<lparr>lib := [ok_reply\<lparr>ptr_of := 64\<rparr>, ok_reply\<lparr>status_of := UCS_ERR_UNREACHABLE\<rparr>], reqs := [64 \<mapsto> None]\<rparr>))
   = Ret (Err Unreachable)"
proof -
  let ?w = "mem demo_sys\<lparr>lib := [ok_reply\<lparr>ptr_of := 64\<rparr>, ok_reply\<lparr>status_of := UCS_ERR_UNREACHABLE\<rparr>],
     reqs := [64 \<mapsto> None]\<rparr>"
  let ?E = "lawful_env Debug" and ?X = "quiet 1 :: (reply list, nat option, unit, unit) world executor"
  let ?buf = "\<lparr>as_ptr = 16, contents = [0, 0 :: u8]\<rparr>" and ?rkey = "\<lparr>rkey_handle = 3\<rparr>"
  let ?call = "Ucp_get_nb (ep_handle demo_endpoint) (Bytes (as_ptr ?buf)) (slice_len ?buf) 4096 (rkey_handle ?rkey)"
  let ?rounds = "\<lambda>i. (park ?E 64 (x_task ?X) (x_others ?X) ^^ i) (after_call ?E ?call ?w)"
  have not_err: "\<not> UCS_PTR_IS_ERR ucx_abi 64"
    by (simp add: UCS_PTR_IS_ERR_def err_last_def)
  have status: "get_status ?E demo_endpoint ?w = (Ret (Ok ()), ?w)"
    by (simp add: demo_sys_eq machine_simps get_status_def inner_check_def)
  have ptr: "64 = ptr_of (fst (ucx ?E ?call (lib ?w)))"
    using not_err by (simp add: lawful_def)
  have keeps: "keeps_request 64 (x_others ?X)" by (simp add: keeps_request_def quiet_def)
  have ready: "fst (poll_normal ?E 64 (?rounds 0)) = Ret (Ready (Err Unreachable))"
    by (simp add: poll_normal_def bind_def query_def ret_def lift_def lawful_def after_call_def)
  have "get ?E ?X demo_endpoint ?buf 4096 ?rkey ?w = (Ret (Err Unreachable), snd (request_drop ?E 64 (?rounds 0)))"
    by (rule get_completes [OF lawful.ucx_library_axioms status refl ptr _ _ keeps _ refl _ ready])
      (use not_err in \<open>simp_all add: quiet_def\<close>)
  then show ?thesis by simp
qed

text \<open>
  A tagged receive hands out what the library reports about the message: its length when it
  arrived, the error otherwise (a message longer than the buffer, a cancelled request).
\<close>

theorem tag_recv_reports:
  assumes "ucx_library E" "rc_get wk (workers w) = (Ret v, workers w)"
    and "call = Ucp_tag_recv_nb (w_handle v) (Bytes (as_ptr buf)) (slice_len buf) (ucp_dt_make_contig (binds E) 1) tag (- 1)"
    and "ptr = ptr_of (fst (ucx E call (lib w)))" "\<not> UCS_PTR_IS_ERR (binds E) ptr"
    and "keeps_request ptr (x_others X)" "reqs w ptr \<noteq> None"
    and "rounds = (\<lambda>i. (park E ptr (x_task X) (x_others X) ^^ i) (after_call E call w))"
    and "\<forall>i<k. fst (poll_tag E ptr (rounds i)) = Ret Pending" "k < x_polls X"
    and "r = fst (ucx E (Ucp_tag_recv_request_test ptr) (lib (rounds k)))" "status_of r \<noteq> UCS_INPROGRESS"
  shows "tag_recv E X wk tag buf w =
    (Ret (if status_of r = UCS_OK then Ok (the (out_len r)) else Err (error_of_status (status_of r))),
     snd (request_drop E ptr (rounds k)))"
proof -
  let ?res = "if status_of r = UCS_OK then Ok (the (out_word r), the (out_len r))
    else Err (error_of_status (status_of r))"
  have ready: "fst (poll_tag E ptr (rounds k)) = Ret (Ready ?res)"
    using assms(11,12) ucx_library.written [OF assms(1), of "Ucp_tag_recv_request_test ptr" "lib (rounds k)"]
    by (auto simp: poll_tag_def bind_def query_def ret_def lift_def from_error_def)
  have "await_ptr E X (poll_tag E) ptr (after_call E call w) = (Ret ?res, snd (request_drop E ptr (rounds k)))"
    unfolding await_ptr_def assms(8)
    by (rule await_completes) (use assms(6-10) ready in \<open>simp_all add: after_call_def\<close>)
  moreover have "from_ptr (prof E) (binds E) ptr = Ret (Ok ())"
    using ucx_library.from_returned [OF assms(1), of "prof E" call "lib w"] assms(4,5) by simp
  moreover have "worker_call E wk (\<lambda>h. Ucp_tag_recv_nb h (Bytes (as_ptr buf)) (slice_len buf)
      (ucp_dt_make_contig (binds E) 1) tag (- 1)) w = (Ret (fst (ucx E call (lib w))), after_call E call w)"
    by (simp add: worker_call_def bind_def on_workers_def assms(2,3) ffi_after)
  ultimately show ?thesis
    by (simp add: tag_recv_def tag_recv_mask_def bind_def try_bind_def ret_def assms(4) [symmetric])
qed

theorem tag_recv_reports_witness:
  "fst (tag_recv (lawful_env Debug) (quiet 1) 0 5 \<lparr>as_ptr = 16, contents = [0]\<rparr>
     (mem demo_sys\<lparr>lib := [ok_reply\<lparr>ptr_of := 64\<rparr>, ok_reply\<lparr>status_of := UCS_ERR_MESSAGE_TRUNCATED\<rparr>], reqs := [64 \<mapsto> None]\<rparr>))
   = Ret (Err MessageTruncated)"
proof -
  let ?w = "mem demo_sys\<lparr>lib := [ok_reply\<lparr>ptr_of := 64\<rparr>, ok_reply\<lparr>status_of := UCS_ERR_MESSAGE_TRUNCATED\<rparr>],
     reqs := [64 \<mapsto> None]\<rparr>"
  let ?E = "lawful_env Debug" and ?X = "quiet 1 :: (reply list, nat option, unit, unit) world executor"
  let ?buf = "\<lparr>as_ptr = 16, contents = [0 :: u8]\<rparr>"
  let ?v = "\<lparr>w_handle = 0, w_context = 0, am_streams = []\<rparr>"
  let ?call = "Ucp_tag_recv_nb (w_handle ?v) (Bytes (as_ptr ?buf)) (slice_len ?buf) (ucp_dt_make_contig (binds ?E) 1) 5 (- 1)"
  have worker: "rc_get 0 (workers ?w) = (Ret ?v, workers ?w)"
    by (simp add: demo_sys_eq rc_get_def)
  have not_err: "\<not> UCS_PTR_IS_ERR (binds ?E) 64"
    by (simp add: UCS_PTR_IS_ERR_def err_last_def)
  then have ptr: "64 = ptr_of (fst (ucx ?E ?call (lib ?w)))" by (simp add: lawful_def)
  have keeps: "keeps_request 64 (x_others ?X)" by (simp add: keeps_request_def quiet_def)
  from tag_recv_reports [OF lawful.ucx_library_axioms worker refl ptr not_err keeps _ refl, of 0]
  show ?thesis
    by (simp add: quiet_def after_call_def lawful_def)
qed

text \<open>
  C34. A stream receive that had to wait returns the length the library wrote, whatever the status
  of the completed request: a failed receive is reported as a success.
\<close>

theorem stream_recv_ignores_status:
  assumes "ucx_library E" "get_status E e w = (Ret (Ok ()), w)"
    and "call = Ucp_stream_recv_nb (ep_handle e) (Bytes (as_ptr buf)) (slice_len buf) (ucp_dt_make_contig (binds E) 1)"
    and "ptr = ptr_of (fst (ucx E call (lib w)))" "ptr \<noteq> 0" "\<not> UCS_PTR_IS_ERR (binds E) ptr"
    and "keeps_request ptr (x_others X)" "reqs w ptr \<noteq> None"
    and "rounds = (\<lambda>i. (park E ptr (x_task X) (x_others X) ^^ i) (after_call E call w))"
    and "\<forall>i<k. fst (poll_stream E ptr (rounds i)) = Ret Pending" "k < x_polls X"
    and "r = fst (ucx E (Ucp_stream_recv_request_test ptr) (lib (rounds k)))" "status_of r \<noteq> UCS_INPROGRESS"
    and "out_len r = Some n"
  shows "stream_recv E X e buf w = (Ret (Ok n), snd (request_drop E ptr (rounds k)))"
proof -
  have ready: "fst (poll_stream E ptr (rounds k)) = Ret (Ready n)"
    using assms(12-14) by (simp add: poll_stream_def bind_def query_def ret_def lift_def)
  have "await_ptr E X (poll_stream E) ptr (after_call E call w) = (Ret n, snd (request_drop E ptr (rounds k)))"
    unfolding await_ptr_def assms(9)
    by (rule await_completes) (use assms(7-11) ready in \<open>simp_all add: after_call_def\<close>)
  moreover have "UCS_PTR_IS_PTR (prof E) (binds E) ptr = Ret True"
    using status_abi.trichotomy [of "binds E" ptr "prof E"] ucx_library.axioms(1) [OF assms(1)] assms(5,6) by simp
  moreover have "ffi E call w = (Ret (fst (ucx E call (lib w))), after_call E call w)"
    by (simp add: ffi_after)
  ultimately show ?thesis
    using assms(2,5)
    by (simp add: stream_recv_def get_handle_def get_status_def try_bind_def bind_def ret_def on_status_ptr_def
        assms(3) [symmetric] assms(4) [symmetric])
qed

theorem stream_recv_ignores_status_witness:
  "fst (stream_recv (lawful_env Debug) (quiet 1) demo_endpoint \<lparr>as_ptr = 16, contents = [0]\<rparr>
     (mem demo_sys\<lparr>lib := [ok_reply\<lparr>ptr_of := 64\<rparr>, ok_reply\<lparr>status_of := UCS_ERR_CANCELED\<rparr>], reqs := [64 \<mapsto> None]\<rparr>))
   = Ret (Ok 0)"
proof -
  let ?w = "mem demo_sys\<lparr>lib := [ok_reply\<lparr>ptr_of := 64\<rparr>, ok_reply\<lparr>status_of := UCS_ERR_CANCELED\<rparr>],
     reqs := [64 \<mapsto> None]\<rparr>"
  let ?E = "lawful_env Debug" and ?X = "quiet 1 :: (reply list, nat option, unit, unit) world executor"
  let ?buf = "\<lparr>as_ptr = 16, contents = [0 :: u8]\<rparr>"
  let ?call = "Ucp_stream_recv_nb (ep_handle demo_endpoint) (Bytes (as_ptr ?buf)) (slice_len ?buf)
    (ucp_dt_make_contig (binds ?E) 1)"
  have status: "get_status ?E demo_endpoint ?w = (Ret (Ok ()), ?w)"
    by (simp add: demo_sys_eq machine_simps get_status_def inner_check_def)
  have not_err: "\<not> UCS_PTR_IS_ERR (binds ?E) 64"
    by (simp add: UCS_PTR_IS_ERR_def err_last_def)
  then have ptr: "64 = ptr_of (fst (ucx ?E ?call (lib ?w)))" by (simp add: lawful_def)
  have keeps: "keeps_request 64 (x_others ?X)" by (simp add: keeps_request_def quiet_def)
  from stream_recv_ignores_status [OF lawful.ucx_library_axioms status refl ptr _ not_err keeps _ refl, of 0]
  show ?thesis
    by (simp add: quiet_def after_call_def lawful_def ok_reply_def)
qed

text \<open>
  A connection whose first message fails leaves nothing behind: \<^verbatim>\<open>connect_socket\<close> returns the
  error, and the endpoint it had created is closed, its state freed and its worker released.
\<close>

theorem failed_connect_releases:
  fixes w :: "('u, 'wk, 's, 'c) world"
  assumes lib: "ucx_library E" and own: "owns w R" and held: "0 < worker_refs w R wk"
    and fails: "\<forall>h u. UCS_PTR_IS_ERR (binds E) (ptr_of (fst (ucx E (Ucp_stream_send_nb h (Bytes buf) 4
      (ucp_dt_make_contig (binds E) 1)) u)))"
  shows "\<exists>err w'. connect_socket E X wk addr buf w = (Ret (Err err), w') \<and> owns w' R
    \<and> cells (inners w') (next_addr (inners w)) = None"
proof -
  let ?a = "next_addr (inners w)" and ?bytes = "\<lparr>as_ptr = buf, contents = [0, 1, 2, 3 :: u8]\<rparr>"
  have zero: "r_endpoints R ?a = 0"
    using owns_parts(7,8) [OF own] by (auto simp: heap_fresh_def intro: endpoints_None)
  have "does (connect_socket E X wk addr buf) w (\<lambda>res w'. (\<exists>err. res = Err err) \<and> owns w' R
    \<and> cells (inners w') ?a = None)"
    unfolding connect_socket_def does_try_bind
  proof (rule does_mono [OF ucx_library.endpoint_create_owned [OF lib own held]])
    fix res :: "(Endpoint, Error) result" and v :: "('u, 'wk, 's, 'c) world"
    assume v: "same_inners_but ?a w v \<and> (case res of
       Inl _ \<Rightarrow> owns v R \<and> cells (inners v) ?a = None
     | Inr e \<Rightarrow> ep_inner e = ?a \<and> owns v (R\<lparr>r_endpoints := inc (ep_inner e) (r_endpoints R)\<rparr>)
         \<and> cells (inners v) (ep_inner e) = Some \<lparr>strong = 1, weak = 1, val = inner_new wk\<rparr>)"
    show "case res of
        Inl err \<Rightarrow> (\<exists>e. Err err = Err e) \<and> owns v R \<and> cells (inners v) ?a = None
      | Inr e \<Rightarrow> does (bind (stream_send E X e ?bytes) (\<lambda>sent. case sent of
            Inl err \<Rightarrow> bind (endpoint_drop E e) (\<lambda>_. ret (Err err)) | Inr _ \<Rightarrow> ret (Ok e))) v
          (\<lambda>res w'. (\<exists>err. res = Err err) \<and> owns w' R \<and> cells (inners w') ?a = None)"
    proof (cases res)
      case (Inl err)
      with v show ?thesis by simp
    next
      case (Inr e)
      let ?S = "R\<lparr>r_endpoints := inc ?a (r_endpoints R)\<rparr>"
      let ?c = "Ucp_stream_send_nb (ep_handle e) (Bytes buf) 4 (ucp_dt_make_contig (binds E) 1)"
      have e: "ep_inner e = ?a" "owns v ?S"
        and cell: "cells (inners v) (ep_inner e) = Some \<lparr>strong = 1, weak = 1, val = inner_new wk\<rparr>"
        using v Inr by auto
      have ok: "get_status E e v = (Ret (Ok ()), v)"
        using inner_reads(2) [OF cell, of E] by (simp add: get_status_def inner_new_def)
      have len: "slice_len ?bytes = 4" by (simp add: slice_len_def)
      obtain err where sent: "stream_send E X e ?bytes v = (Ret (Err err), after_call E ?c v)"
        using stream_send.failed [OF lib ok refl, of ?bytes X] fails by (simp add: len after_call_def)
      have "owns (after_call E ?c v) ?S" using e(2) by (simp add: after_call_def)
      then have "does (endpoint_drop E e) (after_call E ?c v) (\<lambda>_ w'. owns w' R)"
        using zero e(1) by (intro does_mono [OF ucx_library.endpoint_drop_owned [OF lib, of _ ?S]])
          (auto simp: fun_upd_idem)
      then have "does (endpoint_drop E e) (after_call E ?c v) (\<lambda>_ w'. owns w' R \<and> cells (inners w') ?a = None)"
      proof (rule does_mono)
        fix x and u :: "('u, 'wk, 's, 'c) world" assume u: "owns u R"
        show "owns u R \<and> cells (inners u) ?a = None"
          using endpoints_cell [OF owns_parts(8) [OF u], of ?a] zero u by (cases "cells (inners u) ?a") auto
      qed
      then show ?thesis
        by (simp add: Inr does_def bind_def sent) (auto simp: ret_def)
    qed
  qed
  then show ?thesis by (auto simp: does_def)
qed

text \<open>A library on which every send fails at once.\<close>

definition failing_env :: "(reply list, nat option) env" where
  "failing_env = \<lparr>prof = Debug, binds = ucx_abi, ucx = (\<lambda>c u. (ok_reply\<lparr>ptr_of :=
     (case c of Ucp_stream_send_nb h b n t \<Rightarrow> canceled_ptr | _ \<Rightarrow> 0)\<rparr>, u)), waker_ops = option_waker\<rparr>"

interpretation failing: ucx_library failing_env
proof -
  have abi: "binds failing_env = ucx_abi" by (simp add: failing_env_def)
  have outs: "writes_outputs failing_env"
    by (simp add: writes_outputs_def failing_env_def ok_reply_def)
  have ptrs: "valid_pointers failing_env"
    using canceled_ptr(2) by (auto simp: valid_pointers_def failing_env_def ok_reply_def split: ffi_call.split)
  show "ucx_library failing_env"
    by (intro ucx_library.intro ucx_library_axioms.intro outs ptrs)
      (unfold abi, rule ucx.status_abi_axioms)
qed

theorem failed_connect_releases_witness:
  "\<exists>err w'. connect_socket failing_env (quiet 1) 0 [127, 0, 0, 1] 4096 (mem demo_sys) = (Ret (Err err), w')
     \<and> cells (inners w') 1 = None"
proof -
  have held: "0 < worker_refs (mem demo_sys) (refs_of demo_sys) 0"
    by (simp add: worker_refs_def refs_of_simps demo_sys_simps)
  have "\<forall>h u. UCS_PTR_IS_ERR (binds failing_env) (ptr_of (fst (ucx failing_env
      (Ucp_stream_send_nb h (Bytes 4096) 4 (ucp_dt_make_contig (binds failing_env) 1)) u)))"
    using canceled_ptr(1) by (simp add: failing_env_def)
  from failed_connect_releases [OF failing.ucx_library_axioms demo_owns(1) held this, of "quiet 1" "[127, 0, 0, 1]"]
  have "\<exists>err w'. connect_socket failing_env (quiet 1) 0 [127, 0, 0, 1] 4096 (mem demo_sys) = (Ret (Err err), w')
     \<and> cells (inners w') (next_addr (inners (mem demo_sys))) = None"
    by (elim exE conjE) (intro exI conjI)
  then show ?thesis by (simp add: demo_sys_eq)
qed

end
