(* ===== verification/AmMsg.thy ===== *)
theory AmMsg
  imports AmData Transfers
begin

text \<open>
  Received active messages, second part: \<^verbatim>\<open>AmMsg\<close> of \<^verbatim>\<open>src/ucp/endpoint/am.rs\<close> with its accessors,
  the three ways to receive its data, replies, and its drop.
\<close>

section \<open>\<^verbatim>\<open>AmMsg\<close>\<close>

record AmMsg =
  m_worker :: nat
  msg :: RawMsg

definition am_id :: "AmMsg \<Rightarrow> u16" where
  "am_id m = msg_id (msg m)"

definition am_header :: "AmMsg \<Rightarrow> u8 list" where
  "am_header m = msg_header (msg m)"

definition contains_data :: "AmMsg \<Rightarrow> bool" where
  "contains_data m \<longleftrightarrow> msg_data (msg m) \<noteq> None"

definition am_msg_data_type :: "AmMsg \<Rightarrow> AmDataType option" where
  "am_msg_data_type m = map_option am_data_type (msg_data (msg m))"

definition get_data :: "AmMsg \<Rightarrow> u8 list option" where
  "get_data m = (case msg_data (msg m) of Some d \<Rightarrow> am_data_bytes d | None \<Rightarrow> Some [])"

definition data_len :: "AmMsg \<Rightarrow> nat" where
  "data_len m = (case msg_data (msg m) of Some d \<Rightarrow> am_data_len d | None \<Rightarrow> 0)"

definition need_reply :: "abi \<Rightarrow> AmMsg \<Rightarrow> bool" where
  "need_reply B m \<longleftrightarrow> has_flag (msg_attr (msg m)) (num B UCP_AM_RECV_ATTR_FIELD_REPLY_EP) \<and> reply_ep (msg m) \<noteq> 0"

text \<open>\<^verbatim>\<open>self.msg.data.take()\<close> leaves \<open>None\<close>.\<close>

definition take_data :: "AmMsg \<Rightarrow> AmMsg" where
  "take_data m = m\<lparr>msg := (msg m)\<lparr>msg_data := None\<rparr>\<rparr>"

text \<open>\<^verbatim>\<open>drop_msg\<close> gives a descriptor back to the library.\<close>

definition drop_msg :: "('u, 'wk) env \<Rightarrow> AmMsg \<Rightarrow> AmData \<Rightarrow> (('u, 'wk, 's, 'c) world, unit) prog" where
  "drop_msg E m data = (case descriptor data of
       None \<Rightarrow> ret ()
     | Some desc \<Rightarrow> bind (worker_call E (m_worker m) (\<lambda>h. Ucp_am_data_release h desc)) (\<lambda>_. ret ()))"

text \<open>\<^verbatim>\<open>AmMsg::drop\<close>.\<close>

definition am_msg_drop :: "('u, 'wk) env \<Rightarrow> AmMsg \<Rightarrow> (('u, 'wk, 's, 'c) world, unit) prog" where
  "am_msg_drop E m = (case msg_data (msg m) of Some data \<Rightarrow> drop_msg E m data | None \<Rightarrow> ret ())"

section \<open>Receiving the data\<close>

text \<open>The flags field is not set: it is not read, as the mask does not name it.\<close>

definition am_recv_param :: "abi \<Rightarrow> slice list \<Rightarrow> request_param" where
  "am_recv_param B iov =
     \<lparr>op_attr_mask = num32 B UCP_OP_ATTR_FIELD_CALLBACK OR num32 B UCP_OP_ATTR_FIELD_DATATYPE,
      req_flags = 0,
      data_type = am_datatype B iov\<rparr>"

text \<open>
  \<^verbatim>\<open>recv_data_vectored\<close> returns its result, the buffers and the message as it leaves them. What a
  rendezvous receive writes into the buffers is the library's work, so they are returned as given.
\<close>

definition recv_data_vectored ::
  "('u, 'wk) env \<Rightarrow> ('u, 'wk, 's, 'c) world executor \<Rightarrow> AmMsg \<Rightarrow> slice list \<Rightarrow>
   (('u, 'wk, 's, 'c) world, (usize, Error) result \<times> slice list \<times> AmMsg) prog" where
  "recv_data_vectored E X m iov = (case msg_data (msg m) of
       Some (Eager data) \<Rightarrow>
         bind (lift (copy_data_to_iov (prof E) data iov)) (\<lambda>(res, iov'). ret (res, iov', take_data m))
     | Some (Data data) \<Rightarrow>
         bind (lift (copy_data_to_iov (prof E) (contents data) iov)) (\<lambda>(res, iov'). case res of
             Inl err \<Rightarrow> ret (Err err, iov', take_data m)
           | Inr n \<Rightarrow> bind (drop_msg E m (Data data)) (\<lambda>_. ret (Ok n, iov', take_data m)))
     | Some (Rndv desc) \<Rightarrow>
         (let (buffer, count) = am_buffer iov
          in bind (worker_call E (m_worker m) (\<lambda>h. Ucp_am_recv_data_nbx h (as_ptr desc) buffer count
                     (am_recv_param (binds E) iov))) (\<lambda>r.
             bind (on_status_ptr E (ptr_of r)
                 (ret (Ok (slice_len desc)))
                 (bind (await_ptr E X (poll_recv E) (ptr_of r)) (\<lambda>_. ret (Ok (slice_len desc))))
                 (ptr_error E (ptr_of r))) (\<lambda>res.
               ret (res, iov, take_data m))))
     | None \<Rightarrow> ret (Ok 0, iov, take_data m))"

definition recv_data_single ::
  "('u, 'wk) env \<Rightarrow> ('u, 'wk, 's, 'c) world executor \<Rightarrow> AmMsg \<Rightarrow> slice \<Rightarrow>
   (('u, 'wk, 's, 'c) world, (usize, Error) result \<times> slice list \<times> AmMsg) prog" where
  "recv_data_single E X m buf =
     (if \<not> contains_data m then ret (Ok 0, [buf], m) else recv_data_vectored E X m [buf])"

text \<open>
  \<^verbatim>\<open>recv_data\<close>. For a rendezvous message it receives into a new vector of the announced length,
  which is \<open>buf\<close>: its address, and the bytes that are in it when the receive is over.
\<close>

definition recv_data ::
  "('u, 'wk) env \<Rightarrow> ('u, 'wk, 's, 'c) world executor \<Rightarrow> AmMsg \<Rightarrow> slice \<Rightarrow>
   (('u, 'wk, 's, 'c) world, (u8 list, Error) result \<times> AmMsg) prog" where
  "recv_data E X m buf = (case msg_data (msg m) of
       None \<Rightarrow> ret (Ok [], m)
     | Some (Eager vec) \<Rightarrow> ret (Ok vec, take_data m)
     | Some (Data data) \<Rightarrow> bind (drop_msg E m (Data data)) (\<lambda>_. ret (Ok (contents data), take_data m))
     | Some (Rndv desc) \<Rightarrow>
         bind (recv_data_single E X m buf) (\<lambda>(res, iov, m'). case res of
             Inl err \<Rightarrow> ret (Err err, m')
           | Inr recv_size \<Rightarrow> ret (Ok (take (unat recv_size) (contents buf)), m')))"

section \<open>Replies\<close>

definition reply_vectorized ::
  "('u, 'wk) env \<Rightarrow> ('u, 'wk, 's, 'c) world executor \<Rightarrow> AmMsg \<Rightarrow> u32 \<Rightarrow> slice \<Rightarrow> slice list \<Rightarrow> bool \<Rightarrow>
   AmProto option \<Rightarrow> (('u, 'wk, 's, 'c) world, (unit, Error) result) prog" where
  "reply_vectorized E X m i header data again proto =
     (if \<not> need_reply (binds E) m then lift (Fault (Panic Assertion_failed))
      else am_send_raw E X (reply_ep (msg m)) i header data again proto)"

definition am_reply ::
  "('u, 'wk) env \<Rightarrow> ('u, 'wk, 's, 'c) world executor \<Rightarrow> AmMsg \<Rightarrow> u32 \<Rightarrow> slice \<Rightarrow> slice \<Rightarrow> bool \<Rightarrow>
   AmProto option \<Rightarrow> (('u, 'wk, 's, 'c) world, (unit, Error) result) prog" where
  "am_reply E X m i header data again proto =
     (if \<not> need_reply (binds E) m then lift (Fault (Panic Assertion_failed))
      else reply_vectorized E X m i header [data] again proto)"


section \<open>Who gives the descriptor back\<close>

text \<open>How often a descriptor was handed back to the library, by release or by receiving from it.\<close>

fun gives_back :: "handle \<Rightarrow> ffi_call \<Rightarrow> bool" where
  "gives_back desc (Ucp_am_data_release h d) = (d = desc)"
| "gives_back desc (Ucp_am_recv_data_nbx h d b n p) = (d = desc)"
| "gives_back desc _ = False"

definition returns_of :: "handle \<Rightarrow> ('u, 'wk, 's, 'c) world \<Rightarrow> nat" where
  "returns_of desc w = length (filter (gives_back desc) (calls w))"

definition worker_alive :: "nat \<Rightarrow> ('u, 'wk, 's, 'c) world \<Rightarrow> bool" where
  "worker_alive k w \<longleftrightarrow> (\<exists>v. rc_get k (workers w) = (Ret v, workers w))"

lemma worker_call_alive:
  fixes w :: "('u, 'wk, 's, 'c) world" and E :: "('u, 'wk) env"
  assumes "worker_alive k w"
  obtains h where "\<And>call. worker_call E k call w = (Ret (fst (ucx E (call h) (lib w))),
    w\<lparr>lib := snd (ucx E (call h) (lib w)), calls := calls w @ [call h]\<rparr>)"
proof -
  obtain v where "rc_get k (workers w) = (Ret v, workers w)"
    using assms by (auto simp: worker_alive_def)
  then have "worker_call E k call w = (Ret (fst (ucx E (call (w_handle v)) (lib w))),
    w\<lparr>lib := snd (ucx E (call (w_handle v)) (lib w)), calls := calls w @ [call (w_handle v)]\<rparr>)"
    for call
    by (simp add: worker_call_def bind_def on_workers_def ffi_def split: prod.split)
  from that [OF this] show ?thesis .
qed

lemma drop_msg_effect:
  assumes "worker_alive (m_worker m) w"
  shows "\<exists>u cs. drop_msg E m d w = (Ret (), w\<lparr>lib := u, calls := calls w @ cs\<rparr>)
    \<and> (\<forall>desc. length (filter (gives_back desc) cs) = (if descriptor d = Some desc then 1 else 0))"
proof (cases "descriptor d")
  case None
  then show ?thesis
    by (intro exI [of _ "lib w"] exI [of _ "[]"]) (simp add: drop_msg_def ret_def)
next
  case (Some a)
  obtain h where call: "\<And>call. worker_call E (m_worker m) call w = (Ret (fst (ucx E (call h) (lib w))),
    w\<lparr>lib := snd (ucx E (call h) (lib w)), calls := calls w @ [call h]\<rparr>)"
    by (rule worker_call_alive [where E = E, OF assms]) (rule that)
  show ?thesis
    by (intro exI [of _ "snd (ucx E (Ucp_am_data_release h a) (lib w))"] exI [of _ "[Ucp_am_data_release h a]"])
      (simp add: drop_msg_def Some bind_def call ret_def)
qed

lemma has_flag_or: "has_flag attr (a OR b) \<longleftrightarrow> has_flag attr a \<or> has_flag attr b"
  by (auto simp: has_flag_def bit_eq_iff bit_simps)

lemma taken_drop [simp]: "am_msg_drop E (take_data m) = ret ()"
  by (simp add: am_msg_drop_def take_data_def)

lemma keeps_returns [simp]:
  "keeps (\<lambda>w. returns_of desc w = n) (on_workers m1)"
  "\<not> gives_back desc c \<Longrightarrow> keeps (\<lambda>w. returns_of desc w = n) (ffi E c)"
  "keeps (\<lambda>w. returns_of desc w = n) (register_waker E ptr t)"
  by (simp_all add: keeps_def returns_of_def on_defs ffi_def register_waker_def split: prod.split option.split)

lemma keeps_returns_poll [simp]: "keeps (\<lambda>w. returns_of desc w = n) (poll_recv E ptr)"
  by (auto simp: poll_recv_def intro!: keeps_bind)

lemma keeps_returns_await:
  assumes "\<forall>v. returns_of desc (others v) = returns_of desc v"
  shows "keeps (\<lambda>w. returns_of desc w = n) (await_request E (poll_recv E) ptr t others k)"
proof (induction k)
  case 0
  then show ?case by simp
next
  case (Suc k)
  then show ?case
    using assms by (auto simp: request_poll_def request_drop_def keeps_def [of _ "modify others"] modify_def
        intro!: keeps_bind split: poll.split)
qed

section \<open>Properties\<close>

text \<open>
  What the callback answers matches who owns the descriptor: for a message with data it says
  \<open>UCS_INPROGRESS\<close> (the library must keep the descriptor) exactly when the message holds the
  descriptor, and after \<open>UCS_OK\<close> (the library may reuse it) the message has a copy of the bytes.
\<close>

theorem callback_matches_ownership:
  assumes "contents data \<noteq> []"
  shows "(am_callback_status B attr = UCS_INPROGRESS \<longleftrightarrow>
       (\<exists>d. am_data_from_raw B data attr = Some d \<and> descriptor d = Some (as_ptr data)))
    \<and> (am_callback_status B attr = UCS_OK \<longleftrightarrow> am_data_from_raw B data attr = Some (Eager (contents data)))"
  using assms by (simp add: am_callback_status_def am_data_from_raw_def has_flag_or)

theorem callback_matches_ownership_witness:
  "am_callback_status ucx_abi 0x10000 = UCS_INPROGRESS \<and> am_callback_status ucx_abi 1 = UCS_OK"
  using callback_matches_ownership [of "\<lparr>as_ptr = 16, contents = [1]\<rparr>" ucx_abi "0x10000"]
    callback_matches_ownership [of "\<lparr>as_ptr = 16, contents = [1]\<rparr>" ucx_abi 1]
  by (simp add: am_data_from_raw_def has_flag_def)

text \<open>
  The exception: for a message without data but with one of the flags the callback also says
  that the descriptor is kept, and the message does not hold it, so that dropping the message gives
  nothing back.
\<close>

theorem empty_message_keeps_descriptor:
  assumes "contents data = []" "has_flag attr (num (binds E) UCP_AM_RECV_ATTR_FLAG_DATA)"
  shows "am_callback_status (binds E) attr = UCS_INPROGRESS
    \<and> am_msg_drop E \<lparr>m_worker = k, msg = raw_msg_from_raw (binds E) i header data rep attr\<rparr> w = (Ret (), w)"
  using assms by (simp add: am_callback_status_def has_flag_or am_msg_drop_def raw_msg_from_raw_def
      am_data_from_raw_def ret_def)

theorem empty_message_keeps_descriptor_witness:
  "am_callback_status ucx_abi 0x10000 = UCS_INPROGRESS
   \<and> am_msg_drop (lawful_env Debug) \<lparr>m_worker = 0, msg = raw_msg_from_raw ucx_abi 3 [7] \<lparr>as_ptr = 16, contents = []\<rparr> 0 0x10000\<rparr>
       (mem demo_sys) = (Ret (), mem demo_sys)"
  using empty_message_keeps_descriptor [of "\<lparr>as_ptr = 16, contents = []\<rparr>" "0x10000" "lawful_env Debug" 0 3 "[7]" 0 "mem demo_sys"]
  by (simp add: has_flag_def)



text \<open>
  C7. The descriptor of a message is given back exactly once over the life of the message: by the
  receive or, if nothing was received, by the drop. The only exception is a receive into buffers
  that are too small for a \<open>Data\<close> message, which gives it back never.
\<close>

theorem descriptor_accounting:
  assumes "worker_alive (m_worker m) w" "msg_data (msg m) = Some d" "descriptor d = Some desc"
    and "\<forall>v. returns_of desc (x_others X v) = returns_of desc v"
    and "recv_data_vectored E X m iov w = (Ret (res, iov', m'), w')"
  shows "returns_of desc (snd (am_msg_drop E m' w')) = returns_of desc w
      + (if (\<exists>bytes. d = Data bytes) \<and> res = Err MessageTruncated then 0 else 1)
    \<and> returns_of desc (snd (am_msg_drop E m w)) = returns_of desc w + 1"
proof -
  have drop: "returns_of desc (snd (am_msg_drop E m w)) = returns_of desc w + 1"
    using drop_msg_effect [OF assms(1), of E d] assms(2,3) by (auto simp: am_msg_drop_def returns_of_def)
  have taken: "m' = take_data m"
    using assms(2,3,5) by (cases d) (auto simp: recv_data_vectored_def bind_def ret_def case_prod_beta
        split: outcome.splits sum.splits prod.splits)
  show ?thesis
  proof (cases d)
    case (Eager bytes)
    with assms(3) show ?thesis by simp
  next
    case (Data bytes)
    obtain u cs where effect: "drop_msg E m (Data bytes) w = (Ret (), w\<lparr>lib := u, calls := calls w @ cs\<rparr>)"
      and cs: "length (filter (gives_back desc) cs) = 1"
      using drop_msg_effect [OF assms(1), of E d] assms(3) Data by auto
    have "copy_data_to_iov (prof E) (contents bytes) iov = Ret (Err err, iov2) \<Longrightarrow> err = MessageTruncated" for err iov2
      by (cases "usize_sum (prof E) 0 (map slice_len iov)")
        (auto simp: copy_data_to_iov_def split: if_splits prod.splits)
    then have "returns_of desc w' = returns_of desc w + (if res = Err MessageTruncated then 0 else 1)"
      using assms(2,5) Data effect cs
      by (auto simp: recv_data_vectored_def bind_def lift_def ret_def returns_of_def
          split: outcome.splits sum.splits prod.splits)
    then show ?thesis
      using drop taken Data by simp
  next
    case (Rndv bytes)
    let ?c = "\<lambda>h. Ucp_am_recv_data_nbx h (as_ptr bytes) (fst (am_buffer iov)) (snd (am_buffer iov)) (am_recv_param (binds E) iov)"
    obtain h where call: "\<And>call. worker_call E (m_worker m) call w = (Ret (fst (ucx E (call h) (lib w))),
        w\<lparr>lib := snd (ucx E (call h) (lib w)), calls := calls w @ [call h]\<rparr>)"
      by (rule worker_call_alive [where E = E, OF assms(1)]) (rule that)
    let ?u = "w\<lparr>lib := snd (ucx E (?c h) (lib w)), calls := calls w @ [?c h]\<rparr>"
    let ?p = "ptr_of (fst (ucx E (?c h) (lib w)))"
    let ?rest = "bind (on_status_ptr E ?p (ret (Ok (slice_len bytes)))
        (bind (await_ptr E X (poll_recv E) ?p) (\<lambda>_. ret (Ok (slice_len bytes)))) (ptr_error E ?p))
      (\<lambda>res. ret (res, iov, take_data m))"
    have run: "?rest ?u = (Ret (res, iov', m'), w')"
      using assms(2,5) Rndv by (simp add: recv_data_vectored_def case_prod_beta bind_def [of "worker_call E _ _"] call)
    have "keeps (\<lambda>v. returns_of desc v = returns_of desc ?u) ?rest"
      using keeps_returns_await [OF assms(4)]
      by (auto simp: on_status_ptr_def await_ptr_def ptr_error_def intro!: keeps_bind)
    then have "returns_of desc w' = returns_of desc ?u"
      unfolding keeps_def using run by (metis snd_conv)
    also have "\<dots> = returns_of desc w + 1"
      using assms(3) Rndv by (simp add: returns_of_def)
    finally show ?thesis
      using drop taken Rndv by simp
  qed
qed

abbreviation demo_msg :: AmMsg where
  "demo_msg \<equiv> \<lparr>m_worker = 0, msg = raw_msg_from_raw ucx_abi 3 [7] \<lparr>as_ptr = 16, contents = [1, 2]\<rparr> 0 0x10000\<rparr>"

lemma demo_msg_data: "msg_data (msg demo_msg) = Some (Data \<lparr>as_ptr = 16, contents = [1, 2]\<rparr>)"
  by (simp add: raw_msg_from_raw_def am_data_from_raw_def has_flag_def)

theorem descriptor_accounting_witness:
  "\<exists>m' w'. recv_data_vectored (lawful_env Debug) (quiet 1) demo_msg [\<lparr>as_ptr = 32, contents = [0]\<rparr>] (mem demo_sys)
       = (Ret (Err MessageTruncated, [\<lparr>as_ptr = 32, contents = [0]\<rparr>], m'), w')
     \<and> returns_of 16 (snd (am_msg_drop (lawful_env Debug) m' w')) = returns_of 16 (mem demo_sys)"
proof -
  have alive: "worker_alive (m_worker demo_msg) (mem demo_sys)"
    by (simp add: worker_alive_def demo_sys_eq rc_get_def)
  have run: "recv_data_vectored (lawful_env Debug) (quiet 1) demo_msg [\<lparr>as_ptr = 32, contents = [0]\<rparr>] (mem demo_sys)
      = (Ret (Err MessageTruncated, [\<lparr>as_ptr = 32, contents = [0]\<rparr>], take_data demo_msg), mem demo_sys)"
    unfolding recv_data_vectored_def demo_msg_data
    by (simp add: copy_data_to_iov_def usize_add_def slice_len_def bind_def lift_def ret_def)
  from descriptor_accounting [OF alive demo_msg_data _ _ run, of 16]
  show ?thesis
    using run by (intro exI [of _ "take_data demo_msg"] exI [of _ "mem demo_sys"]) (simp add: quiet_def)
qed

text \<open>
  C35. A rendezvous receive that had to wait reports the announced length whatever the status of
  the completed request: a receive that failed, or delivered less, is reported as complete.
\<close>

theorem rndv_recv_ignores_status:
  assumes "ucx_library E" "rc_get (m_worker m) (workers w) = (Ret v, workers w)"
    and "msg_data (msg m) = Some (Rndv desc)"
    and "call = Ucp_am_recv_data_nbx (w_handle v) (as_ptr desc) (Bytes (as_ptr buf)) (slice_len buf)
      (am_recv_param (binds E) [buf])"
    and "ptr = ptr_of (fst (ucx E call (lib w)))" "ptr \<noteq> 0" "\<not> UCS_PTR_IS_ERR (binds E) ptr"
    and "keeps_request ptr (x_others X)" "reqs w ptr \<noteq> None"
    and "rounds = (\<lambda>i. (park E ptr (x_task X) (x_others X) ^^ i) (after_call E call w))"
    and "\<forall>i<k. fst (poll_recv E ptr (rounds i)) = Ret Pending" "k < x_polls X"
    and "status_of (fst (ucx E (Ucp_request_check_status ptr) (lib (rounds k)))) \<noteq> UCS_INPROGRESS"
  shows "recv_data_single E X m buf w =
    (Ret (Ok (slice_len desc), [buf], take_data m), snd (request_drop E ptr (rounds k)))"
proof -
  have ready: "fst (poll_recv E ptr (rounds k)) = Ret (Ready ())"
    using assms(13) by (simp add: poll_recv_def bind_def query_def ret_def)
  have "await_ptr E X (poll_recv E) ptr (after_call E call w) = (Ret (), snd (request_drop E ptr (rounds k)))"
    unfolding await_ptr_def assms(10)
    by (rule await_completes) (use assms(8-12) ready in \<open>simp_all add: after_call_def\<close>)
  moreover have "UCS_PTR_IS_PTR (prof E) (binds E) ptr = Ret True"
    using status_abi.trichotomy [of "binds E" ptr "prof E"] ucx_library.axioms(1) [OF assms(1)] assms(6,7) by simp
  moreover have "worker_call E (m_worker m) (\<lambda>h. Ucp_am_recv_data_nbx h (as_ptr desc) (Bytes (as_ptr buf)) (slice_len buf)
      (am_recv_param (binds E) [buf])) w = (Ret (fst (ucx E call (lib w))), after_call E call w)"
    by (simp add: worker_call_def bind_def on_workers_def assms(2,4) ffi_after)
  ultimately show ?thesis
    using assms(3,6)
    by (simp add: recv_data_single_def contains_data_def recv_data_vectored_def am_buffer_def bind_def ret_def
        on_status_ptr_def assms(5) [symmetric])
qed

theorem rndv_recv_ignores_status_witness:
  "fst (recv_data_single (lawful_env Debug) (quiet 1)
     \<lparr>m_worker = 0, msg = \<lparr>msg_id = 3, msg_header = [], msg_data = Some (Rndv \<lparr>as_ptr = 16, contents = [1, 2]\<rparr>),
        reply_ep = 0, msg_attr = 0x20000\<rparr>\<rparr> \<lparr>as_ptr = 32, contents = [0, 0]\<rparr>
     (mem demo_sys\<lparr>lib := [ok_reply\<lparr>ptr_of := 64\<rparr>, ok_reply\<lparr>status_of := UCS_ERR_CANCELED\<rparr>], reqs := [64 \<mapsto> None]\<rparr>))
   = Ret (Ok 2, [\<lparr>as_ptr = 32, contents = [0, 0]\<rparr>],
       take_data \<lparr>m_worker = 0, msg = \<lparr>msg_id = 3, msg_header = [], msg_data = Some (Rndv \<lparr>as_ptr = 16, contents = [1, 2]\<rparr>),
        reply_ep = 0, msg_attr = 0x20000\<rparr>\<rparr>)"
proof -
  let ?w = "mem demo_sys\<lparr>lib := [ok_reply\<lparr>ptr_of := 64\<rparr>, ok_reply\<lparr>status_of := UCS_ERR_CANCELED\<rparr>], reqs := [64 \<mapsto> None]\<rparr>"
  let ?E = "lawful_env Debug" and ?X = "quiet 1 :: (reply list, nat option, unit, unit) world executor"
  let ?desc = "\<lparr>as_ptr = 16, contents = [1, 2 :: u8]\<rparr>" and ?buf = "\<lparr>as_ptr = 32, contents = [0, 0 :: u8]\<rparr>"
  let ?m = "\<lparr>m_worker = 0, msg = \<lparr>msg_id = 3, msg_header = [], msg_data = Some (Rndv ?desc), reply_ep = 0, msg_attr = 0x20000\<rparr>\<rparr>"
  let ?v = "\<lparr>w_handle = 0, w_context = 0, am_streams = []\<rparr>"
  let ?call = "Ucp_am_recv_data_nbx (w_handle ?v) (as_ptr ?desc) (Bytes (as_ptr ?buf)) (slice_len ?buf)
      (am_recv_param (binds ?E) [?buf])"
  have worker: "rc_get (m_worker ?m) (workers ?w) = (Ret ?v, workers ?w)"
    by (simp add: demo_sys_eq rc_get_def)
  have data: "msg_data (msg ?m) = Some (Rndv ?desc)" by simp
  have not_err: "\<not> UCS_PTR_IS_ERR (binds ?E) 64"
    by (simp add: UCS_PTR_IS_ERR_def err_last_def)
  then have ptr: "64 = ptr_of (fst (ucx ?E ?call (lib ?w)))" by (simp add: lawful_def)
  have keeps: "keeps_request 64 (x_others ?X)" by (simp add: keeps_request_def quiet_def)
  from rndv_recv_ignores_status [OF lawful.ucx_library_axioms worker data refl ptr _ not_err keeps _ refl, of 0]
  show ?thesis
    by (simp add: quiet_def after_call_def lawful_def slice_len_def)
qed

end
