(* ===== verification/AmStream.thy ===== *)
theory AmStream
  imports AmMsg "HOL-Library.AList"
begin

text \<open>
  Streams of active messages (\<^verbatim>\<open>AmStreamInner\<close>, \<^verbatim>\<open>AmStream\<close>, \<^verbatim>\<open>am_stream\<close> and \<^verbatim>\<open>am_register\<close> of
  \<^verbatim>\<open>src/ucp/endpoint/am.rs\<close>): the queue between the callback and the waiting tasks, and the
  registration of handlers. The queue (\<^verbatim>\<open>crossbeam::queue::SegQueue\<close>) and the notifier
  (\<^verbatim>\<open>tokio::sync::Notify\<close>) are parameters with their documented behaviour.
\<close>

section \<open>Parameters\<close>

record 'q seg_queue =
  q_new :: 'q
  q_push :: "RawMsg \<Rightarrow> 'q \<Rightarrow> 'q"
  q_pop :: "'q \<Rightarrow> RawMsg option \<times> 'q"

text \<open>
  \<open>n_one\<close> is \<^verbatim>\<open>notify_one\<close> with the task it wakes, if any; \<open>n_wait\<close> the first poll of \<^verbatim>\<open>notified()\<close>
  by a task (\<open>True\<close>: ready), which otherwise registers it; \<open>n_pending\<close> whether a registered task is
  still to be notified.
\<close>

record 'n notifier =
  n_new :: 'n
  n_one :: "'n \<Rightarrow> nat option \<times> 'n"
  n_wait :: "nat \<Rightarrow> 'n \<Rightarrow> bool \<times> 'n"
  n_pending :: "nat \<Rightarrow> 'n \<Rightarrow> bool"

record ('q, 'n) am_ops =
  queue_ops :: "'q seg_queue"
  notify_ops :: "'n notifier"

text \<open>
  The documented behaviour: a first-in first-out queue; a notifier that wakes the waiter that has
  waited longest, or else stores one permit that the next waiter consumes.
\<close>

locale fifo_queue =
  fixes Q :: "'q seg_queue"
    and items :: "'q \<Rightarrow> RawMsg list"
  assumes items_new: "items (q_new Q) = []"
    and items_push: "items (q_push Q m q) = items q @ [m]"
    and pop_empty: "items q = [] \<Longrightarrow> fst (q_pop Q q) = None \<and> items (snd (q_pop Q q)) = []"
    and pop_front: "items q = m # ms \<Longrightarrow> fst (q_pop Q q) = Some m \<and> items (snd (q_pop Q q)) = ms"

locale permit_notifier =
  fixes N :: "'n notifier"
    and waiters :: "'n \<Rightarrow> nat list"
    and permit :: "'n \<Rightarrow> bool"
  assumes new_notifier: "waiters (n_new N) = [] \<and> \<not> permit (n_new N)"
    and one_nobody: "waiters n = [] \<Longrightarrow>
      fst (n_one N n) = None \<and> waiters (snd (n_one N n)) = [] \<and> permit (snd (n_one N n))"
    and one_somebody: "waiters n = t # ts \<Longrightarrow>
      fst (n_one N n) = Some t \<and> waiters (snd (n_one N n)) = ts \<and> permit (snd (n_one N n)) = permit n"
    and wait_permit: "permit n \<Longrightarrow>
      fst (n_wait N t n) \<and> waiters (snd (n_wait N t n)) = waiters n \<and> \<not> permit (snd (n_wait N t n))"
    and wait_park: "\<not> permit n \<Longrightarrow>
      \<not> fst (n_wait N t n) \<and> waiters (snd (n_wait N t n)) = waiters n @ [t] \<and> \<not> permit (snd (n_wait N t n))"
    and pending_waits: "n_pending N t n \<longleftrightarrow> t \<in> set (waiters n)"

text \<open>Instances: a list, and a list with a permit.\<close>

definition list_queue :: "RawMsg list seg_queue" where
  "list_queue = \<lparr>q_new = [], q_push = (\<lambda>m q. q @ [m]),
     q_pop = (\<lambda>q. case q of [] \<Rightarrow> (None, []) | m # ms \<Rightarrow> (Some m, ms))\<rparr>"

definition list_notifier :: "(nat list \<times> bool) notifier" where
  "list_notifier = \<lparr>n_new = ([], False),
     n_one = (\<lambda>(ts, p). case ts of [] \<Rightarrow> (None, ([], True)) | t # ts \<Rightarrow> (Some t, (ts, p))),
     n_wait = (\<lambda>t (ts, p). if p then (True, (ts, False)) else (False, (ts @ [t], False))),
     n_pending = (\<lambda>t (ts, p). t \<in> set ts)\<rparr>"

interpretation lq: fifo_queue list_queue "\<lambda>q. q"
  by unfold_locales (simp_all add: list_queue_def)

interpretation ln: permit_notifier list_notifier fst snd
  by unfold_locales (auto simp: list_notifier_def split: prod.split)

definition list_ops :: "(RawMsg list, nat list \<times> bool) am_ops" where
  "list_ops = \<lparr>queue_ops = list_queue, notify_ops = list_notifier\<rparr>"

section \<open>\<^verbatim>\<open>AmStreamInner\<close>\<close>

record ('q, 'n) AmStreamInner =
  st_id :: u16
  msgs :: 'q
  notify :: 'n
  unregistered :: bool

definition stream_new :: "('q, 'n) am_ops \<Rightarrow> u16 \<Rightarrow> ('q, 'n) AmStreamInner" where
  "stream_new A i = \<lparr>st_id = i, msgs = q_new (queue_ops A), notify = n_new (notify_ops A), unregistered = False\<rparr>"

definition stream_unregister :: "('q, 'n) AmStreamInner \<Rightarrow> ('q, 'n) AmStreamInner" where
  "stream_unregister s = s\<lparr>unregistered := True\<rparr>"

text \<open>The callback queues the message and notifies one waiter, which it returns.\<close>

definition stream_callback ::
  "('q, 'n) am_ops \<Rightarrow> abi \<Rightarrow> u8 list \<Rightarrow> slice \<Rightarrow> handle \<Rightarrow> u64 \<Rightarrow> ('q, 'n) AmStreamInner \<Rightarrow>
   nat option \<times> ('q, 'n) AmStreamInner" where
  "stream_callback A B header data rep attr s =
     (let m = raw_msg_from_raw B (st_id s) header data rep attr;
          s = s\<lparr>msgs := q_push (queue_ops A) m (msgs s)\<rparr>
      in case n_one (notify_ops A) (notify s) of (woken, n) \<Rightarrow> (woken, s\<lparr>notify := n\<rparr>))"

text \<open>
  \<^verbatim>\<open>wait_msg\<close> between two suspensions: the loop runs until it returns or the notification is not
  there yet. \<open>None\<close>: the given number of iterations is used up; two are enough, as the first can
  only consume the permit.
\<close>

datatype turn = Returned "RawMsg option" | Parked

fun wait_turn ::
  "('q, 'n) am_ops \<Rightarrow> nat \<Rightarrow> nat \<Rightarrow> ('q, 'n) AmStreamInner \<Rightarrow> turn option \<times> ('q, 'n) AmStreamInner" where
  "wait_turn A t 0 s = (None, s)"
| "wait_turn A t (Suc n) s = (case q_pop (queue_ops A) (msgs s) of (m, q) \<Rightarrow>
     (if unregistered s then (Some (Returned m), s\<lparr>msgs := q\<rparr>)
      else case m of
          Some m \<Rightarrow> (Some (Returned (Some m)), s\<lparr>msgs := q\<rparr>)
        | None \<Rightarrow> (case n_wait (notify_ops A) t (notify s) of (ready, n') \<Rightarrow>
            (if ready then wait_turn A t n (s\<lparr>msgs := q, notify := n'\<rparr>)
             else (Some Parked, s\<lparr>msgs := q, notify := n'\<rparr>)))))"

section \<open>Arrivals and waiters, interleaved\<close>

text \<open>
  A stream with the tasks that have been notified and not run yet, and two logs: the messages that
  arrived and those handed out. Steps: a message arrives; a task calls \<^verbatim>\<open>wait_msg\<close>; a notified task
  goes on; the handler is unregistered.
\<close>

record ('q, 'n) stream_sys =
  inner :: "('q, 'n) AmStreamInner"
  notified :: "nat list"
  arrived :: "RawMsg list"
  handed_out :: "RawMsg list"

definition log_turn :: "turn option \<Rightarrow> ('q, 'n) stream_sys \<Rightarrow> ('q, 'n) stream_sys" where
  "log_turn r s = (case r of
      Some (Returned (Some m)) \<Rightarrow> s\<lparr>handed_out := handed_out s @ [m]\<rparr>
    | _ \<Rightarrow> s)"

inductive stream_step ::
  "('q, 'n) am_ops \<Rightarrow> abi \<Rightarrow> ('q, 'n) stream_sys \<Rightarrow> ('q, 'n) stream_sys \<Rightarrow> bool" for A B where
  arrive: "stream_callback A B header data rep attr (inner s) = (woken, i) \<Longrightarrow>
    stream_step A B s (s\<lparr>inner := i, notified := notified s @ (case woken of None \<Rightarrow> [] | Some t \<Rightarrow> [t]),
      arrived := arrived s @ [raw_msg_from_raw B (st_id (inner s)) header data rep attr]\<rparr>)"
| enter: "wait_turn A t 2 (inner s) = (r, i) \<Longrightarrow> stream_step A B s (log_turn r (s\<lparr>inner := i\<rparr>))"
| resume: "t \<in> set (notified s) \<Longrightarrow> wait_turn A t 2 (inner s) = (r, i) \<Longrightarrow>
    stream_step A B s (log_turn r (s\<lparr>inner := i, notified := remove1 t (notified s)\<rparr>))"
| unregister: "stream_step A B s (s\<lparr>inner := stream_unregister (inner s)\<rparr>)"

definition stream_start :: "('q, 'n) am_ops \<Rightarrow> u16 \<Rightarrow> ('q, 'n) stream_sys" where
  "stream_start A i = \<lparr>inner = stream_new A i, notified = [], arrived = [], handed_out = []\<rparr>"

inductive_cases stream_stepE: "stream_step A B s s'"

locale stream_parts =
  fifo_queue "queue_ops A" items + permit_notifier "notify_ops A" waiters permit
  for A :: "('q, 'n) am_ops" and items :: "'q \<Rightarrow> RawMsg list"
    and waiters :: "'n \<Rightarrow> nat list" and permit :: "'n \<Rightarrow> bool"
begin

abbreviation queued :: "('q, 'n) AmStreamInner \<Rightarrow> RawMsg list" where
  "queued s \<equiv> items (msgs s)"

abbreviation waiting :: "('q, 'n) AmStreamInner \<Rightarrow> nat list" where
  "waiting s \<equiv> waiters (notify s)"

text \<open>One run of the loop: it takes the first message, or parks the task and eats a permit.\<close>

lemma turn_message:
  assumes "queued s = m # ms"
  shows "\<exists>i. wait_turn A t (Suc n) s = (Some (Returned (Some m)), i) \<and> queued i = ms \<and> notify i = notify s"
  using pop_front [OF assms] by (auto simp: split: prod.split)

lemma turn_unregistered:
  assumes "queued s = []" "unregistered s"
  shows "\<exists>i. wait_turn A t (Suc n) s = (Some (Returned None), i) \<and> queued i = [] \<and> notify i = notify s"
  using pop_empty [OF assms(1)] assms(2) by (auto split: prod.split)

lemma turn_parks_now:
  assumes "queued s = []" "\<not> unregistered s" "\<not> permit (notify s)"
  shows "\<exists>i. wait_turn A t (Suc n) s = (Some Parked, i) \<and> queued i = [] \<and> waiting i = waiting s @ [t]
    \<and> \<not> permit (notify i)"
  using pop_empty [OF assms(1)] assms(2) wait_park [OF assms(3), of t]
  by (auto split: prod.split)

lemma turn_parks:
  assumes "queued s = []" "\<not> unregistered s"
  shows "\<exists>i. wait_turn A t 2 s = (Some Parked, i) \<and> queued i = [] \<and> waiting i = waiting s @ [t]
    \<and> \<not> permit (notify i)"
proof (cases "permit (notify s)")
  case False
  then show ?thesis using turn_parks_now [OF assms, of t 1] by (simp add: numeral_2_eq_2)
next
  case True
  obtain q where q: "q_pop (queue_ops A) (msgs s) = (None, q)" "items q = []"
    using pop_empty [OF assms(1)] by (metis prod.collapse)
  obtain n' where n': "n_wait (notify_ops A) t (notify s) = (True, n')" "waiters n' = waiting s" "\<not> permit n'"
    using wait_permit [OF True, of t] by (metis prod.collapse)
  let ?s = "s\<lparr>msgs := q, notify := n'\<rparr>"
  have "wait_turn A t 2 s = wait_turn A t 1 ?s"
    using q n' assms(2) by (simp add: numeral_2_eq_2)
  then show ?thesis
    using turn_parks_now [of ?s t 0] q n' assms(2) by simp
qed

text \<open>Two iterations are always enough.\<close>

lemma turn_cases:
  obtains (message) m ms i where "queued s = m # ms" "wait_turn A t 2 s = (Some (Returned (Some m)), i)"
      "queued i = ms" "notify i = notify s"
  | (ended) i where "queued s = []" "unregistered s" "wait_turn A t 2 s = (Some (Returned None), i)"
      "queued i = []" "notify i = notify s"
  | (parked) i where "queued s = []" "\<not> unregistered s" "wait_turn A t 2 s = (Some Parked, i)"
      "queued i = []" "waiting i = waiting s @ [t]" "\<not> permit (notify i)"
proof (cases "queued s")
  case (Cons m ms)
  with turn_message [OF Cons, of t 1] that(1) show ?thesis by (auto simp: numeral_2_eq_2)
next
  case Nil
  show ?thesis
  proof (cases "unregistered s")
    case True
    with turn_unregistered [OF Nil True, of t 1] Nil that(2) show ?thesis by (auto simp: numeral_2_eq_2)
  next
    case False
    with turn_parks [OF Nil False, of t] Nil that(3) show ?thesis by auto
  qed
qed

lemma callback_effect:
  "stream_callback A B header data rep attr s = (woken, i) \<Longrightarrow>
   queued i = queued s @ [raw_msg_from_raw B (st_id s) header data rep attr] \<and> st_id i = st_id s \<and>
   (case waiting s of
      [] \<Rightarrow> woken = None \<and> waiting i = [] \<and> permit (notify i)
    | t # ts \<Rightarrow> woken = Some t \<and> waiting i = ts \<and> permit (notify i) = permit (notify s))"
  using one_nobody [of "notify s"] one_somebody [of "notify s"]
  by (auto simp: stream_callback_def Let_def items_push split: prod.splits list.splits)

text \<open>
  The invariant: a permit is stored only when nobody waits; when somebody waits, every queued
  message has a notified task on its way; and nothing is lost, duplicated or reordered.
\<close>

definition stream_inv :: "('q, 'n) stream_sys \<Rightarrow> bool" where
  "stream_inv s \<longleftrightarrow> (permit (notify (inner s)) \<longrightarrow> waiting (inner s) = [])
     \<and> (waiting (inner s) \<noteq> [] \<longrightarrow> length (queued (inner s)) \<le> length (notified s))
     \<and> arrived s = handed_out s @ queued (inner s)"

lemma start_inv: "stream_inv (stream_start A i)"
  using new_notifier by (simp add: stream_inv_def stream_start_def stream_new_def items_new)

lemma turn_inv:
  assumes inv: "stream_inv s" and run: "wait_turn A t 2 (inner s) = (r, i)"
    and ts: "ts = notified s \<or> length (notified s) = Suc (length ts)"
  shows "stream_inv (log_turn r (s\<lparr>inner := i, notified := ts\<rparr>))"
  using turn_cases [of "inner s" t]
proof cases
  case (message m ms j)
  then show ?thesis
    using inv run ts by (auto simp: stream_inv_def log_turn_def)
next
  case (ended j)
  then show ?thesis
    using inv run ts by (auto simp: stream_inv_def log_turn_def)
next
  case (parked j)
  then show ?thesis
    using inv run ts by (auto simp: stream_inv_def log_turn_def)
qed

lemma step_inv:
  assumes "stream_step A B s s'" "stream_inv s"
  shows "stream_inv s'"
  using assms(1)
proof cases
  case (arrive header data rep attr woken i)
  then show ?thesis
    using assms(2) callback_effect [OF arrive(2)]
    by (auto simp: stream_inv_def split: list.splits)
next
  case (enter t r i)
  then show ?thesis
    using turn_inv [OF assms(2) enter(2), of "notified s"] by simp
next
  case (resume t r i)
  have "length (notified s) = Suc (length (remove1 t (notified s)))"
    using resume(2) by (simp add: length_remove1) (metis Suc_pred length_pos_if_in_set)
  then show ?thesis
    using turn_inv [OF assms(2) resume(3), of "remove1 t (notified s)"] resume(1) by simp
next
  case unregister
  then show ?thesis
    using assms(2) by (simp add: stream_inv_def stream_unregister_def)
qed

lemma steps_inv: "(stream_step A B)\<^sup>*\<^sup>* (stream_start A i) s \<Longrightarrow> stream_inv s"
  by (induction rule: rtranclp_induct) (auto intro: start_inv step_inv)

end

lemma list_parts: "stream_parts list_ops (\<lambda>q. q) fst snd"
  by (simp add: stream_parts_def list_ops_def lq.fifo_queue_axioms ln.permit_notifier_axioms)

interpretation ls: stream_parts list_ops "\<lambda>q. q" fst snd
  by (rule list_parts)

section \<open>On the shared heap\<close>

type_synonym ('u, 'wk, 'q, 'n, 'c) am_world = "('u, 'wk, ('q, 'n) AmStreamInner, 'c) world"

text \<open>
  The callback that is registered for a stream. Its argument is the raw address of the stream, so
  it may only run while the stream is alive.
\<close>

definition am_callback ::
  "('u, 'wk) env \<Rightarrow> ('q, 'n) am_ops \<Rightarrow> nat \<Rightarrow> u8 list \<Rightarrow> slice \<Rightarrow> handle \<Rightarrow> u64 \<Rightarrow>
   (('u, 'wk, 'q, 'n, 'c) am_world, ucs_status_t) prog" where
  "am_callback E A arg header data rep attr =
     bind (on_streams (rc_get arg)) (\<lambda>s.
       case stream_callback A (binds E) header data rep attr s of (woken, s') \<Rightarrow>
         bind (on_streams (rc_update arg (\<lambda>_. s'))) (\<lambda>_.
         bind (case woken of None \<Rightarrow> ret () | Some t \<Rightarrow> modify (\<lambda>w. w\<lparr>scheduled := scheduled w @ [t]\<rparr>)) (\<lambda>_.
           ret (am_callback_status (binds E) attr))))"

text \<open>\<^verbatim>\<open>AmStream\<close>: the worker it was taken from and the shared part.\<close>

record AmStream =
  s_worker :: nat
  s_inner :: nat

definition am_stream_clone :: "AmStream \<Rightarrow> (('u, 'wk, 's, 'c) world, AmStream) prog" where
  "am_stream_clone s = bind (on_streams (rc_clone (s_inner s))) (\<lambda>_. ret s)"

definition am_stream_drop :: "AmStream \<Rightarrow> (('u, 'wk, 's, 'c) world, unit) prog" where
  "am_stream_drop s = bind (on_streams (rc_drop (s_inner s))) (\<lambda>_. ret ())"

text \<open>
  \<^verbatim>\<open>AmStream::wait_msg\<close> by the executor's task. Suspended, it goes on only when its notification
  has come.
\<close>

fun wait_msg ::
  "('q, 'n) am_ops \<Rightarrow> nat \<Rightarrow> (('u, 'wk, 'q, 'n, 'c) am_world \<Rightarrow> ('u, 'wk, 'q, 'n, 'c) am_world) \<Rightarrow> AmStream \<Rightarrow>
   bool \<Rightarrow> nat \<Rightarrow> (('u, 'wk, 'q, 'n, 'c) am_world, AmMsg option) prog" where
  "wait_msg A t others s suspended 0 = lift Unfinished"
| "wait_msg A t others s suspended (Suc n) =
     bind (on_streams (rc_get (s_inner s))) (\<lambda>i.
       if suspended \<and> n_pending (notify_ops A) t (notify i) then
         bind (modify others) (\<lambda>_. wait_msg A t others s True n)
       else case wait_turn A t 2 i of (r, i') \<Rightarrow>
         bind (on_streams (rc_update (s_inner s) (\<lambda>_. i'))) (\<lambda>_. case r of
             None \<Rightarrow> lift Unfinished
           | Some (Returned m) \<Rightarrow> ret (map_option (\<lambda>m. \<lparr>m_worker = s_worker s, msg = m\<rparr>) m)
           | Some Parked \<Rightarrow> bind (modify others) (\<lambda>_. wait_msg A t others s True n)))"

section \<open>Registration\<close>

text \<open>
  \<^verbatim>\<open>am_register\<close>: the library's handler is replaced first; only when that succeeded is the stream
  of the old handler taken out of the map, marked and released.
\<close>

definition am_register ::
  "('u, 'wk) env \<Rightarrow> nat \<Rightarrow> u16 \<Rightarrow> nat \<Rightarrow> (('u, 'wk, 'q, 'n, 'c) am_world, (unit, Error) result) prog" where
  "am_register E wk i arg =
     bind (worker_call E wk (\<lambda>h. Ucp_worker_set_am_recv_handler h
             (num (binds E) UCP_AM_HANDLER_PARAM_FIELD_ID OR num (binds E) UCP_AM_HANDLER_PARAM_FIELD_CB
               OR num (binds E) UCP_AM_HANDLER_PARAM_FIELD_ARG) i arg)) (\<lambda>r.
     try_bind (lift (from_status (prof E) (status_of r))) (\<lambda>_.
     bind (on_workers (rc_get wk)) (\<lambda>v.
     bind (on_workers (rc_update wk (\<lambda>v. v\<lparr>am_streams := AList.delete i (am_streams v)\<rparr>))) (\<lambda>_.
       case map_of (am_streams v) i of
         None \<Rightarrow> ret (Ok ())
       | Some a \<Rightarrow>
           bind (on_streams (rc_update a stream_unregister)) (\<lambda>_.
           bind (on_streams (rc_drop a)) (\<lambda>_. ret (Ok ())))))))"

definition am_stream ::
  "('u, 'wk) env \<Rightarrow> ('q, 'n) am_ops \<Rightarrow> nat \<Rightarrow> u16 \<Rightarrow> (('u, 'wk, 'q, 'n, 'c) am_world, (AmStream, Error) result) prog" where
  "am_stream E A wk i =
     bind (on_workers (rc_get wk)) (\<lambda>v. case map_of (am_streams v) i of
         Some a \<Rightarrow> bind (on_streams (rc_clone a)) (\<lambda>_. ret (Ok \<lparr>s_worker = wk, s_inner = a\<rparr>))
       | None \<Rightarrow>
           bind (on_streams (rc_new (stream_new A i))) (\<lambda>a.
           bind (am_register E wk i a) (\<lambda>res. case res of
               Inl err \<Rightarrow> bind (on_streams (rc_drop a)) (\<lambda>_. ret (Err err))
             | Inr _ \<Rightarrow>
                 bind (on_streams (rc_clone a)) (\<lambda>_.
                 bind (on_workers (rc_update wk (\<lambda>v. v\<lparr>am_streams := AList.update i a (am_streams v)\<rparr>))) (\<lambda>_.
                   ret (Ok \<lparr>s_worker = wk, s_inner = a\<rparr>))))))"

section \<open>Ownership of streams\<close>

text \<open>Changing the map of a worker moves references between the map and the running code.\<close>

lemma worker_map_owned:
  assumes own: "owns w R" and cell: "cells (workers w) k = Some b" and ctx: "w_context v = w_context (val b)"
    and moved: "\<And>x. S x + count_list (worker_streams v) x = r_streams R x + count_list (worker_streams (val b)) x"
  shows "owns (w\<lparr>workers := put_cell k (b\<lparr>val := v\<rparr>) (workers w)\<rparr>) (R\<lparr>r_streams := S\<rparr>)" (is "owns ?w ?R")
proof -
  have b: "0 < strong b" "weak b = 0"
    using counts_cell [OF owns_parts(4) [OF own] cell] by auto
  let ?b = "b\<lparr>val := v\<rparr>" and ?h = "put_cell k (b\<lparr>val := v\<rparr>) (workers w)"
  have fresh: "heap_fresh ?h"
    using heap_fresh_cell [OF owns_parts(3) [OF own] cell] .
  have cell': "cells ?h k = Some ?b" using b by simp
  have others: "(\<Sum>j\<in>dom (cells ?h) - {k}. count_list (f (val (the (cells ?h j)))) x) =
      (\<Sum>j\<in>dom (cells (workers w)) - {k}. count_list (f (val (the (cells (workers w) j)))) x)" for f x
    using b by (intro sum.cong) auto
  have split: "refs_from ?h f x + count_list (f (val b)) x = refs_from (workers w) f x + count_list (f v) x" for f x
    using refs_from_split [OF owns_parts(3) [OF own] cell, of f x] refs_from_split [OF fresh cell', of f x]
      others [of f x] by simp
  have "context_refs w R = context_refs ?w ?R"
    using split [of "\<lambda>v. [w_context v]"] ctx by (simp add: fun_eq_iff refs_defs)
  moreover have "stream_refs w R x = stream_refs ?w ?R x" for x
    using split [of worker_streams x] moved [of x] by (simp add: refs_defs)
  then have "stream_refs w R = stream_refs ?w ?R" by (rule ext)
  moreover have "worker_refs w R k = strong b"
    using counts_cell [OF owns_parts(4) [OF own] cell] by simp
  then have "counts ?h (worker_refs ?w ?R)"
    using counts_put [OF owns_parts(4) [OF own], of ?b k] b by (simp add: refs_defs [abs_def] fun_upd_idem)
  ultimately show ?thesis
    using own fresh by (simp add: owns_def)
qed

lemma stream_alloc_owned:
  assumes own: "owns w R" and a: "a = next_addr (streams w)"
  shows "owns (w\<lparr>streams := snd (rc_new v (streams w))\<rparr>) (R\<lparr>r_streams := inc a (r_streams R)\<rparr>)"
    (is "owns ?w ?S")
proof -
  have "cells (streams w) a = None"
    using owns_parts(5) [OF own] a by (simp add: heap_fresh_def)
  then have "stream_refs w R a = 0"
    using counts_None [OF owns_parts(6) [OF own]] by blast
  then have "(stream_refs w R)(a := 1) = stream_refs ?w ?S"
    by (auto simp: fun_eq_iff refs_defs)
  with counts_new [OF owns_parts(6,5) [OF own], of v] heap_fresh_new [OF owns_parts(5) [OF own], of v] own a
  show ?thesis
    by (simp add: owns_def context_refs_def [abs_def] worker_refs_def [abs_def])
qed

lemma stream_clone_owned:
  assumes own: "owns w R" and held: "0 < stream_refs w R a"
  shows "does (on_streams (rc_clone a)) w (\<lambda>_ w'. owns w' (R\<lparr>r_streams := inc a (r_streams R)\<rparr>)
     \<and> workers w' = workers w \<and> calls w' = calls w \<and> lib w' = lib w)"
proof -
  let ?R = "R\<lparr>r_streams := inc a (r_streams R)\<rparr>" and ?w = "w\<lparr>streams := snd (rc_clone a (streams w))\<rparr>"
  note run = clone_counted [OF owns_parts(6,5) [OF own] held]
  have "(stream_refs w R)(a := Suc (stream_refs w R a)) = stream_refs ?w ?R"
    by (simp add: fun_eq_iff refs_defs)
  with own run(2,3) have "owns ?w ?R"
    by (simp add: owns_def worker_refs_def [abs_def] context_refs_def [abs_def])
  then show ?thesis
    by simp (subst does_def, subst run(1), simp)
qed

lemma stream_update_owned:
  assumes own: "owns w R" and held: "0 < stream_refs w R a"
  shows "does (on_streams (rc_update a f)) w (\<lambda>_ w'. owns w' R \<and> workers w' = workers w)"
proof -
  obtain b where b: "cells (streams w) a = Some b" "strong b = stream_refs w R a" "weak b = 0"
    using countsD [OF owns_parts(6) [OF own] held] by blast
  let ?b = "b\<lparr>val := f (val b)\<rparr>"
  have "counts (put_cell a ?b (streams w)) (stream_refs w R)"
    using counts_put [OF owns_parts(6) [OF own], of ?b a] b held by (simp add: fun_upd_idem)
  moreover have "heap_fresh (put_cell a ?b (streams w))"
    using heap_fresh_cell [OF owns_parts(5) [OF own] b(1)] .
  ultimately have "owns (w\<lparr>streams := put_cell a ?b (streams w)\<rparr>) R"
    using own by (simp add: owns_def refs_defs [abs_def])
  then show ?thesis
    using b held by (simp add: does_def on_streams_def rc_on_cell)
qed

text \<open>The keys of a worker's map are distinct.\<close>

definition map_ok :: "nat \<Rightarrow> ('u, 'wk, 's, 'c) world \<Rightarrow> bool" where
  "map_ok k w \<longleftrightarrow> (\<exists>b. cells (workers w) k = Some b \<and> distinct (map fst (am_streams (val b))))"

lemma count_delete:
  "distinct (map fst xs) \<Longrightarrow> count_list (map snd (AList.delete i xs)) x
     + (if map_of xs i = Some x then 1 else 0) = count_list (map snd xs) x"
proof (induction xs)
  case (Cons p xs)
  show ?case
  proof (cases "fst p = i")
    case True
    then have "i \<notin> set (map fst xs)" using Cons.prems by auto
    then have "AList.delete i xs = xs" by (simp add: delete_id)
    with True show ?thesis by (cases p) auto
  next
    case False
    with Cons show ?thesis by (cases p) (auto split: if_splits)
  qed
qed simp

lemma count_update:
  "map_of xs i = None \<Longrightarrow> count_list (map snd (AList.update i a xs)) x = count_list (map snd xs) x + (if x = a then 1 else 0)"
  by (induction xs) (auto split: if_splits)

lemma does_bind_eq: "m w = (Ret x, w') \<Longrightarrow> does (bind m f) w Q \<longleftrightarrow> does (f x) w' Q"
  by (simp add: does_def bind_def)

lemma does_rc_update:
  "cells h a = Some b \<Longrightarrow> 0 < strong b \<Longrightarrow>
   does (rc_update a f) h Q \<longleftrightarrow> Q () (put_cell a (b\<lparr>val := f (val b)\<rparr>) h)"
  by (simp add: does_def rc_on_cell)

text \<open>What a worker's map says of an identifier.\<close>

abbreviation mapped :: "nat \<Rightarrow> u16 \<Rightarrow> nat option \<Rightarrow> ('u, 'wk, 's, 'c) world \<Rightarrow> bool" where
  "mapped k i entry w \<equiv> \<exists>b. cells (workers w) k = Some b \<and> map_of (am_streams (val b)) i = entry"

text \<open>Taking an entry out of the map hands its reference to the running code; entering one does the converse.\<close>

lemma entry_taken_owned:
  assumes own: "owns w R" and cell: "cells (workers w) k = Some b" and distinct: "distinct (map fst (am_streams (val b)))"
  shows "does (on_workers (rc_update k (\<lambda>v. v\<lparr>am_streams := AList.delete i (am_streams v)\<rparr>))) w (\<lambda>_ w'.
    owns w' (case map_of (am_streams (val b)) i of None \<Rightarrow> R | Some a \<Rightarrow> R\<lparr>r_streams := inc a (r_streams R)\<rparr>)
      \<and> map_ok k w' \<and> mapped k i None w')"
proof -
  have pos: "0 < strong b" "weak b = 0"
    using counts_cell [OF owns_parts(4) [OF own] cell] by auto
  let ?v = "(val b)\<lparr>am_streams := AList.delete i (am_streams (val b))\<rparr>"
  let ?S = "case map_of (am_streams (val b)) i of None \<Rightarrow> r_streams R | Some a \<Rightarrow> inc a (r_streams R)"
  let ?x = "w\<lparr>workers := put_cell k (b\<lparr>val := ?v\<rparr>) (workers w)\<rparr>"
  have "?S x + count_list (worker_streams ?v) x = r_streams R x + count_list (worker_streams (val b)) x" for x
    using count_delete [OF distinct, of i x] by (auto split: option.splits if_splits)
  then have "owns ?x (R\<lparr>r_streams := ?S\<rparr>)"
    by (intro worker_map_owned [OF own cell]) simp_all
  moreover have "map_ok k ?x" "mapped k i None ?x"
    using distinct pos by (auto simp: map_ok_def delete_conv' distinct_delete)
  ultimately show ?thesis
    by (auto simp: does_rc_update [OF cell pos(1)] split: option.splits)
qed

lemma entry_made_owned:
  assumes own: "owns w (R\<lparr>r_streams := inc a (r_streams R)\<rparr>)" and ok: "map_ok k w" and free: "mapped k i None w"
  shows "does (on_workers (rc_update k (\<lambda>v. v\<lparr>am_streams := AList.update i a (am_streams v)\<rparr>))) w (\<lambda>_ w'.
    map_ok k w' \<and> owns w' R \<and> mapped k i (Some a) w')"
proof -
  obtain c where c: "cells (workers w) k = Some c" "map_of (am_streams (val c)) i = None" "distinct (map fst (am_streams (val c)))"
    using ok free by (auto simp: map_ok_def)
  have pos: "0 < strong c" "weak c = 0"
    using counts_cell [OF owns_parts(4) [OF own] c(1)] by auto
  let ?v = "(val c)\<lparr>am_streams := AList.update i a (am_streams (val c))\<rparr>"
  let ?x = "w\<lparr>workers := put_cell k (c\<lparr>val := ?v\<rparr>) (workers w)\<rparr>"
  have "owns ?x (R\<lparr>r_streams := inc a (r_streams R), r_streams := r_streams R\<rparr>)"
    using c(2) by (intro worker_map_owned [OF own c(1)]) (simp_all add: count_update)
  moreover have "map_ok k ?x" "map_of (am_streams ?v) i = Some a"
    using c(3) pos by (simp_all add: map_ok_def distinct_update update_conv')
  ultimately show ?thesis
    using pos by (simp add: does_rc_update [OF c(1) pos(1)])
qed

text \<open>The stream of a replaced handler is marked and released.\<close>

lemma stream_retired_owned:
  assumes own: "owns w (R\<lparr>r_streams := inc a (r_streams R)\<rparr>)"
  shows "does (bind (on_streams (rc_update a stream_unregister)) (\<lambda>_. bind (on_streams (rc_drop a)) (\<lambda>_. ret (Ok ())))) w
    (\<lambda>res w'. res = Ok () \<and> owns w' R \<and> workers w' = workers w)"
  unfolding does_bind
proof (rule does_mono [OF stream_update_owned [OF own]])
  let ?S = "R\<lparr>r_streams := inc a (r_streams R)\<rparr>"
  show "0 < stream_refs w ?S a" by (simp add: stream_refs_def)
  fix y v assume v: "owns v ?S \<and> workers v = workers w"
  show "does (on_streams (rc_drop a)) v (\<lambda>_ w'. does (ret (Ok ())) w'
      (\<lambda>res w'. res = Ok () \<and> owns w' R \<and> workers w' = workers w))"
    using v by (intro does_mono [OF stream_drop_owned [of v ?S]]) auto
qed

lemma am_register_owned:
  fixes w :: "('u, 'wk, 'q, 'n, 'c) am_world"
  assumes lib: "ucx_library E" and own: "owns w R" and held: "0 < worker_refs w R k" and ok: "map_ok k w"
  shows "does (am_register E k i arg) w (\<lambda>res w'. owns w' R \<and> map_ok k w' \<and>
    (case res of
       Inl _ \<Rightarrow> workers w' = workers w
     | Inr _ \<Rightarrow> mapped k i None w'))"
proof -
  obtain b where b: "cells (workers w) k = Some b" "distinct (map fst (am_streams (val b)))"
    using ok by (auto simp: map_ok_def)
  have pos: "0 < strong b"
    using counts_cell [OF owns_parts(4) [OF own] b(1)] by auto
  obtain h where call: "\<And>E call. worker_call (E :: ('u, 'wk) env) k call w = ffi E (call h) w"
    by (rule worker_call_eq [OF own held]) (rule that)
  let ?c = "Ucp_worker_set_am_recv_handler h (num (binds E) UCP_AM_HANDLER_PARAM_FIELD_ID
    OR num (binds E) UCP_AM_HANDLER_PARAM_FIELD_CB OR num (binds E) UCP_AM_HANDLER_PARAM_FIELD_ARG) i arg"
  let ?u = "after_call E ?c w" and ?r = "fst (ucx E ?c (lib w))"
  let ?Q = "\<lambda>res w'. owns w' R \<and> map_ok k w' \<and> (case res of Inl _ \<Rightarrow> workers w' = workers w | Inr _ \<Rightarrow> mapped k i None w')"
  let ?take = "on_workers (rc_update k (\<lambda>v. v\<lparr>am_streams := AList.delete i (am_streams v)\<rparr>))"
  let ?retire = "case map_of (am_streams (val b)) i of None \<Rightarrow> ret (Ok ())
    | Some a \<Rightarrow> bind (on_streams (rc_update a stream_unregister)) (\<lambda>_. bind (on_streams (rc_drop a)) (\<lambda>_. ret (Ok ())))"
  have u: "owns ?u R" "cells (workers ?u) k = Some b" "workers ?u = workers w"
    using own b by (simp_all add: after_call_def)
  have "does (bind ?take (\<lambda>_. ?retire)) ?u ?Q"
    unfolding does_bind [of ?take]
  proof (rule does_mono [OF entry_taken_owned [OF u(1,2) b(2), of i]])
    fix y and v :: "('u, 'wk, 'q, 'n, 'c) am_world"
    assume v: "owns v (case map_of (am_streams (val b)) i of None \<Rightarrow> R | Some a \<Rightarrow> R\<lparr>r_streams := inc a (r_streams R)\<rparr>)
      \<and> map_ok k v \<and> mapped k i None v"
    show "does ?retire v ?Q"
    proof (cases "map_of (am_streams (val b)) i")
      case (Some a)
      have "does ?retire v (\<lambda>res w'. res = Ok () \<and> owns w' R \<and> workers w' = workers v)"
        unfolding Some option.case using v Some by (intro stream_retired_owned) simp
      then show ?thesis by (rule does_mono) (use v in \<open>auto simp: map_ok_def\<close>)
    qed (use v in simp)
  qed
  moreover have get: "on_workers (rc_get k) ?u = (Ret (val b), ?u)"
    using u(2) pos by (simp add: on_workers_def rc_on_cell)
  moreover have "?Q (Err err) ?u" for err using u ok by (simp add: map_ok_def)
  ultimately show ?thesis
    unfolding am_register_def does_bind_eq [where m = "worker_call E k _", OF trans [OF call ffi_after]]
    by (cases "status_of ?r = UCS_OK") (simp_all add: does_bind_eq [where m = "on_workers (rc_get k)", OF get] del: does_on does_bind)
qed

text \<open>The second half of \<^verbatim>\<open>am_stream\<close>: the new stream \<open>a\<close> is entered, unless the registration has failed.\<close>

lemma stream_entered_owned:
  fixes v :: "('u, 'wk, 'q, 'n, 'c) am_world" and res :: "(unit, Error) result"
  assumes own: "owns v (R\<lparr>r_streams := inc a (r_streams R)\<rparr>)" and ok: "map_ok k v"
    and free: "\<And>u. res = Ok u \<Longrightarrow> mapped k i None v"
  shows "does (case res of
      Inl err \<Rightarrow> bind (on_streams (rc_drop a)) (\<lambda>_. ret (Err err))
    | Inr _ \<Rightarrow> bind (on_streams (rc_clone a)) (\<lambda>_.
        bind (on_workers (rc_update k (\<lambda>v. v\<lparr>am_streams := AList.update i a (am_streams v)\<rparr>))) (\<lambda>_.
          ret (Ok \<lparr>s_worker = k, s_inner = a\<rparr>)))) v
    (\<lambda>res w'. map_ok k w' \<and> (case res of Inl _ \<Rightarrow> owns w' R
      | Inr st \<Rightarrow> s_worker st = k \<and> owns w' (R\<lparr>r_streams := inc (s_inner st) (r_streams R)\<rparr>)
          \<and> mapped k i (Some (s_inner st)) w'))" (is "does _ v ?Q")
proof (cases res)
  case (Inl err)
  have "does (on_streams (rc_drop a)) v (\<lambda>_ w'. map_ok k w' \<and> owns w' R)"
    by (rule does_mono [OF stream_drop_owned [OF own]]) (use ok in \<open>auto simp: map_ok_def\<close>)
  then show ?thesis by (simp add: Inl del: does_on)
next
  case (Inr u)
  let ?S = "R\<lparr>r_streams := inc a (r_streams R)\<rparr>"
  let ?enter = "on_workers (rc_update k (\<lambda>v. v\<lparr>am_streams := AList.update i a (am_streams v)\<rparr>))"
  have "0 < stream_refs v ?S a" by (simp add: stream_refs_def)
  from stream_clone_owned [OF own this]
  have "does (bind (on_streams (rc_clone a)) (\<lambda>_. ?enter)) v (\<lambda>_ w'. map_ok k w' \<and> owns w' ?S \<and> mapped k i (Some a) w')"
    unfolding does_bind
    by (rule does_mono) (use ok free [OF Inr] in \<open>auto simp: map_ok_def simp del: does_on intro!: entry_made_owned [unfolded map_ok_def]\<close>)
  then show ?thesis by (simp add: Inr del: does_on)
qed

lemma am_stream_owned:
  fixes w :: "('u, 'wk, 'q, 'n, 'c) am_world"
  assumes lib: "ucx_library E" and own: "owns w R" and held: "0 < worker_refs w R k" and ok: "map_ok k w"
  shows "does (am_stream E A k i) w (\<lambda>res w'. map_ok k w' \<and>
    (case res of
       Inl _ \<Rightarrow> owns w' R
     | Inr st \<Rightarrow> s_worker st = k \<and> owns w' (R\<lparr>r_streams := inc (s_inner st) (r_streams R)\<rparr>)
         \<and> mapped k i (Some (s_inner st)) w'))"
proof -
  obtain b where b: "cells (workers w) k = Some b" "distinct (map fst (am_streams (val b)))"
    using ok by (auto simp: map_ok_def)
  have pos: "0 < strong b"
    using counts_cell [OF owns_parts(4) [OF own] b(1)] by auto
  have get: "on_workers (rc_get k) w = (Ret (val b), w)"
    using b(1) pos by (simp add: on_workers_def rc_on_cell)
  note start = am_stream_def does_bind_eq [where m = "on_workers (rc_get k)" and w = w, OF get]
  show ?thesis
  proof (cases "map_of (am_streams (val b)) i")
    case (Some a)
    have "0 < stream_refs w R a"
      using refs_from_pos [OF owns_parts(3) [OF own] b(1), of a worker_streams] map_of_SomeD [OF Some]
      by (force simp: stream_refs_def)
    from stream_clone_owned [OF own this]
    have "does (on_streams (rc_clone a)) w (\<lambda>_ w'. map_ok k w' \<and> owns w' (R\<lparr>r_streams := inc a (r_streams R)\<rparr>)
       \<and> mapped k i (Some a) w')"
      by (rule does_mono) (use ok b(1) Some in \<open>auto simp: map_ok_def\<close>)
    then show ?thesis unfolding start Some by (simp del: does_on)
  next
    case None
    let ?a = "next_addr (streams w)" and ?u = "w\<lparr>streams := snd (rc_new (stream_new A i) (streams w))\<rparr>"
    have new: "on_streams (rc_new (stream_new A i)) w = (Ret ?a, ?u)"
      by (simp add: on_streams_def rc_new_def)
    have u: "owns ?u (R\<lparr>r_streams := inc ?a (r_streams R)\<rparr>)" "0 < worker_refs ?u (R\<lparr>r_streams := inc ?a (r_streams R)\<rparr>) k"
      "map_ok k ?u"
      using stream_alloc_owned [OF own refl] held ok by (simp_all add: worker_refs_def map_ok_def)
    show ?thesis
      unfolding start None option.case does_bind_eq [where m = "on_streams (rc_new (stream_new A i))" and w = w, OF new]
        does_bind [of "am_register E k i ?a"]
      by (rule does_mono [OF am_register_owned [OF lib u, of i ?a]], rule stream_entered_owned) (auto split: sum.splits)
  qed
qed

section \<open>Properties\<close>

text \<open>
  C3. Nothing is lost between the callback and the receivers: in every interleaving of arrivals,
  receivers, resumed tasks and an unregistration, the messages handed out followed by those still
  queued are exactly the messages that arrived, in order; and whenever a task waits, there is for
  every queued message a notified task about to fetch it.
\<close>

theorem messages_never_lost:
  assumes "stream_parts A items waiters permit" "(stream_step A B)\<^sup>*\<^sup>* (stream_start A i) s"
  shows "arrived s = handed_out s @ items (msgs (inner s))
    \<and> (waiters (notify (inner s)) \<noteq> [] \<longrightarrow> length (items (msgs (inner s))) \<le> length (notified s))"
  using stream_parts.steps_inv [OF assms] by (simp add: stream_parts.stream_inv_def [OF assms(1)])

text \<open>A run: two tasks wait, one message arrives.\<close>

theorem messages_never_lost_witness:
  "\<exists>s. (stream_step list_ops ucx_abi)\<^sup>*\<^sup>* (stream_start list_ops 3) s
     \<and> notify (inner s) = ([2], False) \<and> notified s = [1] \<and> arrived s = msgs (inner s) \<and> length (msgs (inner s)) = 1"
proof -
  let ?step = "stream_step list_ops ucx_abi"
  define s0 where "s0 = stream_start list_ops 3"
  define m where "m = raw_msg_from_raw ucx_abi 3 [7] \<lparr>as_ptr = 0, contents = []\<rparr> 0 0"
  define s1 where "s1 = s0\<lparr>inner := (inner s0)\<lparr>notify := ([1], False)\<rparr>\<rparr>"
  define s2 where "s2 = s0\<lparr>inner := (inner s0)\<lparr>notify := ([1, 2], False)\<rparr>\<rparr>"
  define s3 where "s3 = s0\<lparr>inner := (inner s0)\<lparr>msgs := [m], notify := ([2], False)\<rparr>, notified := [1], arrived := [m]\<rparr>"
  note simps = s0_def s1_def s2_def s3_def m_def stream_start_def stream_new_def list_ops_def list_queue_def
    list_notifier_def
  have "wait_turn list_ops 1 2 (inner s0) = (Some Parked, inner s1)"
    by (simp add: simps numeral_2_eq_2)
  from stream_step.enter [OF this] have "?step s0 s1" by (simp add: log_turn_def s1_def)
  moreover have "wait_turn list_ops 2 2 (inner s1) = (Some Parked, inner s2)"
    by (simp add: simps numeral_2_eq_2)
  from stream_step.enter [OF this] have "?step s1 s2" by (simp add: log_turn_def s1_def s2_def)
  moreover have "stream_callback list_ops ucx_abi [7] \<lparr>as_ptr = 0, contents = []\<rparr> 0 0 (inner s2) = (Some 1, inner s3)"
    by (simp add: simps stream_callback_def Let_def)
  from stream_step.arrive [OF this] have "?step s2 s3" by (simp add: simps)
  ultimately have run: "?step\<^sup>*\<^sup>* (stream_start list_ops 3) s3"
    unfolding s0_def by (meson converse_rtranclp_into_rtranclp rtranclp.rtrancl_refl)
  have "arrived s3 = handed_out s3 @ msgs (inner s3)"
    using messages_never_lost [OF list_parts run] by simp
  moreover have "handed_out s3 = []" by (simp add: simps)
  ultimately have "arrived s3 = msgs (inner s3)" by simp
  with run show ?thesis
    by (intro exI [of _ s3]) (simp add: s3_def s0_def)
qed

text \<open>
  The library's pointer to a stream is good as long as the stream is registered: the callback
  of any stream in a worker's map runs without a fault, queues the message, keeps ownership and
  answers as its attributes say.
\<close>

theorem registered_callback_safe:
  assumes "owns w R" "cells (workers w) k = Some b" "map_of (am_streams (val b)) i = Some a"
  shows "\<exists>w'. am_callback E A a header data rep attr w = (Ret (am_callback_status (binds E) attr), w')
    \<and> owns w' R \<and> workers w' = workers w"
proof -
  have held: "0 < stream_refs w R a"
    using refs_from_pos [OF owns_parts(3) [OF assms(1)] assms(2), of a worker_streams] map_of_SomeD [OF assms(3)]
    by (force simp: stream_refs_def)
  then obtain c where c: "cells (streams w) a = Some c" "0 < strong c"
    using countsD [OF owns_parts(6) [OF assms(1)] held] by auto
  obtain woken s' where call: "stream_callback A (binds E) header data rep attr (val c) = (woken, s')" by fastforce
  obtain w1 where update: "on_streams (rc_update a (\<lambda>_. s')) w = (Ret (), w1)" "owns w1 R" "workers w1 = workers w"
    using stream_update_owned [OF assms(1) held, of "\<lambda>_. s'"] by (auto simp: does_def)
  have get: "on_streams (rc_get a) w = (Ret (val c), w)"
    using c by (simp add: on_streams_def rc_on_cell)
  show ?thesis
    by (cases woken) (simp_all add: am_callback_def bind_def get call update ret_def modify_def)
qed

definition demo_am :: "(reply list, nat option, RawMsg list, nat list \<times> bool, unit) am_world" where
  "demo_am = (sample_world [])\<lparr>
     contexts := \<lparr>cells = [0 \<mapsto> \<lparr>strong = 1, weak = 0, val = \<lparr>c_handle = 0\<rparr>\<rparr>], next_addr = 1\<rparr>,
     workers := \<lparr>cells = [0 \<mapsto> \<lparr>strong = 1, weak = 0, val = \<lparr>w_handle = 0, w_context = 0, am_streams = []\<rparr>\<rparr>],
       next_addr = 1\<rparr>\<rparr>"

definition demo_refs :: refs where
  "demo_refs = \<lparr>r_contexts = (\<lambda>_. 0), r_workers = (\<lambda>a. if a = 0 then 1 else 0), r_endpoints = (\<lambda>_. 0),
     r_streams = (\<lambda>_. 0)\<rparr>"

lemma demo_am_owns: "owns demo_am demo_refs" "0 < worker_refs demo_am demo_refs 0" "map_ok 0 demo_am"
  by (auto simp: demo_am_def demo_refs_def sample_world_def owns_def heap_fresh_def empty_heap_def counts_def
      endpoints_ok_def refs_from_def refs_defs map_ok_def split: option.split)

text \<open>
  \<^verbatim>\<open>am_stream\<close> never faults and keeps ownership: on success the caller has a new reference to
  the stream that is now in the worker's map under the identifier, on failure nothing is left.
\<close>

theorem am_stream_registers:
  assumes "ucx_library E" "owns w R" "0 < worker_refs w R k" "map_ok k w"
  shows "\<exists>res w'. am_stream E A k i w = (Ret res, w') \<and> map_ok k w'
    \<and> (case res of
         Inl _ \<Rightarrow> owns w' R
       | Inr st \<Rightarrow> owns w' (R\<lparr>r_streams := inc (s_inner st) (r_streams R)\<rparr>)
           \<and> (\<exists>b. cells (workers w') k = Some b \<and> map_of (am_streams (val b)) i = Some (s_inner st)))"
proof -
  obtain res w' where "am_stream E A k i w = (Ret res, w')" and "map_ok k w' \<and> (case res of
       Inl _ \<Rightarrow> owns w' R
     | Inr st \<Rightarrow> s_worker st = k \<and> owns w' (R\<lparr>r_streams := inc (s_inner st) (r_streams R)\<rparr>)
         \<and> (\<exists>b. cells (workers w') k = Some b \<and> map_of (am_streams (val b)) i = Some (s_inner st)))"
    using am_stream_owned [OF assms, of A i] unfolding does_def by (elim exE) (erule conjE, rule that)
  then show ?thesis
    by (intro exI [of _ res] exI [of _ w']) (cases res, simp_all)
qed

lemma demo_am_stream:
  "fst (am_stream (lawful_env Debug) list_ops 0 3 demo_am) = Ret (Ok \<lparr>s_worker = 0, s_inner = 0\<rparr>)"
  by (simp add: demo_am_def am_stream_def am_register_def machine_simps sample_world_def empty_heap_def)

theorem am_stream_registers_witness:
  "\<exists>w' b. am_stream (lawful_env Debug) list_ops 0 3 demo_am = (Ret (Ok \<lparr>s_worker = 0, s_inner = 0\<rparr>), w')
     \<and> cells (workers w') 0 = Some b \<and> map_of (am_streams (val b)) 3 = Some 0"
proof -
  obtain res w' where run: "am_stream (lawful_env Debug) list_ops 0 3 demo_am = (Ret res, w')"
    and post: "case res of
         Inl _ \<Rightarrow> owns w' demo_refs
       | Inr st \<Rightarrow> owns w' (demo_refs\<lparr>r_streams := inc (s_inner st) (r_streams demo_refs)\<rparr>)
           \<and> (\<exists>b. cells (workers w') 0 = Some b \<and> map_of (am_streams (val b)) 3 = Some (s_inner st))"
    using am_stream_registers [OF lawful.ucx_library_axioms [of Debug] demo_am_owns, where A = list_ops and i = 3] by (elim exE conjE)
  have "res = Ok \<lparr>s_worker = 0, s_inner = 0\<rparr>" using demo_am_stream run by simp
  with run post show ?thesis by auto
qed

theorem registered_callback_safe_witness:
  "\<exists>w0 w'. am_stream (lawful_env Debug) list_ops 0 3 demo_am = (Ret (Ok \<lparr>s_worker = 0, s_inner = 0\<rparr>), w0)
     \<and> am_callback (lawful_env Debug) list_ops 0 [7] \<lparr>as_ptr = 16, contents = [1]\<rparr> 0 0 w0 = (Ret UCS_OK, w')"
proof -
  let ?E = "lawful_env Debug"
  obtain w0 where run: "am_stream ?E list_ops 0 3 demo_am = (Ret (Ok \<lparr>s_worker = 0, s_inner = 0\<rparr>), w0)"
    using demo_am_stream by (cases "am_stream ?E list_ops 0 3 demo_am") simp
  from does_Ret [OF am_stream_owned [OF lawful.ucx_library_axioms demo_am_owns] run]
  obtain b where own: "owns w0 (demo_refs\<lparr>r_streams := inc 0 (r_streams demo_refs)\<rparr>)"
    and b: "cells (workers w0) 0 = Some b" "map_of (am_streams (val b)) 3 = Some 0" by auto
  from registered_callback_safe [OF own b, of ?E list_ops "[7]" "\<lparr>as_ptr = 16, contents = [1]\<rparr>" 0 0]
  have "\<exists>w'. am_callback ?E list_ops 0 [7] \<lparr>as_ptr = 16, contents = [1]\<rparr> 0 0 w0 = (Ret UCS_OK, w')"
    by (elim exE conjE) (intro exI, simp add: am_callback_status_def has_flag_def)
  with run show ?thesis by (elim exE) (intro exI conjI)
qed

text \<open>
  C36. Unregistering does not wake the tasks that wait on the stream: a task suspended in
  \<^verbatim>\<open>wait_msg\<close> when the handler is replaced stays suspended for any number of polls, unless a message
  still arrives; \<^verbatim>\<open>None\<close> is not returned to it.
\<close>

theorem unregistered_waiter_hangs:
  assumes "permit_notifier (notify_ops A) waiters permit"
    and "cells (streams w) (s_inner s) = Some b" "0 < strong b" "val b = stream_unregister i"
    and "t \<in> set (waiters (notify i))"
    and "\<forall>v. cells (streams (others v)) (s_inner s) = cells (streams v) (s_inner s)"
  shows "fst (wait_msg A t others s True n w) = Unfinished"
  using assms(2)
proof (induction n arbitrary: w)
  case 0
  then show ?case by (simp add: lift_def)
next
  case (Suc n)
  have get: "on_streams (rc_get (s_inner s)) w = (Ret (stream_unregister i), w)"
    using Suc.prems assms(3,4) by (simp add: on_streams_def rc_on_cell)
  have "n_pending (notify_ops A) t (notify (stream_unregister i))"
    using permit_notifier.pending_waits [OF assms(1)] assms(5) by (simp add: stream_unregister_def)
  moreover have "cells (streams (others w)) (s_inner s) = Some b"
    using assms(6) Suc.prems by simp
  ultimately show ?case
    using Suc.IH [of "others w"] by (simp add: bind_def get modify_def)
qed

theorem unregistered_waiter_hangs_witness:
  "fst (wait_msg list_ops 1 (\<lambda>w. w) \<lparr>s_worker = 0, s_inner = 0\<rparr> True 1000
     (demo_am\<lparr>streams := \<lparr>cells = [0 \<mapsto> \<lparr>strong = 1, weak = 0,
        val = stream_unregister \<lparr>st_id = 3, msgs = [], notify = ([1], False), unregistered = False\<rparr>\<rparr>], next_addr = 1\<rparr>\<rparr>))
   = Unfinished"
  by (rule unregistered_waiter_hangs [where waiters = fst and permit = snd
        and b = "\<lparr>strong = 1, weak = 0, val = stream_unregister \<lparr>st_id = 3, msgs = [], notify = ([1], False), unregistered = False\<rparr>\<rparr>"
        and i = "\<lparr>st_id = 3, msgs = [], notify = ([1], False), unregistered = False\<rparr>"])
    (simp_all add: list_ops_def ln.permit_notifier_axioms)

end
