(* ===== verification/Listener.thy ===== *)
theory Listener
  imports AmStream
begin

text \<open>
  \<^verbatim>\<open>src/ucp/listener.rs\<close>: a listener, the channel through which its connection handler passes the
  requests on, and accepting or rejecting them. The channel (\<^verbatim>\<open>futures::channel::mpsc\<close>, unbounded)
  is a parameter with its documented behaviour. \<^verbatim>\<open>ConnectionRequest\<close> is in the theory \<open>Connect\<close>.
\<close>

section \<open>The channel\<close>

text \<open>\<open>ch_send\<close> is \<^verbatim>\<open>unbounded_send\<close> (\<open>False\<close>: refused), \<open>ch_recv\<close> one poll of the receiver.\<close>

record 'c channel_ops =
  ch_new :: 'c
  ch_send :: "ConnectionRequest \<Rightarrow> 'c \<Rightarrow> bool \<times> 'c"
  ch_recv :: "'c \<Rightarrow> ConnectionRequest option \<times> 'c"

locale unbounded_channel =
  fixes C :: "'c channel_ops" and sent :: "'c \<Rightarrow> ConnectionRequest list"
  assumes sent_new: "sent (ch_new C) = []"
    and send_queues: "fst (ch_send C r c) \<and> sent (snd (ch_send C r c)) = sent c @ [r]"
    and recv_empty: "sent c = [] \<Longrightarrow> fst (ch_recv C c) = None \<and> sent (snd (ch_recv C c)) = []"
    and recv_front: "sent c = r # rs \<Longrightarrow> fst (ch_recv C c) = Some r \<and> sent (snd (ch_recv C c)) = rs"

definition list_channel :: "ConnectionRequest list channel_ops" where
  "list_channel = \<lparr>ch_new = [], ch_send = (\<lambda>r c. (True, c @ [r])),
     ch_recv = (\<lambda>c. case c of [] \<Rightarrow> (None, []) | r # rs \<Rightarrow> (Some r, rs))\<rparr>"

interpretation lc: unbounded_channel list_channel "\<lambda>c. c"
  by unfold_locales (simp_all add: list_channel_def)

section \<open>Connection requests\<close>

text \<open>An out parameter that was zeroed before the call.\<close>

definition zero_or :: "u64 option \<Rightarrow> u64" where
  "zero_or w = (case w of None \<Rightarrow> 0 | Some x \<Rightarrow> x)"

text \<open>
  \<^verbatim>\<open>remote_addr\<close>: the address that the library fills in is converted by \<^verbatim>\<open>socket2\<close>, which is the
  parameter \<open>as_socket\<close>.
\<close>

definition remote_addr ::
  "('u, 'wk) env \<Rightarrow> (u64 \<Rightarrow> 'addr option) \<Rightarrow> ConnectionRequest \<Rightarrow> (('u, 'wk, 's, 'c) world, ('addr, Error) result) prog" where
  "remote_addr E as_socket conn =
     bind (ffi E (Ucp_conn_request_query (cr_handle conn) (num (binds E) UCP_CONN_REQUEST_ATTR_FIELD_CLIENT_ADDR))) (\<lambda>r.
     try_bind (lift (from_status (prof E) (status_of r))) (\<lambda>_.
     bind (lift (unwrap_option (as_socket (zero_or (out_word r))))) (\<lambda>addr. ret (Ok addr))))"

text \<open>The handler that the library calls with the address of the listener's sender.\<close>

definition connect_handler ::
  "'c channel_ops \<Rightarrow> nat \<Rightarrow> handle \<Rightarrow> (('u, 'wk, 's, 'c) world, unit) prog" where
  "connect_handler C arg conn =
     bind (on_channels (rc_get arg)) (\<lambda>c. case ch_send C \<lparr>cr_handle = conn\<rparr> c of (accepted, c') \<Rightarrow>
       bind (on_channels (rc_update arg (\<lambda>_. c'))) (\<lambda>_.
         if accepted then ret () else lift (Fault (Panic Unwrap_on_err))))"

section \<open>\<^verbatim>\<open>Listener\<close>\<close>

record Listener =
  l_handle :: handle
  l_channel :: nat

definition listener_new ::
  "('u, 'wk) env \<Rightarrow> 'c channel_ops \<Rightarrow> nat \<Rightarrow> u8 list \<Rightarrow> (('u, 'wk, 's, 'c) world, (Listener, Error) result) prog" where
  "listener_new E C wk addr =
     bind (on_channels (rc_new (ch_new C))) (\<lambda>a.
     bind (worker_call E wk (\<lambda>h. Ucp_listener_create h
             (num (binds E) UCP_LISTENER_PARAM_FIELD_SOCK_ADDR OR num (binds E) UCP_LISTENER_PARAM_FIELD_CONN_HANDLER)
             addr a)) (\<lambda>r.
     bind (lift (from_status (prof E) (status_of r))) (\<lambda>res. case res of
         Inl err \<Rightarrow> bind (on_channels (rc_drop a)) (\<lambda>_. ret (Err err))
       | Inr _ \<Rightarrow> bind (lift (assume_init (out_word r))) (\<lambda>h. ret (Ok \<lparr>l_handle = h, l_channel = a\<rparr>)))))"

text \<open>\<^verbatim>\<open>Worker::create_listener\<close>.\<close>

definition create_listener ::
  "('u, 'wk) env \<Rightarrow> 'c channel_ops \<Rightarrow> nat \<Rightarrow> u8 list \<Rightarrow> (('u, 'wk, 's, 'c) world, (Listener, Error) result) prog" where
  "create_listener E C wk addr = listener_new E C wk addr"

definition listener_socket_addr ::
  "('u, 'wk) env \<Rightarrow> (u64 \<Rightarrow> 'addr option) \<Rightarrow> Listener \<Rightarrow> (('u, 'wk, 's, 'c) world, ('addr, Error) result) prog" where
  "listener_socket_addr E as_socket l =
     bind (ffi E (Ucp_listener_query (l_handle l) (num (binds E) UCP_LISTENER_ATTR_FIELD_SOCKADDR))) (\<lambda>r.
     try_bind (lift (from_status (prof E) (status_of r))) (\<lambda>_.
     bind (lift (unwrap_option (as_socket (zero_or (out_word r))))) (\<lambda>addr. ret (Ok addr))))"

text \<open>
  \<^verbatim>\<open>next\<close>, observed for a number of polls. The stream of requests does not end, as the listener
  itself keeps a sender, so the \<^verbatim>\<open>unwrap\<close> cannot fail.
\<close>

fun listener_next ::
  "'c channel_ops \<Rightarrow> (('u, 'wk, 's, 'c) world \<Rightarrow> ('u, 'wk, 's, 'c) world) \<Rightarrow> Listener \<Rightarrow> nat \<Rightarrow>
   (('u, 'wk, 's, 'c) world, ConnectionRequest) prog" where
  "listener_next C others l 0 = lift Unfinished"
| "listener_next C others l (Suc n) =
     bind (on_channels (rc_get (l_channel l))) (\<lambda>c. case ch_recv C c of (r, c') \<Rightarrow>
       bind (on_channels (rc_update (l_channel l) (\<lambda>_. c'))) (\<lambda>_. case r of
           Some conn \<Rightarrow> ret conn
         | None \<Rightarrow> bind (modify others) (\<lambda>_. listener_next C others l n)))"

definition listener_reject ::
  "('u, 'wk) env \<Rightarrow> Listener \<Rightarrow> ConnectionRequest \<Rightarrow> (('u, 'wk, 's, 'c) world, (unit, Error) result) prog" where
  "listener_reject E l conn =
     bind (ffi E (Ucp_listener_reject (l_handle l) (cr_handle conn))) (\<lambda>r.
       lift (from_status (prof E) (status_of r)))"

text \<open>\<^verbatim>\<open>Listener::drop\<close>, then the drop of its sender (and of the receiver with it).\<close>

definition listener_drop :: "('u, 'wk) env \<Rightarrow> Listener \<Rightarrow> (('u, 'wk, 's, 'c) world, unit) prog" where
  "listener_drop E l =
     bind (ffi E (Ucp_listener_destroy (l_handle l))) (\<lambda>_.
     bind (on_channels (rc_drop (l_channel l))) (\<lambda>_. ret ()))"

section \<open>Properties\<close>

fun handle_all :: "'c channel_ops \<Rightarrow> nat \<Rightarrow> handle list \<Rightarrow> (('u, 'wk, 's, 'c) world, unit) prog" where
  "handle_all C arg [] = ret ()"
| "handle_all C arg (h # hs) = bind (connect_handler C arg h) (\<lambda>_. handle_all C arg hs)"

fun next_all ::
  "'c channel_ops \<Rightarrow> Listener \<Rightarrow> nat \<Rightarrow> (('u, 'wk, 's, 'c) world, ConnectionRequest list) prog" where
  "next_all C l 0 = ret []"
| "next_all C l (Suc n) =
     bind (listener_next C (\<lambda>w. w) l 1) (\<lambda>r. bind (next_all C l n) (\<lambda>rs. ret (r # rs)))"

context unbounded_channel
begin

lemma handler_queues:
  assumes "cells (channels w) a = Some b" "0 < strong b"
  shows "\<exists>b' w'. connect_handler C a h w = (Ret (), w') \<and> cells (channels w') a = Some b' \<and> 0 < strong b'
    \<and> sent (val b') = sent (val b) @ [\<lparr>cr_handle = h\<rparr>]"
proof -
  obtain c' where send: "ch_send C \<lparr>cr_handle = h\<rparr> (val b) = (True, c')" "sent c' = sent (val b) @ [\<lparr>cr_handle = h\<rparr>]"
    using send_queues [of "\<lparr>cr_handle = h\<rparr>" "val b"] by (cases "ch_send C \<lparr>cr_handle = h\<rparr> (val b)") auto
  then show ?thesis
    using assms by (simp add: connect_handler_def bind_def on_channels_def rc_on_cell ret_def)
qed

lemma handlers_queue:
  assumes "cells (channels w) a = Some b" "0 < strong b"
  shows "\<exists>b' w'. handle_all C a hs w = (Ret (), w') \<and> cells (channels w') a = Some b' \<and> 0 < strong b'
    \<and> sent (val b') = sent (val b) @ map (\<lambda>h. \<lparr>cr_handle = h\<rparr>) hs"
  using assms
proof (induction hs arbitrary: w b)
  case Nil
  then show ?case by (simp add: ret_def)
next
  case (Cons h hs)
  obtain b' w' where first: "connect_handler C a h w = (Ret (), w')" "cells (channels w') a = Some b'" "0 < strong b'"
    "sent (val b') = sent (val b) @ [\<lparr>cr_handle = h\<rparr>]"
    using handler_queues [OF Cons.prems, of h] by blast
  from Cons.IH [OF first(2,3)] first(1,4) show ?case
    by (simp add: bind_def)
qed

lemma next_takes:
  assumes "cells (channels w) (l_channel l) = Some b" "0 < strong b" "sent (val b) = r # rs"
  shows "\<exists>b' w'. listener_next C others l (Suc n) w = (Ret r, w') \<and> cells (channels w') (l_channel l) = Some b'
    \<and> 0 < strong b' \<and> sent (val b') = rs"
proof -
  obtain c' where "ch_recv C (val b) = (Some r, c')" "sent c' = rs"
    using recv_front [OF assms(3)] by (cases "ch_recv C (val b)") auto
  then show ?thesis
    using assms by (simp add: bind_def on_channels_def rc_on_cell ret_def)
qed

lemma nexts_take:
  assumes "cells (channels w) (l_channel l) = Some b" "0 < strong b" "sent (val b) = rs @ rest"
  shows "\<exists>w'. next_all C l (length rs) w = (Ret rs, w')"
  using assms
proof (induction rs arbitrary: w b)
  case Nil
  then show ?case by (simp add: ret_def)
next
  case (Cons r rs)
  obtain b' w' where first: "listener_next C (\<lambda>w. w) l 1 w = (Ret r, w')" "cells (channels w') (l_channel l) = Some b'"
    "0 < strong b'" "sent (val b') = rs @ rest"
    using next_takes [OF Cons.prems(1,2), of r "rs @ rest" "\<lambda>w. w" 0] Cons.prems(3) by auto
  from Cons.IH [OF first(2-4)] first(1) show ?case
    by (auto simp: bind_def ret_def)
qed

end

text \<open>
  C24. Incoming connections are handed out in the order in which they arrived, none twice and none
  missing: after the handler has run for the requests \<open>hs\<close>, on a listener with nothing pending,
  \<open>next\<close> returns them one after the other, each at its first poll.
\<close>

theorem connections_in_order:
  assumes "unbounded_channel C sent"
    and "cells (channels w) (l_channel l) = Some b" "0 < strong b" "sent (val b) = []"
  shows "\<exists>w1 w2. handle_all C (l_channel l) hs w = (Ret (), w1)
    \<and> next_all C l (length hs) w1 = (Ret (map (\<lambda>h. \<lparr>cr_handle = h\<rparr>) hs), w2)"
proof -
  obtain b' w1 where run: "handle_all C (l_channel l) hs w = (Ret (), w1)"
    and b': "cells (channels w1) (l_channel l) = Some b'" "0 < strong b'"
    and sent: "sent (val b') = map (\<lambda>h. \<lparr>cr_handle = h\<rparr>) hs @ []"
    using unbounded_channel.handlers_queue [OF assms(1-3), of hs] assms(4) by auto
  from unbounded_channel.nexts_take [OF assms(1) b' sent] run show ?thesis by auto
qed

theorem connections_in_order_witness:
  "\<exists>w1 w2. handle_all list_channel 0 [5, 6] (sample_world []\<lparr>channels := \<lparr>cells = [0 \<mapsto> \<lparr>strong = 1, weak = 0, val = []\<rparr>],
       next_addr = 1\<rparr>\<rparr> :: (reply list, nat option, unit, ConnectionRequest list) world) = (Ret (), w1)
     \<and> next_all list_channel \<lparr>l_handle = 9, l_channel = 0\<rparr> 2 w1 = (Ret [\<lparr>cr_handle = 5\<rparr>, \<lparr>cr_handle = 6\<rparr>], w2)"
  using connections_in_order [OF lc.unbounded_channel_axioms, of
      "sample_world []\<lparr>channels := \<lparr>cells = [0 \<mapsto> \<lparr>strong = 1, weak = 0, val = []\<rparr>], next_addr = 1\<rparr>\<rparr>"
      "\<lparr>l_handle = 9, l_channel = 0\<rparr>" "\<lparr>strong = 1, weak = 0, val = []\<rparr>" "[5, 6]"]
  by (simp add: numeral_2_eq_2)

end
