(* ===== verification/Progress.thy ===== *)
theory Progress
  imports Listener
begin

text \<open>
  Progress (\<^verbatim>\<open>src/ucp/worker.rs\<close>): \<^verbatim>\<open>ucp_worker_progress\<close> runs the callbacks that the other theories
  model, in the order the library reports, and the two loops \<^verbatim>\<open>polling\<close> and \<^verbatim>\<open>event_poll\<close> drive it for
  as long as somebody else uses the worker.
\<close>

section \<open>Progress\<close>

type_synonym ('u, 'wk, 'q, 'n, 'c) full_world = "('u, 'wk, ('q, 'n) AmStreamInner, 'c) world"

definition run_callback ::
  "('u, 'wk) env \<Rightarrow> ('q, 'n) am_ops \<Rightarrow> 'c channel_ops \<Rightarrow> callback \<Rightarrow> (('u, 'wk, 'q, 'n, 'c) full_world, unit) prog" where
  "run_callback E A C cb = (case cb of
       Err_handler arg ep status \<Rightarrow> err_handler E arg ep status
     | Request_done ptr \<Rightarrow> wake_request E ptr
     | Conn_handler arg conn \<Rightarrow> connect_handler C arg conn
     | Am_handler arg header data rep attr \<Rightarrow>
         bind (am_callback E A arg header data rep attr) (\<lambda>_. ret ()))"

fun run_callbacks ::
  "('u, 'wk) env \<Rightarrow> ('q, 'n) am_ops \<Rightarrow> 'c channel_ops \<Rightarrow> callback list \<Rightarrow> (('u, 'wk, 'q, 'n, 'c) full_world, unit) prog" where
  "run_callbacks E A C [] = ret ()"
| "run_callbacks E A C (cb # cbs) = bind (run_callback E A C cb) (\<lambda>_. run_callbacks E A C cbs)"

definition worker_progress ::
  "('u, 'wk) env \<Rightarrow> ('q, 'n) am_ops \<Rightarrow> 'c channel_ops \<Rightarrow> nat \<Rightarrow> (('u, 'wk, 'q, 'n, 'c) full_world, u32) prog" where
  "worker_progress E A C wk =
     bind (worker_call E wk Ucp_worker_progress) (\<lambda>r.
     bind (run_callbacks E A C (ran_callbacks r)) (\<lambda>_. ret (count_of r)))"

text \<open>\<^verbatim>\<open>while self.progress() != 0 {}\<close>, at most the given number of times.\<close>

fun progress_all ::
  "('u, 'wk) env \<Rightarrow> ('q, 'n) am_ops \<Rightarrow> 'c channel_ops \<Rightarrow> nat \<Rightarrow> nat \<Rightarrow> (('u, 'wk, 'q, 'n, 'c) full_world, unit) prog" where
  "progress_all E A C wk 0 = lift Unfinished"
| "progress_all E A C wk (Suc n) =
     bind (worker_progress E A C wk) (\<lambda>count. if count \<noteq> 0 then progress_all E A C wk n else ret ())"

section \<open>The loops\<close>

text \<open>
  \<^verbatim>\<open>polling\<close> owns one reference to the worker, which it drops at the end; \<open>spins\<close> bounds the inner
  loop, the executor's number of polls the outer one.
\<close>

fun polling ::
  "('u, 'wk) env \<Rightarrow> ('q, 'n) am_ops \<Rightarrow> 'c channel_ops \<Rightarrow>
   (('u, 'wk, 'q, 'n, 'c) full_world \<Rightarrow> ('u, 'wk, 'q, 'n, 'c) full_world) \<Rightarrow> nat \<Rightarrow> nat \<Rightarrow> nat \<Rightarrow>
   (('u, 'wk, 'q, 'n, 'c) full_world, unit) prog" where
  "polling E A C others spins wk 0 = lift Unfinished"
| "polling E A C others spins wk (Suc n) =
     bind (on_workers (rc_counts wk)) (\<lambda>(strong_count, _).
       if 1 < strong_count then
         bind (progress_all E A C wk spins) (\<lambda>_.
         bind (modify others) (\<lambda>_. polling E A C others spins wk n))
       else worker_drop E wk)"

text \<open>
  The loop of \<^verbatim>\<open>event_poll\<close>: it sleeps (\<^verbatim>\<open>wait_fd.readable().await\<close>, which is \<open>others\<close> running until the
  descriptor is readable) only after the library has agreed to wake it.
\<close>

fun event_loop ::
  "('u, 'wk) env \<Rightarrow> ('q, 'n) am_ops \<Rightarrow> 'c channel_ops \<Rightarrow>
   (('u, 'wk, 'q, 'n, 'c) full_world \<Rightarrow> ('u, 'wk, 'q, 'n, 'c) full_world) \<Rightarrow> nat \<Rightarrow> nat \<Rightarrow> nat \<Rightarrow>
   (('u, 'wk, 'q, 'n, 'c) full_world, (unit, Error) result) prog" where
  "event_loop E A C others spins wk 0 = lift Unfinished"
| "event_loop E A C others spins wk (Suc n) =
     bind (on_workers (rc_counts wk)) (\<lambda>(strong_count, _).
       if 1 < strong_count then
         bind (progress_all E A C wk spins) (\<lambda>_.
         bind (worker_arm E wk) (\<lambda>res.
         bind (lift (unwrap res)) (\<lambda>sleep.
         bind (if sleep then modify others else ret ()) (\<lambda>_.
           event_loop E A C others spins wk n))))
       else ret (Ok ()))"

text \<open>
  \<open>fd_ok\<close>: whether \<^verbatim>\<open>tokio\<close> can watch the descriptor (it panics otherwise). On every way out the
  reference \<^verbatim>\<open>self\<close> is dropped.
\<close>

definition event_poll ::
  "('u, 'wk) env \<Rightarrow> ('q, 'n) am_ops \<Rightarrow> 'c channel_ops \<Rightarrow> (u64 \<Rightarrow> bool) \<Rightarrow>
   (('u, 'wk, 'q, 'n, 'c) full_world \<Rightarrow> ('u, 'wk, 'q, 'n, 'c) full_world) \<Rightarrow> nat \<Rightarrow> nat \<Rightarrow> nat \<Rightarrow>
   (('u, 'wk, 'q, 'n, 'c) full_world, (unit, Error) result) prog" where
  "event_poll E A C fd_ok others spins wk n =
     bind (worker_event_fd E wk) (\<lambda>res.
     bind (case res of
         Inl err \<Rightarrow> ret (Err err)
       | Inr fd \<Rightarrow>
           if fd_ok fd then event_loop E A C others spins wk n
           else lift (Fault (Panic Unwrap_on_err))) (\<lambda>out.
     bind (worker_drop E wk) (\<lambda>_. ret out)))"

section \<open>Properties\<close>

lemma wake_one:
  assumes "waker_cell (waker_ops E) stored" "reqs w ptr = Some a"
  shows "\<exists>w'. wake_request E ptr w = (Ret (), w') \<and> set (scheduled w) \<subseteq> set (scheduled w')
    \<and> (\<forall>t. stored a = Some t \<longrightarrow> t \<in> set (scheduled w'))
    \<and> (\<forall>p. p \<noteq> ptr \<longrightarrow> reqs w' p = reqs w p) \<and> reqs w' ptr \<noteq> None"
proof -
  obtain t a' where take: "aw_take (waker_ops E) a = (t, a')" by fastforce
  then have "stored a = t"
    using waker_cell.take_stored [OF assms(1), of a] by simp
  then show ?thesis
    using assms(2) take by (cases t) (auto simp: wake_request_def)
qed

lemma wake_all:
  assumes "waker_cell (waker_ops E) stored" "distinct ptrs" "\<forall>p\<in>set ptrs. \<exists>a. reqs w p = Some a \<and> stored a = Some (f p)"
  shows "\<exists>w'. run_callbacks E A C (map Request_done ptrs) w = (Ret (), w')
    \<and> set (scheduled w) \<subseteq> set (scheduled w') \<and> f ` set ptrs \<subseteq> set (scheduled w')"
  using assms(2,3)
proof (induction ptrs arbitrary: w)
  case Nil
  then show ?case by (simp add: ret_def)
next
  case (Cons p ps)
  obtain a where a: "reqs w p = Some a" "stored a = Some (f p)" using Cons.prems(2) by auto
  obtain w1 where first: "wake_request E p w = (Ret (), w1)" "set (scheduled w) \<subseteq> set (scheduled w1)"
    "f p \<in> set (scheduled w1)" "\<forall>q. q \<noteq> p \<longrightarrow> reqs w1 q = reqs w q"
    using wake_one [OF assms(1) a(1)] a(2) by auto
  have "\<forall>q\<in>set ps. \<exists>a. reqs w1 q = Some a \<and> stored a = Some (f q)"
    using Cons.prems first(4) by auto
  from Cons.IH [OF _ this] Cons.prems(1) obtain w2 where
    "run_callbacks E A C (map Request_done ps) w1 = (Ret (), w2)"
    "set (scheduled w1) \<subseteq> set (scheduled w2)" "f ` set ps \<subseteq> set (scheduled w2)" by auto
  with first show ?case
    by (auto simp: bind_def run_callback_def)
qed

text \<open>
  C28. Completions reach their tasks: one call of \<^verbatim>\<open>progress\<close> in which the library completes the
  requests \<open>ptrs\<close> (each with a registered waker) schedules the task of every one of them.
\<close>

theorem progress_wakes:
  assumes "waker_cell (waker_ops E) stored" "rc_get wk (workers w) = (Ret v, workers w)"
    and "ran_callbacks (fst (ucx E (Ucp_worker_progress (w_handle v)) (lib w))) = map Request_done ptrs"
    and "distinct ptrs" "\<forall>p\<in>set ptrs. \<exists>a. reqs w p = Some a \<and> stored a = Some (f p)"
  shows "\<exists>n w'. worker_progress E A C wk w = (Ret n, w') \<and> f ` set ptrs \<subseteq> set (scheduled w')"
proof -
  let ?u = "after_call E (Ucp_worker_progress (w_handle v)) w"
  have "worker_call E wk Ucp_worker_progress w = (Ret (fst (ucx E (Ucp_worker_progress (w_handle v)) (lib w))), ?u)"
    by (simp add: worker_call_def bind_def on_workers_def assms(2) ffi_after)
  moreover have "\<forall>p\<in>set ptrs. \<exists>a. reqs ?u p = Some a \<and> stored a = Some (f p)"
    using assms(5) by (simp add: after_call_def)
  from wake_all [OF assms(1,4) this, of A C] obtain w' where
    "run_callbacks E A C (map Request_done ptrs) ?u = (Ret (), w')" "f ` set ptrs \<subseteq> set (scheduled w')" by blast
  ultimately show ?thesis
    by (simp add: worker_progress_def bind_def assms(3) ret_def)
qed

definition demo_full :: "nat \<Rightarrow> reply list \<Rightarrow> (reply list, nat option, RawMsg list, nat list \<times> bool, ConnectionRequest list) full_world" where
  "demo_full n script = (sample_world script)\<lparr>
     contexts := \<lparr>cells = [0 \<mapsto> \<lparr>strong = 1, weak = 0, val = \<lparr>c_handle = 0\<rparr>\<rparr>], next_addr = 1\<rparr>,
     workers := \<lparr>cells = [0 \<mapsto> \<lparr>strong = Suc n, weak = 0, val = \<lparr>w_handle = 0, w_context = 0, am_streams = []\<rparr>\<rparr>],
       next_addr = 1\<rparr>\<rparr>"

theorem progress_wakes_witness:
  "\<exists>n w'. worker_progress (lawful_env Debug) list_ops list_channel 0
     (demo_full 0 [ok_reply\<lparr>ran_callbacks := [Request_done 64, Request_done 72]\<rparr>]\<lparr>reqs := [64 \<mapsto> Some 1, 72 \<mapsto> Some 2]\<rparr>)
       = (Ret n, w')
     \<and> {1, 2} \<subseteq> set (scheduled w')"
proof -
  let ?w = "demo_full 0 [ok_reply\<lparr>ran_callbacks := [Request_done 64, Request_done 72]\<rparr>]\<lparr>reqs := [64 \<mapsto> Some 1, 72 \<mapsto> Some 2]\<rparr>"
  let ?v = "\<lparr>w_handle = 0, w_context = 0, am_streams = []\<rparr>" and ?E = "lawful_env Debug"
  have cell: "waker_cell (waker_ops ?E) (\<lambda>a. a)"
    using ow.waker_cell_axioms by simp
  have worker: "rc_get 0 (workers ?w) = (Ret ?v, workers ?w)"
    by (simp add: demo_full_def rc_get_def)
  have "ran_callbacks (fst (ucx ?E (Ucp_worker_progress (w_handle ?v)) (lib ?w))) = map Request_done [64, 72]"
    by (simp add: demo_full_def sample_world_def lawful_def)
  from progress_wakes [OF cell worker this, of "\<lambda>p. if p = 64 then 1 else 2" list_ops list_channel]
  have "\<exists>n w'. worker_progress ?E list_ops list_channel 0 ?w = (Ret n, w')
      \<and> (\<lambda>p. if p = 64 then 1 else 2) ` set [64, 72 :: handle] \<subseteq> set (scheduled w')" by simp
  moreover have "(\<lambda>p. if p = 64 then 1 else 2) ` set [64, 72 :: handle] = {1, 2 :: nat}" by auto
  ultimately show ?thesis by metis
qed

text \<open>
  \<^verbatim>\<open>polling\<close> lives exactly as long as the worker is used: when its own reference is the only one
  left it returns at once, the worker is destroyed and nothing else is touched; while there are
  others (and the library has nothing to report) it makes progress, yields, and goes on.
\<close>

theorem polling_follows_owners:
  assumes "owns w R" "0 < r_workers R wk" "rc_get wk (workers w) = (Ret v, workers w)"
    and "r = fst (ucx E (Ucp_worker_progress (w_handle v)) (lib w))"
  shows "(worker_refs w R wk = 1 \<longrightarrow> (\<exists>w'. polling E A C others spins wk (Suc n) w = (Ret (), w')
      \<and> owns w' (R\<lparr>r_workers := dec wk (r_workers R)\<rparr>) \<and> cells (workers w') wk = None))
    \<and> (1 < worker_refs w R wk \<and> count_of r = 0 \<and> ran_callbacks r = [] \<longrightarrow>
      polling E A C others (Suc spins) wk (Suc n) w =
      polling E A C others (Suc spins) wk n (others (after_call E (Ucp_worker_progress (w_handle v)) w)))"
proof -
  have held: "0 < worker_refs w R wk" using assms(2) by (simp add: worker_refs_def)
  obtain b where b: "cells (workers w) wk = Some b" "strong b = worker_refs w R wk" "weak b = 0"
    using countsD [OF owns_parts(4) [OF assms(1)] held] by blast
  then have v: "val b = v"
    using assms(3) held by (simp add: rc_get_def)
  from b have counts: "on_workers (rc_counts wk) w = (Ret (worker_refs w R wk, 0), w)"
    using held by (simp add: on_workers_def rc_on_cell)
  have "\<exists>w'. polling E A C others spins wk (Suc n) w = (Ret (), w')
      \<and> owns w' (R\<lparr>r_workers := dec wk (r_workers R)\<rparr>) \<and> cells (workers w') wk = None"
    if one: "worker_refs w R wk = 1"
  proof -
    obtain w' where drop: "worker_drop E wk w = (Ret (), w')"
      and own: "owns w' (R\<lparr>r_workers := dec wk (r_workers R)\<rparr>)" and same: "inners w' = inners w"
      using worker_drop_owned [OF assms(1,2), of E] by (auto simp: does_def)
    have "worker_refs w' (R\<lparr>r_workers := dec wk (r_workers R)\<rparr>) wk = 0"
      using one assms(2) same by (simp add: worker_refs_def)
    then have "cells (workers w') wk = None"
      using counts_cell [OF owns_parts(4) [OF own], of wk] by (cases "cells (workers w') wk") auto
    with drop own one show ?thesis by (simp add: bind_def counts)
  qed
  moreover have "polling E A C others (Suc spins) wk (Suc n) w =
      polling E A C others (Suc spins) wk n (others (after_call E (Ucp_worker_progress (w_handle v)) w))"
    if "1 < worker_refs w R wk \<and> count_of r = 0 \<and> ran_callbacks r = []"
  proof -
    have "worker_call E wk Ucp_worker_progress w = (Ret r, after_call E (Ucp_worker_progress (w_handle v)) w)"
      using assms(3,4) by (simp add: worker_call_def bind_def on_workers_def ffi_after)
    then have "worker_progress E A C wk w = (Ret 0, after_call E (Ucp_worker_progress (w_handle v)) w)"
      using that by (simp add: worker_progress_def bind_def ret_def)
    then show ?thesis
      using that by (simp add: bind_def counts ret_def modify_def)
  qed
  ultimately show ?thesis by blast
qed

theorem polling_follows_owners_witness:
  "\<exists>w'. polling (lawful_env Debug) list_ops list_channel (\<lambda>w. w) 1 0 1 (demo_full 0 []) = (Ret (), w')
     \<and> cells (workers w') 0 = None"
proof -
  let ?R = "\<lparr>r_contexts = (\<lambda>_. 0), r_workers = (\<lambda>a. if a = 0 then 1 else 0), r_endpoints = (\<lambda>_. 0), r_streams = (\<lambda>_. 0)\<rparr>"
  let ?v = "\<lparr>w_handle = 0, w_context = 0, am_streams = []\<rparr>"
  have own: "owns (demo_full 0 []) ?R" and one: "worker_refs (demo_full 0 []) ?R 0 = 1"
    by (auto simp: demo_full_def sample_world_def owns_def heap_fresh_def empty_heap_def counts_def
        endpoints_ok_def refs_from_def refs_defs split: option.split)
  have held: "0 < r_workers ?R 0" by simp
  have worker: "rc_get 0 (workers (demo_full 0 [])) = (Ret ?v, workers (demo_full 0 []))"
    by (simp add: demo_full_def rc_get_def)
  from polling_follows_owners [OF own held worker refl, of "lawful_env Debug" list_ops list_channel "\<lambda>w. w" 1 0] one
  show ?thesis by auto
qed

text \<open>
  C19. No sleep without a wake-up: \<^verbatim>\<open>event_poll\<close> gives the other tasks the turn (that is, waits for
  the event descriptor) only in worlds in which it has just made progress until there was none left
  and the library has then answered \<^verbatim>\<open>UCS_OK\<close> to \<^verbatim>\<open>ucp_worker_arm\<close>. What the other tasks would do in
  any other world has no influence on it.
\<close>

theorem sleeps_only_armed:
  assumes "\<And>v u h. progress_all E A C wk spins v = (Ret (), u) \<Longrightarrow>
      status_of (fst (ucx E (Ucp_worker_arm h) (lib u))) = UCS_OK \<Longrightarrow>
      others (after_call E (Ucp_worker_arm h) u) = others' (after_call E (Ucp_worker_arm h) u)"
  shows "event_loop E A C others spins wk n w = event_loop E A C others' spins wk n w"
proof (induction n arbitrary: w)
  case (Suc n)
  have "bind (progress_all E A C wk spins) (\<lambda>_. bind (worker_arm E wk) (\<lambda>res. bind (lift (unwrap res)) (\<lambda>sleep.
         bind (if sleep then modify others else ret ()) (\<lambda>_. event_loop E A C others spins wk n)))) v =
      bind (progress_all E A C wk spins) (\<lambda>_. bind (worker_arm E wk) (\<lambda>res. bind (lift (unwrap res)) (\<lambda>sleep.
         bind (if sleep then modify others' else ret ()) (\<lambda>_. event_loop E A C others' spins wk n)))) v" for v
  proof (cases "progress_all E A C wk spins v")
    case (Pair r u)
    show ?thesis
    proof (cases "rc_get wk (workers u)")
      case get: (Pair a hp)
      then have hp: "hp = workers u" by (simp add: rc_get_def split: option.splits)
      note agree = assms [of v u]
      show ?thesis
        using Pair get hp agree Suc.IH
        by (auto simp: bind_def worker_arm_def worker_call_def on_workers_def ffi_after ret_def lift_def
            modify_def from_error_def split: outcome.split prod.split sum.split)
    qed
  qed
  then show ?case
    by (auto simp: bind_def split: outcome.split prod.split)
qed simp

theorem sleeps_only_armed_witness:
  "event_loop (lawful_env Debug) list_ops list_channel (\<lambda>w. w) 1 0 3 (demo_full 1 [])
   = event_loop (lawful_env Debug) list_ops list_channel
       (\<lambda>w. if \<exists>h cs. calls w = cs @ [Ucp_worker_arm h] then w else w\<lparr>scheduled := []\<rparr>) 1 0 3 (demo_full 1 [])"
  by (rule sleeps_only_armed) (auto simp: after_call_def)

end
