(* ===== verification/Resources.thy ===== *)
theory Resources
  imports Progress
begin

text \<open>
  Ownership of what the theory \<open>Lifecycle\<close> leaves out: the map of streams in every worker, registered
  memory (\<^verbatim>\<open>src/ucp/endpoint/rma.rs\<close>), the channels of listeners (\<^verbatim>\<open>src/ucp/listener.rs\<close>), and the
  callbacks that one call of progress runs. The lemmas say what each operation does to the
  references, so that the machine of the theory \<open>System\<close> is proved operation by operation.
\<close>

section \<open>What the machine adds to ownership\<close>

text \<open>The streams in the map of every worker are registered under distinct identifiers.\<close>

definition maps_ok :: "('u, 'wk, 's, 'c) world \<Rightarrow> bool" where
  "maps_ok w \<longleftrightarrow> (\<forall>k b. cells (workers w) k = Some b \<longrightarrow> distinct (map fst (am_streams (val b))))"

lemma maps_ok_at: "maps_ok w \<Longrightarrow> cells (workers w) k = Some b \<Longrightarrow> map_ok k w"
  by (auto simp: maps_ok_def map_ok_def)

lemma maps_ok_cong: "workers w' = workers w \<Longrightarrow> maps_ok w' = maps_ok w"
  by (simp add: maps_ok_def)

lemma maps_ok_put:
  "maps_ok w \<Longrightarrow> distinct (map fst (am_streams (val b))) \<Longrightarrow> maps_ok (w\<lparr>workers := put_cell k b (workers w)\<rparr>)"
  by (auto simp: maps_ok_def put_cell_def split: if_splits)

lemma maps_ok_context_drop: "maps_ok w \<Longrightarrow> maps_ok (snd (context_drop E a w))"
  by (auto simp: context_drop_def bind_def on_contexts_def ffi_def ret_def maps_ok_def
      split: prod.splits outcome.splits option.splits)

lemma drop_streams_frame: "workers (snd (drop_streams as w)) = workers w \<and> channels (snd (drop_streams as w)) = channels w"
  by (induction as arbitrary: w) (auto simp: ret_def bind_def on_streams_def split: prod.splits outcome.splits)

lemma context_drop_frame: "workers (snd (context_drop E a w)) = workers w \<and> channels (snd (context_drop E a w)) = channels w"
  by (auto simp: context_drop_def bind_def on_contexts_def ffi_def ret_def split: prod.splits outcome.splits option.splits)

lemma maps_ok_worker_drop: "keeps maps_ok (worker_drop E a)"
  unfolding worker_drop_def
proof (rule keeps_bind)
  show "keeps maps_ok (on_workers (rc_drop a))"
    by (auto simp: keeps_def snd_on rc_drop_def maps_ok_def put_cell_def split: option.splits if_splits)
next
  fix last show "keeps maps_ok (case last of None \<Rightarrow> ret ()
     | Some wk \<Rightarrow> bind (ffi E (Ucp_worker_destroy (w_handle wk)))
         (\<lambda>_. bind (context_drop E (w_context wk)) (\<lambda>_. drop_streams (map snd (am_streams wk)))))"
    by (auto split: option.split intro!: keeps_bind)
      (auto simp: keeps_def maps_ok_def ffi_def context_drop_frame drop_streams_frame split: prod.splits)
qed

interpretation maps: freeing_frame E "maps_ok :: ('u, 'wk, 's, 'c) world \<Rightarrow> bool" for E :: "('u, 'wk) env"
proof
  fix a show "keeps maps_ok (context_drop E a)"
    by (simp add: keeps_def maps_ok_context_drop)
  show "keeps maps_ok (worker_drop E a)"
    by (rule maps_ok_worker_drop)
qed (auto simp: maps_ok_def rc_new_def rc_clone_def put_cell_def split: option.splits if_splits)

lemma channels_worker_drop: "keeps (\<lambda>w. channels w = ch) (worker_drop E a)"
  unfolding worker_drop_def
proof (rule keeps_bind)
  show "keeps (\<lambda>w. channels w = ch) (on_workers (rc_drop a))"
    by (simp add: keeps_def snd_on)
next
  fix last show "keeps (\<lambda>w. channels w = ch) (case last of None \<Rightarrow> ret ()
     | Some wk \<Rightarrow> bind (ffi E (Ucp_worker_destroy (w_handle wk)))
         (\<lambda>_. bind (context_drop E (w_context wk)) (\<lambda>_. drop_streams (map snd (am_streams wk)))))"
    by (auto split: option.split intro!: keeps_bind)
      (auto simp: keeps_def ffi_def context_drop_frame drop_streams_frame split: prod.splits)
qed

interpretation chans: freeing_frame E "\<lambda>w :: ('u, 'wk, 's, 'c) world. channels w = ch" for E :: "('u, 'wk) env" and ch
proof
  fix a show "keeps (\<lambda>w :: ('u, 'wk, 's, 'c) world. channels w = ch) (context_drop E a)"
    by (simp add: keeps_def context_drop_frame)
  show "keeps (\<lambda>w :: ('u, 'wk, 's, 'c) world. channels w = ch) (worker_drop E a)"
    by (rule channels_worker_drop)
qed simp_all

section \<open>Registered memory\<close>

context ucx_library
begin

text \<open>
  A registration takes one reference to the context, and panics when the library refuses it; a
  packed key takes none; the drop returns it, after the memory is unmapped.
\<close>

lemma memory_register_owned:
  fixes w :: "('u, 'wk, 's, 'c) world"
  assumes own: "owns w R" and held: "0 < context_refs w R c"
  shows "(\<exists>w'. memory_register E c region w = (Fault (Panic Assertion_failed), w'))
    \<or> does (memory_register E c region) w (\<lambda>m w'. mh_context m = c
        \<and> owns w' (R\<lparr>r_contexts := inc c (r_contexts R)\<rparr>) \<and> workers w' = workers w \<and> channels w' = channels w)"
proof -
  obtain b where b: "cells (contexts w) c = Some b" "0 < strong b"
    using countsD [OF owns_parts(2) [OF own] held] held by auto
  let ?c = "Ucp_mem_map (c_handle (val b))
            (num (binds E) UCP_MEM_MAP_PARAM_FIELD_ADDRESS OR num (binds E) UCP_MEM_MAP_PARAM_FIELD_LENGTH)
            (as_ptr region) (slice_len region)"
  let ?r = "fst (ucx E ?c (lib w))" and ?u = "after_call E ?c w"
  have get: "on_contexts (rc_get c) w = (Ret (val b), w)" and call: "ffi E ?c w = (Ret ?r, ?u)"
    using b by (simp_all add: on_contexts_def rc_on_cell ffi_after)
  have u: "owns ?u R" "0 < context_refs ?u R c" "workers ?u = workers w" "channels ?u = channels w"
    using own held by (simp_all add: context_refs_def after_call_def)
  have run: "memory_register E c region w = bind (lift (assert_ok (status_of ?r))) (\<lambda>_.
     bind (lift (assume_init (out_word ?r))) (\<lambda>h.
     bind (context_clone c) (\<lambda>_. ret \<lparr>mh_handle = h, mh_context = c\<rparr>))) ?u"
    by (simp add: memory_register_def bind_def [of "on_contexts _"] get bind_def [of "ffi E _"] call)
  show ?thesis
  proof (cases "status_of ?r = UCS_OK")
    case False
    then have "memory_register E c region w = (Fault (Panic Assertion_failed), ?u)"
      unfolding run by (simp add: bind_def lift_def assert_ok_def)
    then show ?thesis by blast
  next
    case True
    with written(1) obtain h where h: "out_word ?r = Some h" by blast
    have "channels (snd (context_clone c ?u)) = channels ?u"
      by (simp add: context_clone_def snd_on)
    with context_clone_owned [OF u(1,2)] u(3,4)
    have clone: "does (context_clone c) ?u (\<lambda>_ w'. owns w' (R\<lparr>r_contexts := inc c (r_contexts R)\<rparr>) \<and> workers w' = workers w
       \<and> channels w' = channels w)"
      by (auto simp: does_def)
    have "memory_register E c region w = bind (context_clone c) (\<lambda>_. ret \<lparr>mh_handle = h, mh_context = c\<rparr>) ?u"
      unfolding run using True h by (simp add: assert_ok_def)
    with clone show ?thesis
      by (intro disjI2) (auto simp: does_def bind_def ret_def)
  qed
qed

lemma memory_pack_safe:
  assumes own: "owns w R" and held: "0 < context_refs w R (mh_context m)"
  shows "\<exists>r w'. memory_pack E m w = (r, w') \<and> (r = Fault (Panic Assertion_failed) \<or> (\<exists>b. r = Ret b))
    \<and> owns w' R \<and> workers w' = workers w \<and> channels w' = channels w"
proof -
  obtain b where b: "cells (contexts w) (mh_context m) = Some b" "0 < strong b"
    using countsD [OF owns_parts(2) [OF own] held] held by auto
  let ?c = "Ucp_rkey_pack (c_handle (val b)) (mh_handle m)"
  let ?r = "fst (ucx E ?c (lib w))" and ?u = "after_call E ?c w"
  have get: "on_contexts (rc_get (mh_context m)) w = (Ret (val b), w)" and call: "ffi E ?c w = (Ret ?r, ?u)"
    using b by (simp_all add: on_contexts_def rc_on_cell ffi_after)
  have run: "memory_pack E m w = (bind (lift (assert_ok (status_of ?r))) (\<lambda>_.
     bind (lift (assume_init (out_word ?r))) (\<lambda>buf.
     bind (lift (assume_init (out_len ?r))) (\<lambda>len. ret \<lparr>rk_buf = buf, rk_len = len\<rparr>)))) ?u"
    by (simp add: memory_pack_def bind_def [of "on_contexts _"] get bind_def [of "ffi E _"] call)
  have "owns ?u R \<and> workers ?u = workers w \<and> channels ?u = channels w"
    using own by (simp add: after_call_def)
  moreover have "\<exists>r. memory_pack E m w = (r, ?u) \<and> (r = Fault (Panic Assertion_failed) \<or> (\<exists>b. r = Ret b))"
  proof (cases "status_of ?r = UCS_OK")
    case True
    with written obtain x n where "out_word ?r = Some x" "out_len ?r = Some n" by blast
    with True show ?thesis unfolding run by (simp add: assert_ok_def ret_def)
  next
    case False
    then show ?thesis unfolding run by (simp add: bind_def lift_def assert_ok_def)
  qed
  ultimately show ?thesis by blast
qed

end

lemma memory_drop_owned:
  fixes w :: "('u, 'wk, 's, 'c) world"
  assumes own: "owns w R" and held: "0 < r_contexts R (mh_context m)"
  shows "does (memory_drop E m) w (\<lambda>_ w'. owns w' (R\<lparr>r_contexts := dec (mh_context m) (r_contexts R)\<rparr>)
    \<and> workers w' = workers w \<and> channels w' = channels w)"
proof -
  have refs: "0 < context_refs w R (mh_context m)" using held by (simp add: context_refs_def)
  then obtain b where b: "cells (contexts w) (mh_context m) = Some b" "0 < strong b"
    using countsD [OF owns_parts(2) [OF own] refs] by auto
  let ?c = "Ucp_mem_unmap (c_handle (val b)) (mh_handle m)"
  let ?u = "after_call E ?c w"
  have get: "on_contexts (rc_get (mh_context m)) w = (Ret (val b), w)"
    and call: "ffi E ?c w = (Ret (fst (ucx E ?c (lib w))), ?u)"
    using b by (simp_all add: on_contexts_def rc_on_cell ffi_after)
  have "owns ?u R" using own by (simp add: after_call_def)
  from context_drop_owned [OF this held, of E]
  have "does (context_drop E (mh_context m)) ?u (\<lambda>_ w'. owns w' (R\<lparr>r_contexts := dec (mh_context m) (r_contexts R)\<rparr>)
    \<and> workers w' = workers w \<and> channels w' = channels w)"
    using context_drop_frame [of E "mh_context m" ?u] by (auto simp: does_def after_call_def)
  moreover have "memory_drop E m w = context_drop E (mh_context m) ?u"
    by (simp add: memory_drop_def bind_def [of "on_contexts _"] get bind_def [of "ffi E _"] call)
  ultimately show ?thesis by (simp add: does_def)
qed

section \<open>Channels\<close>

text \<open>The listeners' channels: as many references as the listeners say.\<close>

definition channels_ok :: "('u, 'wk, 's, 'c) world \<Rightarrow> (nat \<Rightarrow> nat) \<Rightarrow> bool" where
  "channels_ok w L \<longleftrightarrow> heap_fresh (channels w) \<and> counts (channels w) L"

lemma channels_ok_cong: "channels w' = channels w \<Longrightarrow> channels_ok w' L = channels_ok w L"
  by (simp add: channels_ok_def)

lemma on_channels_eq: "on_channels m w = (fst (m (channels w)), w\<lparr>channels := snd (m (channels w))\<rparr>)"
  by (simp add: on_channels_def split: prod.split)

lemma channel_held:
  assumes "channels_ok w L" "0 < L a"
  obtains b where "cells (channels w) a = Some b" "0 < strong b"
  using assms countsD [of "channels w" L a] by (auto simp: channels_ok_def)

lemma channel_update:
  assumes "channels_ok w L" "cells (channels w) a = Some b" "0 < strong b"
  shows "on_channels (rc_update a f) w = (Ret (), w\<lparr>channels := put_cell a (b\<lparr>val := f (val b)\<rparr>) (channels w)\<rparr>)"
    and "channels_ok (w\<lparr>channels := put_cell a (b\<lparr>val := f (val b)\<rparr>) (channels w)\<rparr>) L"
proof -
  show "on_channels (rc_update a f) w = (Ret (), w\<lparr>channels := put_cell a (b\<lparr>val := f (val b)\<rparr>) (channels w)\<rparr>)"
    using assms(2,3) by (simp add: on_channels_def rc_on_cell)
  have "counts (put_cell a (b\<lparr>val := f (val b)\<rparr>) (channels w)) (L(a := strong b))"
    using assms counts_cell [of "channels w" L a b] counts_put [of "channels w" L "b\<lparr>val := f (val b)\<rparr>" a]
    by (simp add: channels_ok_def)
  moreover have "L(a := strong b) = L"
    using assms counts_cell [of "channels w" L a b] by (auto simp: channels_ok_def)
  ultimately show "channels_ok (w\<lparr>channels := put_cell a (b\<lparr>val := f (val b)\<rparr>) (channels w)\<rparr>) L"
    using assms heap_fresh_cell [of "channels w" a b] by (simp add: channels_ok_def)
qed

lemma listener_drop_owned:
  assumes "owns w R" "channels_ok w L" "0 < L (l_channel l)"
  shows "does (listener_drop E l) w (\<lambda>_ w'. owns w' R \<and> workers w' = workers w \<and> channels_ok w' (dec (l_channel l) L)
    \<and> calls w' = calls w @ [Ucp_listener_destroy (l_handle l)])"
proof -
  have ch: "counts (channels w) L" "heap_fresh (channels w)" using assms(2) by (simp_all add: channels_ok_def)
  note run = drop_counted [OF ch assms(3)]
  let ?c = "Ucp_listener_destroy (l_handle l)"
  have fst_run: "fst (rc_drop (l_channel l) (channels w)) =
      Ret (if L (l_channel l) = 1 then Some (val (the (cells (channels w) (l_channel l)))) else None)"
    by (subst run(1)) simp
  have "on_channels (rc_drop (l_channel l)) (after_call E ?c w) =
      (Ret (if L (l_channel l) = 1 then Some (val (the (cells (channels w) (l_channel l)))) else None),
       (after_call E ?c w)\<lparr>channels := snd (rc_drop (l_channel l) (channels w))\<rparr>)"
    using fst_run by (simp add: on_channels_eq after_call_def)
  moreover have "ffi E ?c w = (Ret (fst (ucx E ?c (lib w))), after_call E ?c w)"
    by (simp add: ffi_after)
  ultimately show ?thesis
    using assms(1) run(2,3) by (simp add: listener_drop_def does_def bind_def ret_def channels_ok_def after_call_def)
qed

lemma listener_poll_owned:
  assumes "owns w R" "channels_ok w L" "0 < L (l_channel l)"
  shows "\<exists>r w'. listener_next C (\<lambda>w. w) l 1 w = (r, w') \<and> (r = Unfinished \<or> (\<exists>conn. r = Ret conn))
    \<and> owns w' R \<and> workers w' = workers w \<and> channels_ok w' L"
proof -
  obtain b where b: "cells (channels w) (l_channel l) = Some b" "0 < strong b"
    using channel_held [OF assms(2,3)] .
  obtain r c' where recv: "ch_recv C (val b) = (r, c')" by fastforce
  note update = channel_update [OF assms(2) b, of "\<lambda>_. c'"]
  have get: "on_channels (rc_get (l_channel l)) w = (Ret (val b), w)"
    using b by (simp add: on_channels_def rc_on_cell)
  show ?thesis
    using assms(1) update(2) by (cases r) (simp_all add: bind_def get recv update(1) ret_def modify_def lift_def)
qed

context ucx_library
begin

lemma listener_new_owned:
  fixes w :: "('u, 'wk, 's, 'c) world"
  assumes own: "owns w R" and held: "0 < worker_refs w R k" and chan: "channels_ok w L"
  shows "does (listener_new E C k addr) w (\<lambda>res w'. owns w' R \<and> workers w' = workers w
    \<and> (case res of Inl _ \<Rightarrow> channels_ok w' L | Inr l \<Rightarrow> channels_ok w' (inc (l_channel l) L)))"
proof -
  let ?a = "next_addr (channels w)" and ?u = "w\<lparr>channels := snd (rc_new (ch_new C) (channels w))\<rparr>"
  have ch: "counts (channels w) L" "heap_fresh (channels w)" using chan by (simp_all add: channels_ok_def)
  then have "L ?a = 0"
    using counts_None [OF ch(1), of ?a] by (simp add: heap_fresh_def)
  then have u: "channels_ok ?u (inc ?a L)"
    using counts_new [OF ch, of "ch_new C"] heap_fresh_new [OF ch(2), of "ch_new C"]
    by (simp add: channels_ok_def)
  have own_u: "owns ?u R" and held_u: "0 < worker_refs ?u R k"
    using own held by (simp_all add: worker_refs_def)
  have new: "on_channels (rc_new (ch_new C)) w = (Ret ?a, ?u)"
    by (simp add: on_channels_def rc_new_def)
  obtain h where call: "\<And>E call. worker_call (E :: ('u, 'wk) env) k call ?u = ffi E (call h) ?u"
    by (rule worker_call_eq [OF own_u held_u]) (rule that)
  let ?c = "Ucp_listener_create h (num (binds E) UCP_LISTENER_PARAM_FIELD_SOCK_ADDR
    OR num (binds E) UCP_LISTENER_PARAM_FIELD_CONN_HANDLER) addr ?a"
  let ?r = "fst (ucx E ?c (lib w))" and ?v = "after_call E ?c ?u"
  have v: "owns ?v R" "workers ?v = workers w" "channels_ok ?v (inc ?a L)" "channels ?v = channels ?u"
    using own_u u by (simp_all add: after_call_def channels_ok_def)
  have run: "listener_new E C k addr w = bind (lift (from_status (prof E) (status_of ?r))) (\<lambda>res. case res of
         Inl err \<Rightarrow> bind (on_channels (rc_drop ?a)) (\<lambda>_. ret (Err err))
       | Inr _ \<Rightarrow> bind (lift (assume_init (out_word ?r))) (\<lambda>h. ret (Ok \<lparr>l_handle = h, l_channel = ?a\<rparr>))) ?v"
    by (simp add: listener_new_def bind_def [of "on_channels _"] new bind_def [of "worker_call E k _"] call ffi_after)
  show ?thesis
  proof (cases "status_of ?r = UCS_OK")
    case True
    with written(1) obtain x where "out_word ?r = Some x" by blast
    with True v have "listener_new E C k addr w = (Ret (Ok \<lparr>l_handle = x, l_channel = ?a\<rparr>), ?v)"
      unfolding run by (simp add: ret_def)
    with v show ?thesis by (simp add: does_def)
  next
    case False
    have cv: "counts (channels ?v) (inc ?a L)" "heap_fresh (channels ?v)" using v(3) by (simp_all add: channels_ok_def)
    note drop = drop_counted [OF cv, of ?a]
    have "\<exists>x. on_channels (rc_drop ?a) ?v = (Ret x, ?v\<lparr>channels := snd (rc_drop ?a (channels ?v))\<rparr>)"
      using drop(1) by (simp add: on_channels_def split: prod.split) (metis fst_conv)
    then have "\<exists>err. listener_new E C k addr w = (Ret (Err err), ?v\<lparr>channels := snd (rc_drop ?a (channels ?v))\<rparr>)"
      unfolding run using False by (auto simp: bind_def ret_def)
    moreover have "(inc ?a L)(?a := inc ?a L ?a - 1) = L" by simp
    then have "channels_ok (?v\<lparr>channels := snd (rc_drop ?a (channels ?v))\<rparr>) L"
      using drop(2,3) by (simp add: channels_ok_def)
    ultimately show ?thesis
      using v by (auto simp: does_def)
  qed
qed

end

section \<open>The callbacks of one call of progress\<close>

text \<open>
  What the library guarantees of a callback it runs: its argument is what it was given at
  registration (the state of an endpoint that is not closed, a stream in a worker's map, the channel of
  a listener), and a request that completes was initialised.
\<close>

definition callback_ok :: "('u, 'wk, 's, 'c) world \<Rightarrow> callback \<Rightarrow> bool" where
  "callback_ok w cb = (case cb of
       Err_handler a h st \<Rightarrow> (case cells (inners w) a of Some b \<Rightarrow> \<not> closed (val b) | None \<Rightarrow> False)
     | Request_done p \<Rightarrow> reqs w p \<noteq> None
     | Conn_handler a h \<Rightarrow> cells (channels w) a \<noteq> None
     | Am_handler a hdr data rep attr \<Rightarrow>
         (\<exists>k b i. cells (workers w) k = Some b \<and> map_of (am_streams (val b)) i = Some a))"

text \<open>What no callback takes away: other callbacks stay good.\<close>

definition progress_frame :: "('u, 'wk, 's, 'c) world \<Rightarrow> ('u, 'wk, 's, 'c) world \<Rightarrow> bool" where
  "progress_frame w w' \<longleftrightarrow> workers w' = workers w
     \<and> (\<forall>a. is_closed_at a w' = is_closed_at a w \<and> (cells (inners w') a = None) = (cells (inners w) a = None))
     \<and> (\<forall>p. (reqs w' p = None) = (reqs w p = None))
     \<and> (\<forall>a. (cells (channels w') a = None) = (cells (channels w) a = None))"

lemma progress_frame_refl: "progress_frame w w"
  by (simp add: progress_frame_def)

lemma progress_frame_trans: "progress_frame u v \<Longrightarrow> progress_frame v w \<Longrightarrow> progress_frame u w"
  by (simp add: progress_frame_def)

lemma callback_ok_frame: "progress_frame w w' \<Longrightarrow> callback_ok w cb \<Longrightarrow> callback_ok w' cb"
  by (cases cb) (auto simp: callback_ok_def progress_frame_def split: option.splits; (metis option.inject option.exhaust))+

end
