(* ===== verification/System.thy ===== *)
theory System
  imports Resources
begin

text \<open>
  The whole program as one state machine: the machine of the theory \<open>Lifecycle\<close> together with
  registered memory, streams of active messages, messages, listeners, and calls of progress with
  the callbacks that the library runs in them.
\<close>

section \<open>Callbacks keep ownership\<close>

lemma progress_frame_scheduled: "progress_frame w (w\<lparr>scheduled := ts\<rparr>)"
  by (simp add: progress_frame_def)

lemma on_streams_frame: "on_streams m w = (r, w') \<Longrightarrow> workers w' = workers w \<Longrightarrow> progress_frame w w' \<and> channels w' = channels w"
  by (auto simp: on_streams_def progress_frame_def split: prod.splits)

lemma am_handler_safe:
  fixes w :: "('u, 'wk, 'q, 'n, 'c) full_world"
  assumes own: "owns w R" and cell: "cells (workers w) k = Some b" and reg: "map_of (am_streams (val b)) i = Some a"
  shows "does (am_callback E A a header data rep attr) w (\<lambda>_ w'. owns w' R \<and> progress_frame w w' \<and> channels w' = channels w)"
proof -
  have held: "0 < stream_refs w R a"
    using refs_from_pos [OF owns_parts(3) [OF own] cell, of a worker_streams] map_of_SomeD [OF reg]
    by (force simp: stream_refs_def)
  then obtain c where c: "cells (streams w) a = Some c" "0 < strong c"
    using countsD [OF owns_parts(6) [OF own] held] by auto
  obtain woken s' where call: "stream_callback A (binds E) header data rep attr (val c) = (woken, s')" by fastforce
  obtain w1 where update: "on_streams (rc_update a (\<lambda>_. s')) w = (Ret (), w1)" "owns w1 R" "workers w1 = workers w"
    using stream_update_owned [OF own held, of "\<lambda>_. s'"] by (auto simp: does_def)
  have get: "on_streams (rc_get a) w = (Ret (val c), w)"
    using c by (simp add: on_streams_def rc_on_cell)
  have frame: "progress_frame w w1" "channels w1 = channels w"
    using on_streams_frame [OF update(1,3)] by simp_all
  show ?thesis
  proof (cases woken)
    case None
    then show ?thesis
      using frame update by (simp add: does_def am_callback_def bind_def get call ret_def)
  next
    case (Some t)
    then show ?thesis
      using frame update progress_frame_trans [OF frame(1) progress_frame_scheduled]
      by (simp add: does_def am_callback_def bind_def get call ret_def modify_def)
  qed
qed

lemma callback_safe:
  fixes w :: "('u, 'wk, 'q, 'n, 'c) full_world"
  assumes lib: "ucx_library E" and chan: "unbounded_channel C sent"
    and own: "owns w R" and chans: "channels_ok w L" and cb: "callback_ok w cb"
  shows "does (run_callback E A C cb) w (\<lambda>_ w'. owns w' R \<and> channels_ok w' L \<and> progress_frame w w')"
proof (cases cb)
  case (Err_handler a h st)
  then obtain b where b: "cells (inners w) a = Some b" "\<not> closed (val b)"
    using cb by (auto simp: callback_ok_def split: option.splits)
  let ?b = "if st = UCS_OK then b else b\<lparr>val := (val b)\<lparr>ep_status := st\<rparr>\<rparr>"
  let ?w = "w\<lparr>inners := put_cell a ?b (inners w)\<rparr>"
  have pos: "0 < strong b" using endpoints_cell [OF owns_parts(8) [OF own] b(1)] b(2) by auto
  have run: "err_handler E a h st w = (Ret (), ?w)"
    by (rule ucx_library.err_handler_eq [OF lib own b])
  have "owns ?w R"
    using does_Ret [OF ucx_library.err_handler_owned [OF lib own b, of h st] run] by simp
  moreover have "progress_frame w ?w"
    using b pos by (auto simp: progress_frame_def)
  ultimately show ?thesis
    using run chans Err_handler by (simp add: does_def run_callback_def channels_ok_def)
next
  case (Request_done p)
  then obtain q where q: "reqs w p = Some q" using cb by (auto simp: callback_ok_def)
  obtain t q' where take: "aw_take (waker_ops E) q = (t, q')" by fastforce
  show ?thesis
    using q take own chans Request_done
    by (cases t) (auto simp: does_def run_callback_def wake_request_def progress_frame_def channels_ok_def)
next
  case (Conn_handler a h)
  then obtain b where b: "cells (channels w) a = Some b" using cb by (auto simp: callback_ok_def)
  then have pos: "0 < strong b"
    using chans counts_cell by (fastforce simp: channels_ok_def)
  obtain c' where send: "ch_send C \<lparr>cr_handle = h\<rparr> (val b) = (True, c')"
    using unbounded_channel.send_queues [OF chan, of "\<lparr>cr_handle = h\<rparr>" "val b"] by (cases "ch_send C \<lparr>cr_handle = h\<rparr> (val b)") auto
  note update = channel_update [OF chans b pos, of "\<lambda>_. c'"]
  have get: "on_channels (rc_get a) w = (Ret (val b), w)"
    using b pos by (simp add: on_channels_def rc_on_cell)
  have "connect_handler C a h w = (Ret (), w\<lparr>channels := put_cell a (b\<lparr>val := c'\<rparr>) (channels w)\<rparr>)"
    using update(1) by (simp add: connect_handler_def bind_def get send ret_def)
  moreover have "progress_frame w (w\<lparr>channels := put_cell a (b\<lparr>val := c'\<rparr>) (channels w)\<rparr>)"
    using b pos by (auto simp: progress_frame_def)
  ultimately show ?thesis
    using update(2) own Conn_handler by (simp add: does_def run_callback_def)
next
  case (Am_handler a header data rep attr)
  then obtain k b i where "cells (workers w) k = Some b" "map_of (am_streams (val b)) i = Some a"
    using cb by (auto simp: callback_ok_def)
  from am_handler_safe [OF own this, of E A header data rep attr]
  show ?thesis
    unfolding run_callback_def Am_handler callback.case does_bind
    by (rule does_mono) (use chans in \<open>auto simp: channels_ok_def\<close>)
qed

lemma callbacks_safe:
  fixes w :: "('u, 'wk, 'q, 'n, 'c) full_world"
  assumes lib: "ucx_library E" and chan: "unbounded_channel C sent"
    and "owns w R" "channels_ok w L" "\<forall>cb\<in>set cbs. callback_ok w cb"
  shows "does (run_callbacks E A C cbs) w (\<lambda>_ w'. owns w' R \<and> channels_ok w' L \<and> progress_frame w w')"
  using assms(3-)
proof (induction cbs arbitrary: w)
  case Nil
  then show ?case by (simp add: progress_frame_refl)
next
  case (Cons cb cbs)
  have "callback_ok w cb" using Cons.prems(3) by simp
  from callback_safe [OF lib chan Cons.prems(1,2) this, of A] show ?case
    unfolding run_callbacks.simps does_bind
  proof (rule does_mono)
    fix x and v :: "('u, 'wk, 'q, 'n, 'c) full_world"
    assume v: "owns v R \<and> channels_ok v L \<and> progress_frame w v"
    then have "\<forall>cb\<in>set cbs. callback_ok v cb"
      using Cons.prems(3) callback_ok_frame by auto
    with Cons.IH [of v] v show "does (run_callbacks E A C cbs) v (\<lambda>_ w'. owns w' R \<and> channels_ok w' L \<and> progress_frame w w')"
      by (auto intro: does_mono progress_frame_trans)
  qed
qed

text \<open>One call of progress: what the library reports to be run is what it replies.\<close>

definition reported :: "('u, 'wk) env \<Rightarrow> nat \<Rightarrow> ('u, 'wk, 's, 'c) world \<Rightarrow> callback list" where
  "reported E k w = (case cells (workers w) k of
       None \<Rightarrow> []
     | Some b \<Rightarrow> ran_callbacks (fst (ucx E (Ucp_worker_progress (w_handle (val b))) (lib w))))"

lemma progress_owned:
  fixes w :: "('u, 'wk, 'q, 'n, 'c) full_world"
  assumes lib: "ucx_library E" and chan: "unbounded_channel C sent"
    and own: "owns w R" and held: "0 < worker_refs w R k" and chans: "channels_ok w L"
    and cbs: "\<forall>cb\<in>set (reported E k w). callback_ok w cb"
  shows "does (worker_progress E A C k) w (\<lambda>_ w'. owns w' R \<and> channels_ok w' L \<and> progress_frame w w')"
proof -
  obtain b where b: "cells (workers w) k = Some b" "strong b = worker_refs w R k"
    using countsD [OF owns_parts(4) [OF own] held] by blast
  let ?c = "Ucp_worker_progress (w_handle (val b))" and ?u = "after_call E (Ucp_worker_progress (w_handle (val b))) w"
  have call: "worker_call E k Ucp_worker_progress w = (Ret (fst (ucx E ?c (lib w))), ?u)"
    using b held by (simp add: worker_call_def bind_def on_workers_def rc_on_cell ffi_after)
  have u: "owns ?u R" "channels_ok ?u L" "progress_frame w ?u"
    using own chans by (simp_all add: after_call_def channels_ok_def progress_frame_def)
  have "\<forall>cb\<in>set (ran_callbacks (fst (ucx E ?c (lib w)))). callback_ok ?u cb"
    using cbs b(1) callback_ok_frame [OF u(3)] by (simp add: reported_def)
  from callbacks_safe [OF lib chan u(1,2) this, of A] u(3)
  have "does (run_callbacks E A C (ran_callbacks (fst (ucx E ?c (lib w))))) ?u
    (\<lambda>_ w'. owns w' R \<and> channels_ok w' L \<and> progress_frame w w')"
    by (auto intro: does_mono progress_frame_trans)
  moreover have "does (worker_call E k Ucp_worker_progress) w Q \<longleftrightarrow> Q (fst (ucx E ?c (lib w))) ?u" for Q
    by (simp add: does_def call)
  ultimately show ?thesis by (simp add: worker_progress_def)
qed

section \<open>The whole machine\<close>

text \<open>
  The state machine of the theory \<open>Lifecycle\<close> together with the other values a program can hold:
  registered memory, streams of active messages, messages, and listeners.
\<close>

record ('u, 'wk, 'q, 'n, 'c) full =
  core :: "('u, 'wk, ('q, 'n) AmStreamInner, 'c) sys"
  memory_vars :: "MemoryHandle list"
  stream_vars :: "AmStream list"
  msg_vars :: "AmMsg list"
  listener_vars :: "Listener list"

datatype full_action =
    Core action
  | Register_memory nat slice
  | Pack_memory MemoryHandle
  | Drop_memory MemoryHandle
  | Open_stream nat u16
  | Register_handler nat u16 nat
  | Clone_stream AmStream
  | Drop_stream AmStream
  | Poll_stream nat bool AmStream
  | Drop_message AmMsg
  | New_listener nat "u8 list"
  | Poll_listener Listener
  | Drop_listener Listener
  | Make_progress nat

definition in_world ::
  "(('u, 'wk, 'q, 'n, 'c) full_world, 'a) prog \<Rightarrow> (('u, 'wk, 'q, 'n, 'c) full, 'a) prog" where
  "in_world m s = (case m (mem (core s)) of (r, w) \<Rightarrow> (r, s\<lparr>core := (core s)\<lparr>mem := w\<rparr>\<rparr>))"

definition in_core ::
  "(('u, 'wk, ('q, 'n) AmStreamInner, 'c) sys, 'a) prog \<Rightarrow> (('u, 'wk, 'q, 'n, 'c) full, 'a) prog" where
  "in_core m s = (case m (core s) of (r, c) \<Rightarrow> (r, s\<lparr>core := c\<rparr>))"

text \<open>One poll of a future: still pending is no failure.\<close>

definition poll_once :: "('w, 'a) prog \<Rightarrow> ('w, 'a option) prog" where
  "poll_once m w = (case m w of
      (Ret x, w') \<Rightarrow> (Ret (Some x), w')
    | (Unfinished, w') \<Rightarrow> (Ret None, w')
    | (Fault f, w') \<Rightarrow> (Fault f, w'))"

fun full_exec ::
  "('u, 'wk) env \<Rightarrow> ('q, 'n) am_ops \<Rightarrow> 'c channel_ops \<Rightarrow> full_action \<Rightarrow> (('u, 'wk, 'q, 'n, 'c) full, unit) prog" where
  "full_exec E A C (Core act) = in_core (exec E act)"
| "full_exec E A C (Register_memory c region) =
     bind (in_world (memory_register E c region)) (\<lambda>m. modify (\<lambda>s. s\<lparr>memory_vars := m # memory_vars s\<rparr>))"
| "full_exec E A C (Pack_memory m) =
     bind (in_world (memory_pack E m)) (\<lambda>b. in_world (rkey_buffer_drop E b))"
| "full_exec E A C (Drop_memory m) =
     bind (in_world (memory_drop E m)) (\<lambda>_. modify (\<lambda>s. s\<lparr>memory_vars := remove1 m (memory_vars s)\<rparr>))"
| "full_exec E A C (Open_stream k i) =
     bind (in_world (am_stream E A k i)) (\<lambda>res.
       modify (\<lambda>s. case res of Inl _ \<Rightarrow> s | Inr st \<Rightarrow> s\<lparr>stream_vars := st # stream_vars s\<rparr>))"
| "full_exec E A C (Register_handler k i arg) = bind (in_world (am_register E k i arg)) (\<lambda>_. ret ())"
| "full_exec E A C (Clone_stream st) =
     bind (in_world (am_stream_clone st)) (\<lambda>st'. modify (\<lambda>s. s\<lparr>stream_vars := st' # stream_vars s\<rparr>))"
| "full_exec E A C (Drop_stream st) =
     bind (in_world (am_stream_drop st)) (\<lambda>_. modify (\<lambda>s. s\<lparr>stream_vars := remove1 st (stream_vars s)\<rparr>))"
| "full_exec E A C (Poll_stream t suspended st) =
     bind (in_world (poll_once (wait_msg A t (\<lambda>w. w) st suspended 1))) (\<lambda>r.
       modify (\<lambda>s. case r of Some (Some m) \<Rightarrow> s\<lparr>msg_vars := m # msg_vars s\<rparr> | _ \<Rightarrow> s))"
| "full_exec E A C (Drop_message m) =
     bind (in_world (am_msg_drop E m)) (\<lambda>_. modify (\<lambda>s. s\<lparr>msg_vars := remove1 m (msg_vars s)\<rparr>))"
| "full_exec E A C (New_listener k addr) =
     bind (in_world (listener_new E C k addr)) (\<lambda>res.
       modify (\<lambda>s. case res of Inl _ \<Rightarrow> s | Inr l \<Rightarrow> s\<lparr>listener_vars := l # listener_vars s\<rparr>))"
| "full_exec E A C (Poll_listener l) =
     bind (in_world (poll_once (listener_next C (\<lambda>w. w) l 1))) (\<lambda>_. ret ())"
| "full_exec E A C (Drop_listener l) =
     bind (in_world (listener_drop E l)) (\<lambda>_. modify (\<lambda>s. s\<lparr>listener_vars := remove1 l (listener_vars s)\<rparr>))"
| "full_exec E A C (Make_progress k) = bind (in_world (worker_progress E A C k)) (\<lambda>_. ret ())"

text \<open>
  What can happen when. Streams and messages borrow the worker, so its last variable is not dropped
  while they live; the callbacks that the library runs are good ones.
\<close>

fun full_enabled :: "('u, 'wk) env \<Rightarrow> full_action \<Rightarrow> ('u, 'wk, 'q, 'n, 'c) full \<Rightarrow> bool" where
  "full_enabled E (Core act) s = (enabled act (core s)
     \<and> (\<forall>k. act = Drop_worker k \<longrightarrow> k \<in> s_worker ` set (stream_vars s) \<union> m_worker ` set (msg_vars s) \<longrightarrow>
          k \<in> set (remove1 k (worker_vars (core s)))))"
| "full_enabled E (Register_memory c region) s = (c \<in> set (context_vars (core s)))"
| "full_enabled E (Pack_memory m) s = (m \<in> set (memory_vars s))"
| "full_enabled E (Drop_memory m) s = (m \<in> set (memory_vars s))"
| "full_enabled E (Open_stream k i) s = (k \<in> set (worker_vars (core s)))"
| "full_enabled E (Register_handler k i arg) s = (k \<in> set (worker_vars (core s)))"
| "full_enabled E (Clone_stream st) s = (st \<in> set (stream_vars s))"
| "full_enabled E (Drop_stream st) s = (st \<in> set (stream_vars s))"
| "full_enabled E (Poll_stream t suspended st) s = (st \<in> set (stream_vars s))"
| "full_enabled E (Drop_message m) s = (m \<in> set (msg_vars s))"
| "full_enabled E (New_listener k addr) s = (k \<in> set (worker_vars (core s)))"
| "full_enabled E (Poll_listener l) s = (l \<in> set (listener_vars s))"
| "full_enabled E (Drop_listener l) s = (l \<in> set (listener_vars s))"
| "full_enabled E (Make_progress k) s = (k \<in> set (worker_vars (core s))
     \<and> (\<forall>cb\<in>set (reported E k (mem (core s))). callback_ok (mem (core s)) cb))"

definition empty_full :: "'u \<Rightarrow> ('u, 'wk, 'q, 'n, 'c) full" where
  "empty_full u = \<lparr>core = empty_sys u, memory_vars = [], stream_vars = [], msg_vars = [], listener_vars = []\<rparr>"

inductive full_reachable ::
  "('u, 'wk) env \<Rightarrow> ('q, 'n) am_ops \<Rightarrow> 'c channel_ops \<Rightarrow> ('u, 'wk, 'q, 'n, 'c) full \<Rightarrow> bool" for E A C where
  full_start: "full_reachable E A C (empty_full u)"
| full_step: "full_reachable E A C s \<Longrightarrow> full_enabled E act s \<Longrightarrow> full_exec E A C act s = (Ret (), s') \<Longrightarrow>
    full_reachable E A C s'"

section \<open>Its invariant\<close>

definition extra_refs :: "('u, 'wk, 'q, 'n, 'c) full \<Rightarrow> refs" where
  "extra_refs s = \<lparr>r_contexts = count_list (map mh_context (memory_vars s)), r_workers = (\<lambda>_. 0), r_endpoints = (\<lambda>_. 0),
     r_streams = count_list (map s_inner (stream_vars s))\<rparr>"

definition full_inv :: "('u, 'wk, 'q, 'n, 'c) full \<Rightarrow> bool" where
  "full_inv s \<longleftrightarrow> sys_inv_with (extra_refs s) (core s) \<and> maps_ok (mem (core s))
     \<and> channels_ok (mem (core s)) (count_list (map l_channel (listener_vars s)))
     \<and> s_worker ` set (stream_vars s) \<union> m_worker ` set (msg_vars s) \<subseteq> set (worker_vars (core s))"

lemma does_in_world [simp]:
  "does (in_world m) s Q \<longleftrightarrow> does m (mem (core s)) (\<lambda>x w. Q x (s\<lparr>core := (core s)\<lparr>mem := w\<rparr>\<rparr>))"
  by (auto simp: does_def in_world_def split: prod.splits)

lemma does_in_core [simp]: "does (in_core m) s Q \<longleftrightarrow> does m (core s) (\<lambda>x c. Q x (s\<lparr>core := c\<rparr>))"
  by (auto simp: does_def in_core_def split: prod.splits)

lemma does_poll_once:
  "does (poll_once m) w Q \<longleftrightarrow> (\<exists>r w'. m w = (r, w') \<and> (case r of Ret x \<Rightarrow> Q (Some x) w' | Unfinished \<Rightarrow> Q None w' | Fault f \<Rightarrow> False))"
  by (auto simp: does_def poll_once_def split: prod.splits outcome.splits)

lemma count_list_Cons_fun: "count_list (x # xs) = inc x (count_list xs)"
  by (simp add: fun_eq_iff)

lemma tally_inc: "tally xs (inc a f) = inc a (tally xs f)"
  by (simp add: tally_def fun_eq_iff)

lemma tally_dec: "0 < f a \<Longrightarrow> tally xs (f(a := f a - Suc 0)) = dec a (tally xs f)"
  by (simp add: tally_def fun_eq_iff)

lemma count_map_pos: "m \<in> set ms \<Longrightarrow> 0 < count_list (map f ms) (f m)"
  by (simp add: count_list_pos)

lemmas full_simps = full_inv_def extra_refs_def sys_inv_with_def refs_with_def count_list_Cons_fun tally_inc tally_dec
  count_map_remove1 count_map_pos

lemma full_held:
  assumes "full_inv s"
  shows "owns (mem (core s)) (refs_with (extra_refs s) (core s))" "maps_ok (mem (core s))"
    and "channels_ok (mem (core s)) (count_list (map l_channel (listener_vars s)))"
    and "c \<in> set (context_vars (core s)) \<Longrightarrow> 0 < context_refs (mem (core s)) (refs_with (extra_refs s) (core s)) c"
    and "k \<in> set (worker_vars (core s)) \<Longrightarrow> 0 < worker_refs (mem (core s)) (refs_with (extra_refs s) (core s)) k"
    and "m \<in> set (memory_vars s) \<Longrightarrow> 0 < r_contexts (refs_with (extra_refs s) (core s)) (mh_context m)"
    and "st \<in> set (stream_vars s) \<Longrightarrow> 0 < r_streams (refs_with (extra_refs s) (core s)) (s_inner st)"
    and "l \<in> set (listener_vars s) \<Longrightarrow> 0 < count_list (map l_channel (listener_vars s)) (l_channel l)"
proof -
  show "owns (mem (core s)) (refs_with (extra_refs s) (core s))" "maps_ok (mem (core s))"
    "channels_ok (mem (core s)) (count_list (map l_channel (listener_vars s)))"
    using assms by (simp_all add: full_inv_def sys_inv_with_def)
  assume "c \<in> set (context_vars (core s))"
  then show "0 < context_refs (mem (core s)) (refs_with (extra_refs s) (core s)) c"
    using held_by_vars(1) [of c "core s" "extra_refs s"] by (simp add: context_refs_def)
next
  assume "k \<in> set (worker_vars (core s))"
  then show "0 < worker_refs (mem (core s)) (refs_with (extra_refs s) (core s)) k"
    using held_by_vars(2) [of k "core s" "extra_refs s"] by (simp add: worker_refs_def)
next
  assume "m \<in> set (memory_vars s)"
  then show "0 < r_contexts (refs_with (extra_refs s) (core s)) (mh_context m)"
    by (simp add: refs_with_simps extra_refs_def tally_def count_list_pos)
next
  assume "st \<in> set (stream_vars s)"
  then show "0 < r_streams (refs_with (extra_refs s) (core s)) (s_inner st)"
    by (simp add: refs_with_simps extra_refs_def count_list_pos)
next
  assume "l \<in> set (listener_vars s)"
  then show "0 < count_list (map l_channel (listener_vars s)) (l_channel l)"
    by (simp add: count_list_pos)
qed

section \<open>Streams and messages keep it\<close>

lemma does_and: "does m w P \<Longrightarrow> does m w Q \<Longrightarrow> does m w (\<lambda>x w'. P x w' \<and> Q x w')"
  by (auto simp: does_def)

lemma does_keeps: "does m w Q \<Longrightarrow> keeps P m \<Longrightarrow> P w \<Longrightarrow> does m w (\<lambda>x w'. Q x w' \<and> P w')"
  by (auto simp: does_def keeps_def dest!: spec [of _ w])

text \<open>Accesses to the map of streams keep the identifiers distinct.\<close>

lemma maps_frame [simp]:
  "keeps maps_ok (on_streams m1)" "keeps maps_ok (on_channels m2)" "keeps maps_ok (ffi E c)"
  "keeps maps_ok (on_workers (rc_get a))"
  by (auto simp: keeps_def maps_ok_def on_streams_def on_channels_def ffi_def snd_on rc_get_def split: prod.split option.split)

lemma maps_update:
  "(\<And>v. distinct (map fst (am_streams v)) \<Longrightarrow> distinct (map fst (am_streams (f v)))) \<Longrightarrow>
   keeps maps_ok (on_workers (rc_update k f))"
  by (auto simp: keeps_def maps_ok_def snd_on rc_update_def put_cell_def split: option.splits if_splits)

lemma chans_frame [simp]:
  "keeps (\<lambda>w. channels w = ch) (on_streams m1)" "keeps (\<lambda>w. channels w = ch) (ffi E c)"
  "keeps (\<lambda>w. channels w = ch) (on_workers m2)"
  by (auto simp: keeps_def on_streams_def ffi_def snd_on split: prod.split)

lemma am_register_frames:
  "keeps maps_ok (am_register E k i arg :: (('u, 'wk, 'q, 'n, 'c) full_world, (unit, Error) result) prog)"
  "keeps (\<lambda>w. channels w = ch) (am_register E k i arg :: (('u, 'wk, 'q, 'n, 'c) full_world, (unit, Error) result) prog)"
  unfolding am_register_def worker_call_def
  by (auto intro!: keeps_bind keeps_try_bind maps_update simp: distinct_delete split: option.split)

lemma am_stream_frames:
  "keeps maps_ok (am_stream E A k i :: (('u, 'wk, 'q, 'n, 'c) full_world, (AmStream, Error) result) prog)"
  "keeps (\<lambda>w. channels w = ch) (am_stream E A k i :: (('u, 'wk, 'q, 'n, 'c) full_world, (AmStream, Error) result) prog)"
  unfolding am_stream_def
  by (auto intro!: keeps_bind am_register_frames maps_update simp: distinct_update split: option.split sum.split)

lemma stream_write_owned:
  fixes w :: "('u, 'wk, 'q, 'n, 'c) full_world"
  assumes own: "owns w R" and held: "0 < stream_refs w R a"
  obtains c where "cells (streams w) a = Some c" "on_streams (rc_get a) w = (Ret (val c), w)"
    "\<And>v. \<exists>w'. on_streams (rc_update a (\<lambda>_. v)) w = (Ret (), w') \<and> owns w' R \<and> workers w' = workers w \<and> channels w' = channels w"
proof -
  obtain c where c: "cells (streams w) a = Some c" "0 < strong c"
    using countsD [OF owns_parts(6) [OF own] held] held by auto
  have "\<exists>w'. on_streams (rc_update a (\<lambda>_. v)) w = (Ret (), w') \<and> owns w' R \<and> workers w' = workers w \<and> channels w' = channels w" for v
    using stream_update_owned [OF own held, of "\<lambda>_. v"] on_streams_frame by (fastforce simp: does_def)
  with c that show ?thesis by (simp add: on_streams_def rc_on_cell)
qed

lemma wait_poll_owned:
  fixes w :: "('u, 'wk, 'q, 'n, 'c) full_world"
  assumes own: "owns w R" and held: "0 < stream_refs w R (s_inner st)"
  shows "does (poll_once (wait_msg A t (\<lambda>w. w) st suspended 1)) w (\<lambda>r w'.
    owns w' R \<and> workers w' = workers w \<and> channels w' = channels w
    \<and> (\<forall>m. r = Some (Some m) \<longrightarrow> m_worker m = s_worker st))"
proof -
  obtain c where "cells (streams w) (s_inner st) = Some c" and get: "on_streams (rc_get (s_inner st)) w = (Ret (val c), w)"
    and update: "\<And>v. \<exists>w'. on_streams (rc_update (s_inner st) (\<lambda>_. v)) w = (Ret (), w') \<and> owns w' R \<and> workers w' = workers w
      \<and> channels w' = channels w"
    by (rule stream_write_owned [OF own held]) (rule that)
  obtain r i' where turn: "wait_turn A t 2 (val c) = (r, i')" by fastforce
  obtain w1 where w1: "on_streams (rc_update (s_inner st) (\<lambda>_. i')) w = (Ret (), w1)"
    "owns w1 R" "workers w1 = workers w" "channels w1 = channels w"
    using update [of i'] by blast
  show ?thesis
  proof (cases "suspended \<and> n_pending (notify_ops A) t (notify (val c))")
    case True
    with own show ?thesis by (simp add: does_poll_once bind_def get modify_def lift_def)
  next
    case False
    have "wait_msg A t (\<lambda>w. w) st suspended 1 w = (case r of
         Some (Returned m) \<Rightarrow> (Ret (map_option (\<lambda>m. \<lparr>m_worker = s_worker st, msg = m\<rparr>) m), w1)
       | _ \<Rightarrow> (Unfinished, w1))"
      using False w1(1) by (auto simp: bind_def get turn lift_def ret_def modify_def split: option.split turn.split)
    then show ?thesis
      unfolding does_poll_once using w1(2-) by (cases r) (auto split: turn.splits)
  qed
qed

lemma am_msg_drop_owned:
  fixes w :: "('u, 'wk, 's, 'c) world"
  assumes own: "owns w R" and held: "0 < worker_refs w R (m_worker m)"
  shows "does (am_msg_drop E m) w (\<lambda>_ w'. owns w' R \<and> workers w' = workers w \<and> channels w' = channels w)"
proof -
  obtain h where "\<And>E call. worker_call (E :: ('u, 'wk) env) (m_worker m) call w = ffi E (call h) w"
    by (rule worker_call_eq [OF own held]) (rule that)
  then have "does (worker_call E (m_worker m) call) w Q \<longleftrightarrow> does (ffi E (call h)) w Q" for call Q
    by (simp add: does_def)
  with own show ?thesis
    by (simp add: am_msg_drop_def drop_msg_def split: option.split)
qed

lemma core_worker_vars:
  "exec E act s = (Ret (), s') \<Longrightarrow>
   (case act of Drop_worker k \<Rightarrow> set (remove1 k (worker_vars s)) | _ \<Rightarrow> set (worker_vars s)) \<subseteq> set (worker_vars s')"
  by (cases act) (auto simp: bind_def in_mem_def modify_def note_close_def
      split: prod.splits outcome.splits sum.splits close_state.splits)

section \<open>Every step keeps it\<close>

lemma full_frame:
  assumes "full_inv s" "owns w (refs_with (extra_refs s) (core s))" "maps_ok w"
    and "channels_ok w (count_list (map l_channel (listener_vars s)))"
  shows "full_inv (s\<lparr>core := (core s)\<lparr>mem := w\<rparr>\<rparr>)"
  using assms by (simp add: full_simps)

context ucx_library
begin

lemma full_core:
  fixes s :: "('u, 'wk, 'q, 'n, 'c) full"
  assumes inv: "full_inv s" and on: "full_enabled E (Core act) s"
  shows "does (full_exec E A C (Core act)) s (\<lambda>_. full_inv)"
proof -
  have core: "sys_inv_with (extra_refs s) (core s)" and act: "enabled act (core s)"
    using inv on by (simp_all add: full_inv_def)
  from exec_inv [OF this] obtain c where run: "exec E act (core s) = (Ret (), c)"
    and c: "sys_inv_with (extra_refs s) c"
    by (auto simp: does_def)
  have "maps_ok (mem c)"
    using keepsD [OF maps.every_exec_kept [of E act], of "core s"] inv run by (simp add: full_inv_def)
  moreover have "channels (mem c) = channels (mem (core s))"
    using keepsD [OF chans.every_exec_kept [of "channels (mem (core s))" E act], of "core s"] run by simp
  then have "channels_ok (mem c) (count_list (map l_channel (listener_vars s)))"
    using inv channels_ok_cong [of "mem c" "mem (core s)"] by (simp add: full_inv_def)
  moreover have "s_worker ` set (stream_vars s) \<union> m_worker ` set (msg_vars s) \<subseteq> set (worker_vars c)"
  proof
    fix k assume k: "k \<in> s_worker ` set (stream_vars s) \<union> m_worker ` set (msg_vars s)"
    then have "k \<in> set (worker_vars (core s))" using inv by (auto simp: full_inv_def)
    moreover have "act = Drop_worker k \<longrightarrow> k \<in> set (remove1 k (worker_vars (core s)))" using on k by auto
    ultimately show "k \<in> set (worker_vars c)"
      using core_worker_vars [OF run] by (cases "act = Drop_worker k"; cases act) auto
  qed
  ultimately show ?thesis
    using run c by (simp add: does_def in_core_def full_inv_def extra_refs_def)
qed

lemma full_memory:
  fixes s :: "('u, 'wk, 'q, 'n, 'c) full"
  assumes inv: "full_inv s"
  shows "c \<in> set (context_vars (core s)) \<Longrightarrow>
      (\<exists>s'. full_exec E A C (Register_memory c region) s = (Fault (Panic Assertion_failed), s'))
      \<or> does (full_exec E A C (Register_memory c region)) s (\<lambda>_. full_inv)"
    and "m \<in> set (memory_vars s) \<Longrightarrow>
      (\<exists>s'. full_exec E A C (Pack_memory m) s = (Fault (Panic Assertion_failed), s'))
      \<or> does (full_exec E A C (Pack_memory m)) s (\<lambda>_. full_inv)"
    and "m \<in> set (memory_vars s) \<Longrightarrow> does (full_exec E A C (Drop_memory m)) s (\<lambda>_. full_inv)"
proof -
  note held = full_held [OF inv]
  {
    assume "c \<in> set (context_vars (core s))"
    from memory_register_owned [OF held(1) held(4) [OF this], of region]
    show "(\<exists>s'. full_exec E A C (Register_memory c region) s = (Fault (Panic Assertion_failed), s'))
      \<or> does (full_exec E A C (Register_memory c region)) s (\<lambda>_. full_inv)"
    proof (elim disjE exE)
      fix w' assume "memory_register E c region (mem (core s)) = (Fault (Panic Assertion_failed), w')"
      then show ?thesis by (simp add: bind_def in_world_def)
    next
      assume reg: "does (memory_register E c region) (mem (core s)) (\<lambda>m w'. mh_context m = c
        \<and> owns w' ((refs_with (extra_refs s) (core s))\<lparr>r_contexts := inc c (r_contexts (refs_with (extra_refs s) (core s)))\<rparr>)
        \<and> workers w' = workers (mem (core s)) \<and> channels w' = channels (mem (core s)))"
      have "does (full_exec E A C (Register_memory c region)) s (\<lambda>_. full_inv)"
        unfolding full_exec.simps does_bind does_in_world
        by (rule does_mono [OF reg])
          (use inv in \<open>auto simp: full_simps maps_ok_def channels_ok_def\<close>)
      then show ?thesis ..
    qed
  next
    assume m: "m \<in> set (memory_vars s)"
    then have refs: "0 < context_refs (mem (core s)) (refs_with (extra_refs s) (core s)) (mh_context m)"
      using held(6) by (simp add: context_refs_def)
    from memory_pack_safe [OF held(1) this] obtain r w' where run: "memory_pack E m (mem (core s)) = (r, w')"
      and r: "r = Fault (Panic Assertion_failed) \<or> (\<exists>b. r = Ret b)"
      and w': "owns w' (refs_with (extra_refs s) (core s))" "workers w' = workers (mem (core s))"
        "channels w' = channels (mem (core s))" by blast
    from r show "(\<exists>s'. full_exec E A C (Pack_memory m) s = (Fault (Panic Assertion_failed), s'))
      \<or> does (full_exec E A C (Pack_memory m)) s (\<lambda>_. full_inv)"
    proof (elim disjE exE)
      assume "r = Fault (Panic Assertion_failed)"
      then show ?thesis using run by (simp add: bind_def in_world_def)
    next
      fix b assume b: "r = Ret b"
      have "does (rkey_buffer_drop E b) w' (\<lambda>_ v. full_inv (s\<lparr>core := (core s)\<lparr>mem := v\<rparr>\<rparr>))"
        using w' inv by (auto simp: rkey_buffer_drop_def full_simps maps_ok_def channels_ok_def)
      then show ?thesis
        using run b by (auto simp: does_def bind_def in_world_def ret_def split: prod.splits)
    qed
    show "does (full_exec E A C (Drop_memory m)) s (\<lambda>_. full_inv)"
      unfolding full_exec.simps does_bind does_in_world
      by (rule does_mono [OF memory_drop_owned [OF held(1) held(6) [OF m]]])
        (use inv m in \<open>auto simp: full_simps maps_ok_def channels_ok_def\<close>)
  }
qed

end

lemma in_remove1D: "x \<in> set (remove1 y xs) \<Longrightarrow> x \<in> set xs"
  using set_remove1_subset by (rule subsetD)

lemma does_channels: "does m w Q \<Longrightarrow> keeps (\<lambda>v. channels v = channels w) m \<Longrightarrow> does m w (\<lambda>x w'. Q x w' \<and> channels w' = channels w)"
  by (drule (1) does_keeps) simp_all

context ucx_library
begin

lemma full_streams:
  fixes s :: "('u, 'wk, 'q, 'n, 'c) full"
  assumes inv: "full_inv s"
  shows "k \<in> set (worker_vars (core s)) \<Longrightarrow> does (full_exec E A C (Open_stream k i)) s (\<lambda>_. full_inv)"
    and "k \<in> set (worker_vars (core s)) \<Longrightarrow> does (full_exec E A C (Register_handler k i arg)) s (\<lambda>_. full_inv)"
    and "st \<in> set (stream_vars s) \<Longrightarrow> does (full_exec E A C (Clone_stream st)) s (\<lambda>_. full_inv)"
    and "st \<in> set (stream_vars s) \<Longrightarrow> does (full_exec E A C (Drop_stream st)) s (\<lambda>_. full_inv)"
    and "st \<in> set (stream_vars s) \<Longrightarrow> does (full_exec E A C (Poll_stream t suspended st)) s (\<lambda>_. full_inv)"
    and "m \<in> set (msg_vars s) \<Longrightarrow> does (full_exec E A C (Drop_message m)) s (\<lambda>_. full_inv)"
proof -
  let ?w = "mem (core s)" and ?R = "refs_with (extra_refs s) (core s)"
  note held = full_held [OF inv]
  have borrowed: "x \<in> set (worker_vars (core s))" if "x \<in> s_worker ` set (stream_vars s) \<union> m_worker ` set (msg_vars s)" for x
    using inv that by (auto simp: full_inv_def)
  have stream: "0 < stream_refs ?w ?R (s_inner st)" if "st \<in> set (stream_vars s)"
    using held(7) [OF that] by (simp add: stream_refs_def)
  {
    assume k: "k \<in> set (worker_vars (core s))"
    have ok: "map_ok k ?w"
    proof -
      obtain b where "cells (workers ?w) k = Some b"
        using countsD [OF owns_parts(4) [OF held(1)] held(5) [OF k]] by blast
      with maps_ok_at [OF held(2)] show ?thesis .
    qed
    note opened = does_channels [OF does_keeps [OF am_stream_owned [OF ucx_library_axioms held(1) held(5) [OF k] ok, of A i]
        am_stream_frames(1) held(2)] am_stream_frames(2)]
    show "does (full_exec E A C (Open_stream k i)) s (\<lambda>_. full_inv)"
      unfolding full_exec.simps does_bind does_in_world
      by (rule does_mono [OF opened]) (use inv k in \<open>auto simp: full_simps channels_ok_def split: sum.splits\<close>)
    note registered = does_channels [OF does_keeps [OF am_register_owned [OF ucx_library_axioms held(1) held(5) [OF k] ok, of i arg]
        am_register_frames(1) held(2)] am_register_frames(2)]
    show "does (full_exec E A C (Register_handler k i arg)) s (\<lambda>_. full_inv)"
      unfolding full_exec.simps does_bind does_in_world
      by (rule does_mono [OF registered]) (use inv k in \<open>auto simp: full_simps channels_ok_def split: sum.splits\<close>)
  next
    assume st: "st \<in> set (stream_vars s)"
    note cloned = does_channels [OF stream_clone_owned [OF held(1) stream [OF st]] chans_frame(1)]
    show "does (full_exec E A C (Clone_stream st)) s (\<lambda>_. full_inv)"
      unfolding full_exec.simps am_stream_clone_def does_bind does_in_world
      by (rule does_mono [OF cloned])
        (use inv borrowed st in \<open>auto simp: full_simps maps_ok_def channels_ok_def\<close>)
    note dropped = does_channels [OF stream_drop_owned [OF held(1) held(7) [OF st]] chans_frame(1)]
    show "does (full_exec E A C (Drop_stream st)) s (\<lambda>_. full_inv)"
      unfolding full_exec.simps am_stream_drop_def does_bind does_in_world
      by (rule does_mono [OF dropped])
        (use inv st in \<open>auto simp: full_simps maps_ok_def channels_ok_def dest!: in_remove1D\<close>)
    show "does (full_exec E A C (Poll_stream t suspended st)) s (\<lambda>_. full_inv)"
      unfolding full_exec.simps does_bind does_in_world
      by (rule does_mono [OF wait_poll_owned [OF held(1) stream [OF st], of A t suspended]])
        (use inv borrowed st in \<open>auto simp: full_simps maps_ok_def channels_ok_def split: option.splits\<close>)
  next
    assume m: "m \<in> set (msg_vars s)"
    then have "0 < worker_refs ?w ?R (m_worker m)"
      using borrowed [of "m_worker m"] held(5) by simp
    from am_msg_drop_owned [OF held(1) this, of E]
    show "does (full_exec E A C (Drop_message m)) s (\<lambda>_. full_inv)"
      unfolding full_exec.simps does_bind does_in_world
      by (rule does_mono) (use inv in \<open>auto simp: full_simps maps_ok_def channels_ok_def dest!: in_remove1D\<close>)
  }
qed

lemma full_listeners:
  fixes s :: "('u, 'wk, 'q, 'n, 'c) full"
  assumes inv: "full_inv s"
  shows "k \<in> set (worker_vars (core s)) \<Longrightarrow> does (full_exec E A C (New_listener k addr)) s (\<lambda>_. full_inv)"
    and "l \<in> set (listener_vars s) \<Longrightarrow> does (full_exec E A C (Poll_listener l)) s (\<lambda>_. full_inv)"
    and "l \<in> set (listener_vars s) \<Longrightarrow> does (full_exec E A C (Drop_listener l)) s (\<lambda>_. full_inv)"
proof -
  note held = full_held [OF inv]
  {
    assume "k \<in> set (worker_vars (core s))"
    from listener_new_owned [OF held(1) held(5) [OF this] held(3), of C addr]
    show "does (full_exec E A C (New_listener k addr)) s (\<lambda>_. full_inv)"
      unfolding full_exec.simps does_bind does_in_world
      by (rule does_mono) (use inv in \<open>auto simp: full_simps maps_ok_def split: sum.splits\<close>)
  next
    assume l: "l \<in> set (listener_vars s)"
    from listener_poll_owned [OF held(1,3) held(8) [OF l], of C] obtain r w'
      where run: "listener_next C (\<lambda>w. w) l 1 (mem (core s)) = (r, w')" "r = Unfinished \<or> (\<exists>conn. r = Ret conn)"
        and w': "owns w' (refs_with (extra_refs s) (core s))" "workers w' = workers (mem (core s))"
          "channels_ok w' (count_list (map l_channel (listener_vars s)))" by blast
    have "full_inv (s\<lparr>core := (core s)\<lparr>mem := w'\<rparr>\<rparr>)"
      using full_frame [OF inv w'(1) _ w'(3)] maps_ok_cong [OF w'(2)] held(2) by simp
    with run(2) show "does (full_exec E A C (Poll_listener l)) s (\<lambda>_. full_inv)"
      unfolding full_exec.simps does_bind does_in_world does_poll_once run(1) by auto
    from listener_drop_owned [OF held(1,3) held(8) [OF l], of E]
    show "does (full_exec E A C (Drop_listener l)) s (\<lambda>_. full_inv)"
      unfolding full_exec.simps does_bind does_in_world
      by (rule does_mono) (use inv l in \<open>auto simp: full_simps maps_ok_def\<close>)
  }
qed

lemma full_progress:
  assumes "unbounded_channel C sent" "full_inv s" "full_enabled E (Make_progress k) s"
  shows "does (full_exec E A C (Make_progress k)) s (\<lambda>_. full_inv)"
proof -
  note held = full_held [OF assms(2)]
  have "k \<in> set (worker_vars (core s))" "\<forall>cb\<in>set (reported E k (mem (core s))). callback_ok (mem (core s)) cb"
    using assms(3) by simp_all
  from progress_owned [OF ucx_library_axioms assms(1) held(1) held(5) [OF this(1)] held(3) this(2), of A]
  show ?thesis
    unfolding full_exec.simps does_bind does_in_world
    by (rule does_mono) (use assms(2) held(2) in \<open>auto simp: progress_frame_def intro: full_frame cong: maps_ok_cong\<close>)
qed

text \<open>Only the two assertions on registered memory can end a step before it returns.\<close>

lemma full_exec_inv:
  assumes "unbounded_channel C sent" "full_inv s" "full_enabled E act s"
  shows "(\<exists>s'. full_exec E A C act s = (Ret (), s') \<and> full_inv s')
    \<or> ((\<exists>c region. act = Register_memory c region) \<or> (\<exists>m. act = Pack_memory m))
        \<and> (\<exists>s'. full_exec E A C act s = (Fault (Panic Assertion_failed), s'))"
    (is "_ \<or> ?panics")
proof -
  have "does (full_exec E A C act) s (\<lambda>_. full_inv) \<or> ?panics"
  proof (cases act)
    case (Core a)
    with full_core [OF assms(2), of a A C] assms(3) show ?thesis by blast
  next
    case (Register_memory c region)
    with full_memory(1) [OF assms(2), of c A C region] assms(3) show ?thesis by auto
  next
    case (Pack_memory m)
    with full_memory(2) [OF assms(2), of m A C] assms(3) show ?thesis by auto
  next
    case (Make_progress k)
    with full_progress [OF assms(1,2), of k A] assms(3) show ?thesis by blast
  qed (use assms(3) in \<open>simp_all add: full_memory(3) [OF assms(2)] full_streams [OF assms(2)]
      full_listeners [OF assms(2)] del: full_exec.simps\<close>)
  then show ?thesis by (auto simp: does_def)
qed

lemma full_start_inv: "full_inv (empty_full u :: ('u, 'wk, 'q, 'n, 'c) full)"
proof -
  let ?s = "empty_full u :: ('u, 'wk, 'q, 'n, 'c) full"
  have "extra_refs ?s = no_refs"
    by (simp add: extra_refs_def empty_full_def no_refs_def fun_eq_iff)
  then have "sys_inv_with (extra_refs ?s) (core ?s)"
    by (simp only: sys_inv_with_none) (simp add: empty_full_def empty_sys_inv)
  then show ?thesis
    by (simp add: full_inv_def)
      (simp add: maps_ok_def channels_ok_def empty_full_def empty_sys_def empty_heap_def heap_fresh_def counts_def)
qed

lemma full_reachable_inv:
  assumes "unbounded_channel C sent" "full_reachable E A C s"
  shows "full_inv s"
  using assms(2)
proof (induction rule: full_reachable.induct)
  case (full_start u)
  show ?case by (rule full_start_inv)
next
  case (full_step s act s')
  then show ?case using full_exec_inv [OF assms(1), of s act A] by auto
qed

end

section \<open>The balance of the whole machine\<close>

lemma keeps_in_world: "keeps P m \<Longrightarrow> keeps (\<lambda>s. P (mem (core s))) (in_world m)"
  by (auto simp: keeps_def in_world_def split: prod.splits)

lemma keeps_in_core: "keeps (\<lambda>c. P (mem c)) m \<Longrightarrow> keeps (\<lambda>s. P (mem (core s))) (in_core m)"
  by (auto simp: keeps_def in_core_def split: prod.splits)

lemma keeps_poll_once: "keeps P m \<Longrightarrow> keeps P (poll_once m)"
  by (auto simp: keeps_def poll_once_def split: prod.splits outcome.splits)

lemma keeps_modify_core: "(\<And>s. core (f s) = core s) \<Longrightarrow> keeps (\<lambda>s. P (mem (core s))) (modify f)"
  by (simp add: keeps_def modify_def)

lemma keeps_ret: "keeps P (ret x)"
  by (simp add: keeps_def ret_def)

lemma keeps_id: "keeps P (modify (\<lambda>w. w))"
  by (simp add: keeps_def modify_def)

text \<open>
  What a predicate on worlds needs, beyond \<open>world_frame\<close>, so that every action of the whole machine
  keeps it: it does not look at queues, channels and the schedule, nor at the maps of the workers.
\<close>

locale full_frame = world_frame E P
  for E :: "('u, 'wk) env" and P :: "('u, 'wk, 'q, 'n, 'c) full_world \<Rightarrow> bool" +
  assumes streams_frame: "P w \<Longrightarrow> P (w\<lparr>streams := st\<rparr>)"
    and channels_frame: "P w \<Longrightarrow> P (w\<lparr>channels := ch\<rparr>)"
    and scheduled_frame: "P w \<Longrightarrow> P (w\<lparr>scheduled := ts\<rparr>)"
    and waker_frame: "P w \<Longrightarrow> reqs w p \<noteq> None \<Longrightarrow> P (w\<lparr>reqs := (reqs w)(p \<mapsto> a)\<rparr>)"
    and worker_map_frame: "keeps P (on_workers (rc_update k f))"
begin

lemma accesses_kept [simp]:
  "keeps P (on_streams m1)" "keeps P (on_channels m2)" "keeps P (on_workers (rc_update k f))"
  "keeps P (modify (\<lambda>w. w\<lparr>scheduled := g w\<rparr>))"
  by (simp_all add: keeps_def on_streams_def on_channels_def streams_frame channels_frame scheduled_frame modify_def
      worker_map_frame [unfolded keeps_def] split: prod.split)

lemma wake_kept [simp]: "keeps P (wake_request E p)"
  using waker_frame scheduled_frame [of "w\<lparr>reqs := (reqs w)(p \<mapsto> a)\<rparr>" for w a]
  by (auto simp: keeps_def wake_request_def split: option.splits prod.splits)

lemma wait_kept: "keeps P (wait_msg A t (\<lambda>w. w) st suspended n)"
  by (induction n arbitrary: suspended)
    (auto intro!: keeps_bind keeps_id split: prod.split option.split turn.split)

lemma next_kept: "keeps P (listener_next C (\<lambda>w. w) l n)"
  by (induction n) (auto intro!: keeps_bind keeps_id split: prod.split option.split)

lemma callbacks_kept [simp]: "keeps P (run_callbacks E A C cbs)"
proof (induction cbs)
  case (Cons cb cbs)
  have "keeps P (run_callback E A C cb)"
    by (cases cb) (auto simp: run_callback_def connect_handler_def am_callback_def
        intro!: keeps_bind split: prod.split option.split)
  with Cons show ?case by (auto intro: keeps_bind)
qed simp

lemma resources_kept [simp]:
  "keeps P (memory_register E c region)" "keeps P (memory_pack E m)"
  "keeps P (rkey_buffer_drop E b)" "keeps P (memory_drop E m)"
  "keeps P (am_register E k i arg)" "keeps P (am_stream_clone st)" "keeps P (am_stream_drop st)"
  "keeps P (am_msg_drop E a)" "keeps P (listener_new E C k addr)" "keeps P (listener_drop E l)"
  "keeps P (worker_progress E A C k)"
  by (auto simp: memory_register_def memory_pack_def rkey_buffer_drop_def memory_drop_def am_register_def
      am_stream_clone_def am_stream_drop_def am_msg_drop_def drop_msg_def listener_new_def listener_drop_def
      worker_progress_def
      intro!: keeps_bind keeps_try_bind split: option.split sum.split)

lemma am_stream_kept [simp]: "keeps P (am_stream E A k i)"
  by (auto simp: am_stream_def intro!: keeps_bind split: option.split sum.split)

lemma full_exec_kept:
  "(\<And>e ptr. act \<noteq> Core (Poll_close e ptr)) \<Longrightarrow> keeps (\<lambda>s. P (mem (core s))) (full_exec E A C act)"
  by (cases act) (auto intro!: keeps_bind keeps_in_world keeps_in_core keeps_poll_once keeps_modify_core
      simp: keeps_ret wait_kept next_kept exec_kept simp del: wait_msg.simps listener_next.simps
      split: sum.split option.split)

end

locale full_freeing_frame = full_frame E P + freeing_frame E P
  for E :: "('u, 'wk) env" and P :: "('u, 'wk, 'q, 'n, 'c) full_world \<Rightarrow> bool"
begin

lemma every_full_exec_kept: "keeps (\<lambda>s. P (mem (core s))) (full_exec E A C act)"
proof (cases "\<exists>e ptr. act = Core (Poll_close e ptr)")
  case True
  then obtain e ptr where act: "act = Core (Poll_close e ptr)" by blast
  show ?thesis
    unfolding act full_exec.simps by (rule keeps_in_core [OF every_exec_kept])
next
  case False
  then show ?thesis by (auto intro: full_exec_kept)
qed

end

interpretation full_balance: full_freeing_frame E "balanced :: ('u, 'wk, 'q, 'n, 'c) full_world \<Rightarrow> bool" for E :: "('u, 'wk) env"
  by unfold_locales (auto simp: balanced_def destroys_def cleanups_def
      intro!: keeps_balanced_heap(1))

lemma full_reachable_balanced: "full_reachable E A C s \<Longrightarrow> balanced (mem (core s))"
proof (induction rule: full_reachable.induct)
  case (full_start u)
  show ?case by (simp add: empty_full_def empty_sys_def balanced_def empty_heap_def heap_fresh_def no_weak_def
      destroys_def cleanups_def)
next
  case (full_step s act s')
  then show ?case
    using keepsD [OF full_balance.every_full_exec_kept [of E A C act], of s] by simp
qed

section \<open>Properties\<close>

text \<open>
  The whole program is memory safe: in every reachable state of the machine, every enabled
  operation on contexts, workers, endpoints, registered memory, message streams, messages and
  listeners, and every call of \<^verbatim>\<open>progress\<close> with all the callbacks it runs, returns; only
  \<^verbatim>\<open>MemoryHandle::register\<close> and \<^verbatim>\<open>pack\<close> can panic, on their assertion that the library succeeded.
\<close>

theorem system_never_faults:
  assumes "ucx_library E" "unbounded_channel C sent" "full_reachable E A C s" "full_enabled E act s"
  shows "(\<exists>s'. full_exec E A C act s = (Ret (), s') \<and> full_reachable E A C s')
    \<or> ((\<exists>c region. act = Register_memory c region) \<or> (\<exists>m. act = Pack_memory m))
        \<and> (\<exists>s'. full_exec E A C act s = (Fault (Panic Assertion_failed), s'))"
  using ucx_library.full_exec_inv [OF assms(1,2) ucx_library.full_reachable_inv [OF assms(1,2,3)] assms(4), of A]
    full_step [OF assms(3,4)] by blast

text \<open>
  Nothing of the whole program leaks and nothing is destroyed twice: once every variable is
  gone, every reference-counted allocation has been freed (those of streams and channels included),
  and the library was told exactly once per worker and per context ever created to destroy it.
\<close>

theorem system_all_released:
  assumes "ucx_library E" "unbounded_channel C sent" "full_reachable E A C s"
    and "context_vars (core s) = []" "worker_vars (core s) = []" "endpoint_vars (core s) = []"
    and "memory_vars s = []" "stream_vars s = []" "listener_vars s = []"
  shows "cells (contexts (mem (core s))) = Map.empty \<and> cells (workers (mem (core s))) = Map.empty
    \<and> cells (inners (mem (core s))) = Map.empty \<and> cells (streams (mem (core s))) = Map.empty
    \<and> cells (channels (mem (core s))) = Map.empty
    \<and> destroys (mem (core s)) = next_addr (workers (mem (core s)))
    \<and> cleanups (mem (core s)) = next_addr (contexts (mem (core s)))"
proof -
  note held = full_held [OF ucx_library.full_reachable_inv [OF assms(1-3)]]
  have "cells (channels (mem (core s))) = Map.empty"
    using counts_empty [of "channels (mem (core s))" "count_list []"] held(3) assms(9) by (simp add: channels_ok_def)
  with owns_nothing [OF held(1)] assms(4-9) full_reachable_balanced [OF assms(3)] show ?thesis
    by (simp add: refs_with_simps extra_refs_def tally_def balanced_def)
qed

text \<open>A run for the witnesses: a context, a worker, a stream, a listener, and a message that arrives.\<close>

type_synonym demo_full_sys = "(reply list, nat option, RawMsg list, nat list \<times> bool, ConnectionRequest list) full"

fun full_run ::
  "('u, 'wk) env \<Rightarrow> ('q, 'n) am_ops \<Rightarrow> 'c channel_ops \<Rightarrow> full_action list \<Rightarrow>
   ('u, 'wk, 'q, 'n, 'c) full \<Rightarrow> ('u, 'wk, 'q, 'n, 'c) full" where
  "full_run E A C [] s = s"
| "full_run E A C (act # acts) s = full_run E A C acts (snd (full_exec E A C act s))"

fun full_enabled_run ::
  "('u, 'wk) env \<Rightarrow> ('q, 'n) am_ops \<Rightarrow> 'c channel_ops \<Rightarrow> full_action list \<Rightarrow> ('u, 'wk, 'q, 'n, 'c) full \<Rightarrow> bool" where
  "full_enabled_run E A C [] s = True"
| "full_enabled_run E A C (act # acts) s = (full_enabled E act s \<and> fst (full_exec E A C act s) = Ret ()
     \<and> full_enabled_run E A C acts (snd (full_exec E A C act s)))"

lemma full_run_reachable:
  "full_reachable E A C s \<Longrightarrow> full_enabled_run E A C acts s \<Longrightarrow> full_reachable E A C (full_run E A C acts s)"
proof (induction acts arbitrary: s)
  case (Cons act acts)
  then show ?case
    using full_step [of E A C s act "snd (full_exec E A C act s)"] by (simp add: prod_eq_iff)
qed simp

definition demo_start :: "full_action list" where
  "demo_start = [Core (New_context False 0), Core (New_worker 0), Open_stream 0 3, New_listener 0 []]"

definition demo_events :: reply where
  "demo_events = ok_reply\<lparr>ran_callbacks :=
     [Am_handler 0 [7] \<lparr>as_ptr = 16, contents = [1]\<rparr> 0 0, Conn_handler 0 200]\<rparr>"

definition demo_script :: "reply list" where
  "demo_script = [ok_reply, ok_reply, ok_reply, ok_reply, demo_events]"

definition started :: demo_full_sys where
  "started = full_run (lawful_env Debug) list_ops list_channel demo_start (empty_full demo_script)"

lemmas full_machine_simps = machine_simps in_world_def in_core_def am_stream_def am_register_def listener_new_def
  empty_full_def empty_sys_def empty_heap_def

lemma started_eq: "started = \<lparr>core = \<lparr>mem = \<lparr>lib = [demo_events], calls = calls (mem (core started)),
       reqs = Map.empty, scheduled = [],
       contexts = \<lparr>cells = [0 \<mapsto> \<lparr>strong = 2, weak = 0, val = \<lparr>c_handle = 0\<rparr>\<rparr>], next_addr = 1\<rparr>,
       workers = \<lparr>cells = [0 \<mapsto> \<lparr>strong = 1, weak = 0,
          val = \<lparr>w_handle = 0, w_context = 0, am_streams = [(3, 0)]\<rparr>\<rparr>], next_addr = 1\<rparr>,
       inners = empty_heap,
       streams = \<lparr>cells = [0 \<mapsto> \<lparr>strong = 2, weak = 0, val = stream_new list_ops 3\<rparr>], next_addr = 1\<rparr>,
       channels = \<lparr>cells = [0 \<mapsto> \<lparr>strong = 1, weak = 0, val = []\<rparr>], next_addr = 1\<rparr>\<rparr>,
     context_vars = [0], worker_vars = [0], endpoint_vars = [], closers = []\<rparr>,
   memory_vars = [], stream_vars = [\<lparr>s_worker = 0, s_inner = 0\<rparr>], msg_vars = [],
   listener_vars = [\<lparr>l_handle = 0, l_channel = 0\<rparr>]\<rparr>"
  by (simp add: started_def demo_start_def demo_script_def list_channel_def full_machine_simps numeral_2_eq_2)

lemma started_reachable: "full_reachable (lawful_env Debug) list_ops list_channel started"
proof -
  have "full_enabled_run (lawful_env Debug) list_ops list_channel demo_start (empty_full demo_script :: demo_full_sys)"
    by (simp add: demo_start_def demo_script_def full_machine_simps)
  from full_run_reachable [OF full_start this] show ?thesis by (simp add: started_def)
qed

lemma progress_enabled: "full_enabled (lawful_env Debug) (Make_progress 0) started"
  by (subst started_eq) (simp add: reported_def demo_events_def lawful_def callback_ok_def)

theorem system_never_faults_witness:
  "\<exists>s'. full_exec (lawful_env Debug) list_ops list_channel (Make_progress 0) started = (Ret (), s')
     \<and> full_reachable (lawful_env Debug) list_ops list_channel s'"
  using system_never_faults [OF lawful.ucx_library_axioms lc.unbounded_channel_axioms started_reachable progress_enabled]
  by blast

definition demo_teardown :: "full_action list" where
  "demo_teardown = [Drop_listener \<lparr>l_handle = 0, l_channel = 0\<rparr>, Drop_stream \<lparr>s_worker = 0, s_inner = 0\<rparr>,
     Core (Drop_worker 0), Core (Drop_context 0)]"

lemmas teardown_simps = machine_simps in_world_def in_core_def listener_drop_def am_stream_drop_def empty_heap_def

theorem system_all_released_witness:
  "destroys (mem (core (full_run (lawful_env Debug) list_ops list_channel demo_teardown started))) = 1
   \<and> cleanups (mem (core (full_run (lawful_env Debug) list_ops list_channel demo_teardown started))) = 1"
proof -
  let ?s = "full_run (lawful_env Debug) list_ops list_channel demo_teardown started"
  have "full_enabled_run (lawful_env Debug) list_ops list_channel demo_teardown started"
    by (subst started_eq) (simp add: demo_teardown_def teardown_simps)
  then have "full_reachable (lawful_env Debug) list_ops list_channel ?s"
    using full_run_reachable [OF started_reachable] by blast
  note released = system_all_released [OF lawful.ucx_library_axioms lc.unbounded_channel_axioms this]
  have "context_vars (core ?s) = [] \<and> worker_vars (core ?s) = [] \<and> endpoint_vars (core ?s) = []
    \<and> memory_vars ?s = [] \<and> stream_vars ?s = [] \<and> listener_vars ?s = []
    \<and> next_addr (workers (mem (core ?s))) = 1 \<and> next_addr (contexts (mem (core ?s))) = 1"
    by (subst (1 2 3 4 5 6 7 8) started_eq) (simp add: demo_teardown_def teardown_simps)
  with released show ?thesis by simp
qed

end
