(* ===== verification/Cancel.thy ===== *)
theory Cancel
  imports Transfers
begin

text \<open>
  Dropping a future before it is ready (\<^verbatim>\<open>select!\<close>, a timeout, an aborted task): the drop of
  \<^verbatim>\<open>RequestHandle\<close> in \<^verbatim>\<open>src/ucp/endpoint/mod.rs\<close> frees the request, whatever its state. The receive of
  \<^verbatim>\<open>src/ucp/endpoint/tag.rs\<close> is the operation followed here, as it lends a buffer to the library.
\<close>

section \<open>A future that is dropped\<close>

text \<open>
  \<^verbatim>\<open>RequestHandle\<close> polled by a task at most the given number of times and then dropped; \<open>None\<close> when it
  was still pending.
\<close>

fun abandon_request ::
  "('u, 'wk) env \<Rightarrow> (handle \<Rightarrow> (('u, 'wk, 's, 'c) world, 'a poll) prog) \<Rightarrow> handle \<Rightarrow> nat \<Rightarrow>
   (('u, 'wk, 's, 'c) world \<Rightarrow> ('u, 'wk, 's, 'c) world) \<Rightarrow> nat \<Rightarrow> (('u, 'wk, 's, 'c) world, 'a option) prog" where
  "abandon_request E poll_fn ptr task others 0 = bind (request_drop E ptr) (\<lambda>_. ret None)"
| "abandon_request E poll_fn ptr task others (Suc n) =
     bind (request_poll E poll_fn ptr task) (\<lambda>r. case r of
         Ready x \<Rightarrow> bind (request_drop E ptr) (\<lambda>_. ret (Some x))
       | Pending \<Rightarrow> bind (modify others) (\<lambda>_. abandon_request E poll_fn ptr task others n))"

text \<open>The future of \<^verbatim>\<open>tag_recv_mask\<close>, dropped after at most \<open>x_polls\<close> polls.\<close>

definition abandon_tag_recv ::
  "('u, 'wk) env \<Rightarrow> ('u, 'wk, 's, 'c) world executor \<Rightarrow> nat \<Rightarrow> u64 \<Rightarrow> u64 \<Rightarrow> slice \<Rightarrow>
   (('u, 'wk, 's, 'c) world, (u64 \<times> usize, Error) result option) prog" where
  "abandon_tag_recv E X wk tag tag_mask buf =
     bind (worker_call E wk (\<lambda>h. Ucp_tag_recv_nb h (Bytes (as_ptr buf)) (slice_len buf)
             (ucp_dt_make_contig (binds E) 1) tag tag_mask)) (\<lambda>r.
     bind (lift (from_ptr (prof E) (binds E) (ptr_of r))) (\<lambda>res. case res of
         Inl err \<Rightarrow> ret (Some (Err err))
       | Inr _ \<Rightarrow> abandon_request E (poll_tag E) (ptr_of r) (x_task X) (x_others X) (x_polls X)))"

text \<open>A future that is polled often enough is not affected: it is the one that is awaited.\<close>

lemma abandon_is_await:
  assumes "await_request E f ptr task others n w = (Ret x, w')"
  shows "abandon_request E f ptr task others n w = (Ret (Some x), w')"
  using assms
proof (induction n arbitrary: w)
  case 0
  then show ?case by (simp add: lift_def)
next
  case (Suc n)
  then show ?case
    by (auto simp: bind_def ret_def modify_def split: prod.splits outcome.splits poll.splits)
qed

text \<open>Whatever is read off the log and not changed by the others is that of before, plus the final release.\<close>

lemma abandon_calls:
  assumes "lib_test (f ptr)" "\<forall>v. h (calls (others v)) = h (calls v)"
    and "abandon_request E f ptr task others n w = (Ret r, w')"
  shows "\<exists>cs. h cs = h (calls w) \<and> calls w' = cs @ [Ucp_request_free ptr]"
  using assms(3)
proof (induction n arbitrary: w)
  case 0
  then show ?case by (auto simp: bind_def request_drop_def ffi_def ret_def split: prod.splits)
next
  case (Suc n)
  obtain q v where poll: "request_poll E f ptr task w = (q, v)" by fastforce
  then have same: "calls v = calls w"
    using request_poll_calls [of f ptr E task w] assms(1) by simp
  show ?case
  proof (cases "q = Ret Pending")
    case True
    then have "abandon_request E f ptr task others n (others v) = (Ret r, w')"
      using Suc.prems poll by (simp add: bind_def modify_def)
    from Suc.IH [OF this] assms(2) same show ?thesis by simp
  next
    case False
    with Suc.prems poll same show ?thesis
      by (auto simp: bind_def request_drop_def ffi_def ret_def split: outcome.splits poll.splits prod.splits)
  qed
qed

lemma abandon_pending:
  assumes "lib_test (f ptr)" "keeps_request ptr others" "reqs w ptr \<noteq> None"
    and "\<forall>i<n. fst (f ptr ((park E ptr task others ^^ i) w)) = Ret Pending"
  shows "abandon_request E f ptr task others n w = (Ret None, snd (request_drop E ptr ((park E ptr task others ^^ n) w)))"
  using assms(3-)
proof (induction n arbitrary: w)
  case 0
  then show ?case by (simp add: bind_def request_drop_def ffi_def ret_def split: prod.splits)
next
  case (Suc n)
  let ?w = "park E ptr task others w"
  obtain a where a: "reqs w ptr = Some a" using Suc.prems(1) by blast
  have step: "(park E ptr task others ^^ Suc i) w = (park E ptr task others ^^ i) ?w" for i
    by (simp add: funpow_swap1)
  have "\<forall>i<n. fst (f ptr ((park E ptr task others ^^ i) ?w)) = Ret Pending"
    using Suc.prems(2) step by (metis Suc_mono)
  then have "abandon_request E f ptr task others n ?w =
      (Ret None, snd (request_drop E ptr ((park E ptr task others ^^ n) ?w)))"
    using Suc.prems(1) assms(2) by (intro Suc.IH) (auto simp: park_keeps)
  moreover have "fst (f ptr w) = Ret Pending"
    using Suc.prems(2) by (metis funpow_0 zero_less_Suc)
  from request_poll_Pending [where f = f, OF assms(1) this a]
  have "abandon_request E f ptr task others (Suc n) w = abandon_request E f ptr task others n ?w"
    by (simp add: bind_def modify_def park_def)
  ultimately show ?case using step by simp
qed

section \<open>Properties\<close>

text \<open>
  A future is freed exactly once however it ends: after the library has completed it or, when it
  is dropped before that, by the drop. No request leaks, none is freed twice.
\<close>

theorem abandoned_request_freed_once:
  assumes "lib_test (f ptr)" "\<forall>v. frees ptr (others v) = frees ptr v"
    and "abandon_request E f ptr task others n w = (Ret r, w')"
  shows "frees ptr w' = Suc (frees ptr w)"
  using abandon_calls [of f ptr "\<lambda>cs. count_list cs (Ucp_request_free ptr)", OF assms] by auto

text \<open>A request that stays pending for two polls and is dropped then.\<close>

theorem abandoned_request_freed_once_witness:
  "frees 8 (snd (abandon_request (sample_env Debug) (poll_normal (sample_env Debug)) 8 1 (\<lambda>w. w) 2
     ((sample_world [ok_reply\<lparr>status_of := UCS_INPROGRESS\<rparr>])\<lparr>reqs := [8 \<mapsto> None]\<rparr>
        :: (reply list, nat option, unit, unit) world))) = 1"
proof -
  let ?E = "sample_env Debug"
  let ?w = "(sample_world [ok_reply\<lparr>status_of := UCS_INPROGRESS\<rparr>])\<lparr>reqs := [8 \<mapsto> None]\<rparr>
    :: (reply list, nat option, unit, unit) world"
  let ?run = "abandon_request ?E (poll_normal ?E) 8 1 (\<lambda>w. w) 2 ?w"
  have "fst ?run = Ret None"
    by (simp add: numeral_2_eq_2 sample_world_def request_poll_def poll_normal_def register_waker_def request_drop_def
        bind_def query_def ret_def lift_def modify_def ffi_def)
  then have "?run = (Ret None, snd ?run)" by (simp add: prod_eq_iff)
  from abandoned_request_freed_once [OF _ _ this] have "frees 8 (snd ?run) = Suc (frees 8 ?w)" by simp
  then show ?thesis by (simp add: sample_world_def)
qed

text \<open>
  C40. Dropping a receive that is still pending does not cancel it: the library is told to forget the
  request, and nothing else. The receive stays posted on the buffer, whose borrow has ended.
\<close>

theorem dropped_receive_stays_posted:
  assumes "ucx_library E" "rc_get wk (workers w) = (Ret v, workers w)"
    and "call = Ucp_tag_recv_nb (w_handle v) (Bytes (as_ptr buf)) (slice_len buf) (ucp_dt_make_contig (binds E) 1) tag tag_mask"
    and "ptr = ptr_of (fst (ucx E call (lib w)))" "\<not> UCS_PTR_IS_ERR (binds E) ptr"
    and "keeps_request ptr (x_others X)" "reqs w ptr \<noteq> None" "\<forall>v. calls (x_others X v) = calls v"
    and "\<forall>i < x_polls X. fst (poll_tag E ptr ((park E ptr (x_task X) (x_others X) ^^ i) (after_call E call w))) = Ret Pending"
  shows "\<exists>w'. abandon_tag_recv E X wk tag tag_mask buf w = (Ret None, w')
    \<and> calls w' = calls w @ [call, Ucp_request_free ptr]"
proof -
  let ?u = "after_call E call w" and ?run = "abandon_tag_recv E X wk tag tag_mask buf w"
  have "worker_call E wk (\<lambda>h. Ucp_tag_recv_nb h (Bytes (as_ptr buf)) (slice_len buf) (ucp_dt_make_contig (binds E) 1) tag tag_mask) w
      = (Ret (fst (ucx E call (lib w))), ?u)"
    using assms(2,3) by (simp add: worker_call_def bind_def on_workers_def ffi_after)
  moreover have "from_ptr (prof E) (binds E) ptr = Ret (Ok ())"
    using assms(5) by (simp add: from_ptr_def)
  ultimately have run: "?run = abandon_request E (poll_tag E) ptr (x_task X) (x_others X) (x_polls X) ?u"
    using assms(4) by (simp add: abandon_tag_recv_def bind_def)
  also have dropped: "\<dots> = (Ret None, snd (request_drop E ptr ((park E ptr (x_task X) (x_others X) ^^ x_polls X) ?u)))"
    using assms(6,7,9) by (intro abandon_pending) (simp_all add: after_call_def)
  finally have fst_run: "?run = (Ret None, snd ?run)" by simp
  have "abandon_request E (poll_tag E) ptr (x_task X) (x_others X) (x_polls X) ?u = (Ret None, snd ?run)"
    using run fst_run by simp
  from abandon_calls [OF _ _ this, of "\<lambda>cs. cs"] assms(8) have "calls (snd ?run) = calls w @ [call, Ucp_request_free ptr]"
    by (simp add: after_call_def)
  with fst_run show ?thesis by blast
qed

theorem dropped_receive_stays_posted_witness:
  "calls (snd (abandon_tag_recv (lawful_env Debug) (quiet 2) 0 5 (- 1) \<lparr>as_ptr = 16, contents = [0]\<rparr>
     (mem demo_sys\<lparr>lib := [ok_reply\<lparr>ptr_of := 64\<rparr>, ok_reply\<lparr>status_of := UCS_INPROGRESS\<rparr>], reqs := [64 \<mapsto> None]\<rparr>)))
   = calls (mem demo_sys) @ [Ucp_tag_recv_nb 0 (Bytes 16) 1 8 5 (- 1), Ucp_request_free 64]"
proof -
  let ?E = "lawful_env Debug" and ?X = "quiet 2 :: (reply list, nat option, unit, unit) world executor"
  let ?buf = "\<lparr>as_ptr = 16, contents = [0 :: u8]\<rparr>"
  let ?w = "mem demo_sys\<lparr>lib := [ok_reply\<lparr>ptr_of := 64\<rparr>, ok_reply\<lparr>status_of := UCS_INPROGRESS\<rparr>], reqs := [64 \<mapsto> None]\<rparr>"
  let ?v = "\<lparr>w_handle = 0, w_context = 0, am_streams = []\<rparr>"
  let ?call = "Ucp_tag_recv_nb (w_handle ?v) (Bytes (as_ptr ?buf)) (slice_len ?buf) (ucp_dt_make_contig (binds ?E) 1) 5 (- 1)"
  have not_err: "\<not> UCS_PTR_IS_ERR ucx_abi 64"
    by (simp add: UCS_PTR_IS_ERR_def err_last_def)
  have worker: "rc_get 0 (workers ?w) = (Ret ?v, workers ?w)"
    by (simp add: demo_sys_eq rc_get_def)
  have ptr: "64 = ptr_of (fst (ucx ?E ?call (lib ?w)))"
    using not_err by (simp add: lawful_def)
  have lib: "lib ((park ?E 64 (x_task ?X) (x_others ?X) ^^ i) (after_call ?E ?call ?w)) = [ok_reply\<lparr>status_of := UCS_INPROGRESS\<rparr>]" for i
    by (induction i) (simp_all add: after_call_def park_def quiet_def)
  have pending: "\<forall>i < x_polls ?X. fst (poll_tag ?E 64 ((park ?E 64 (x_task ?X) (x_others ?X) ^^ i) (after_call ?E ?call ?w))) = Ret Pending"
    using lib by (simp add: poll_tag_def bind_def query_def ret_def lawful_def)
  have silent: "\<forall>v. calls (x_others ?X v) = calls v" and keeps: "keeps_request 64 (x_others ?X)"
    by (simp_all add: quiet_def keeps_request_def)
  from dropped_receive_stays_posted [OF lawful.ucx_library_axioms worker refl ptr _ keeps _ silent pending] not_err
  obtain w' where "abandon_tag_recv ?E ?X 0 5 (- 1) ?buf ?w = (Ret None, w')" "calls w' = calls ?w @ [?call, Ucp_request_free 64]"
    by auto
  then show ?thesis
    by (simp add: slice_len_def ucp_dt_make_contig_def)
qed

end
