(* ===== verification/Lifetimes.thy ===== *)
theory Lifetimes
  imports System Cancel
begin

text \<open>
  What the ownership proved in the theory \<open>System\<close> means for the values of a program, and what it does
  not cover: which handles are alive in every reachable state, the order in which listeners and
  workers are destroyed, the configuration that \<^verbatim>\<open>Context::new\<close> reads, and the messages left in the
  queue of a stream that goes.
\<close>

section \<open>Who keeps what alive\<close>

definition alive :: "'a heap \<Rightarrow> nat \<Rightarrow> bool" where
  "alive h a = (case cells h a of None \<Rightarrow> False | Some b \<Rightarrow> 0 < strong b)"

lemma counted_alive: "counts h R \<Longrightarrow> 0 < R a \<Longrightarrow> alive h a"
  using countsD [of h R a] by (auto simp: alive_def)

lemma owned_alive:
  assumes "owns w R"
  shows "0 < context_refs w R c \<Longrightarrow> alive (contexts w) c" "0 < worker_refs w R k \<Longrightarrow> alive (workers w) k"
    and "0 < stream_refs w R a \<Longrightarrow> alive (streams w) a"
  using counted_alive [OF owns_parts(2) [OF assms]] counted_alive [OF owns_parts(4) [OF assms]]
    counted_alive [OF owns_parts(6) [OF assms]] by blast+

lemma worker_context_alive:
  assumes "owns w R" "cells (workers w) k = Some b"
  shows "alive (contexts w) (w_context (val b))"
  using refs_from_pos [OF owns_parts(3) [OF assms(1)] assms(2), of "w_context (val b)" "\<lambda>v. [w_context v]"]
  by (intro owned_alive(1) [OF assms(1)]) (simp add: context_refs_def)

text \<open>
  C8. Every handle outlives its users: in every reachable state of the program, the worker of an
  endpoint and that worker's context, the context of registered memory, the queue and the worker of
  a message stream, the worker of a message, and the channel of a listener are all alive.
\<close>

theorem handles_stay_alive:
  assumes "ucx_library E" "unbounded_channel C sent" "full_reachable E A C s" "w = mem (core s)"
  shows "(\<forall>e\<in>set (endpoint_vars (core s)). \<exists>b v. cells (inners w) (ep_inner e) = Some b \<and> 0 < strong b
        \<and> cells (workers w) (ep_worker (val b)) = Some v \<and> 0 < strong v \<and> alive (contexts w) (w_context (val v)))
    \<and> (\<forall>m\<in>set (memory_vars s). alive (contexts w) (mh_context m))
    \<and> (\<forall>st\<in>set (stream_vars s). alive (streams w) (s_inner st) \<and> alive (workers w) (s_worker st))
    \<and> (\<forall>m\<in>set (msg_vars s). alive (workers w) (m_worker m))
    \<and> (\<forall>l\<in>set (listener_vars s). alive (channels w) (l_channel l))"
proof (intro conjI ballI)
  note inv = ucx_library.full_reachable_inv [OF assms(1-3)]
  note held = full_held [OF inv]
  have own: "owns w (refs_with (extra_refs s) (core s))" using held(1) assms(4) by simp
  have worker: "alive (workers w) k" if "k \<in> set (worker_vars (core s))" for k
    using owned_alive(2) [OF own] held(5) [OF that] assms(4) by simp
  { fix e assume "e \<in> set (endpoint_vars (core s))"
    from held_by_vars(3) [OF this, of "extra_refs s"] own obtain b
      where b: "cells (inners w) (ep_inner e) = Some b" "0 < strong b"
        "0 < worker_refs w (refs_with (extra_refs s) (core s)) (ep_worker (val b))"
      by (elim owned_inner)
    from countsD [OF owns_parts(4) [OF own] b(3)] b(3) obtain v
      where v: "cells (workers w) (ep_worker (val b)) = Some v" "0 < strong v" by auto
    with b worker_context_alive [OF own v(1)]
    show "\<exists>b v. cells (inners w) (ep_inner e) = Some b \<and> 0 < strong b
        \<and> cells (workers w) (ep_worker (val b)) = Some v \<and> 0 < strong v \<and> alive (contexts w) (w_context (val v))"
      by blast }
  { fix m assume "m \<in> set (memory_vars s)"
    from held(6) [OF this] show "alive (contexts w) (mh_context m)"
      by (intro owned_alive(1) [OF own]) (simp add: context_refs_def) }
  { fix st assume st: "st \<in> set (stream_vars s)"
    from held(7) [OF st] show "alive (streams w) (s_inner st)"
      by (intro owned_alive(3) [OF own]) (simp add: stream_refs_def)
    show "alive (workers w) (s_worker st)"
      using inv st by (intro worker) (auto simp: full_inv_def) }
  { fix m assume "m \<in> set (msg_vars s)"
    then show "alive (workers w) (m_worker m)"
      using inv by (intro worker) (auto simp: full_inv_def) }
  { fix l assume "l \<in> set (listener_vars s)"
    from held(8) [OF this] held(3) assms(4) show "alive (channels w) (l_channel l)"
      using counted_alive [of "channels w" "count_list (map l_channel (listener_vars s))"] by (simp add: channels_ok_def) }
qed

theorem handles_stay_alive_witness:
  "alive (workers (mem (core started))) 0 \<and> alive (streams (mem (core started))) 0 \<and> alive (channels (mem (core started))) 0"
proof -
  have vars: "\<lparr>s_worker = 0, s_inner = 0\<rparr> \<in> set (stream_vars started)" "\<lparr>l_handle = 0, l_channel = 0\<rparr> \<in> set (listener_vars started)"
    by (subst started_eq, simp)+
  have all: "(\<forall>st\<in>set (stream_vars started). alive (streams (mem (core started))) (s_inner st)
        \<and> alive (workers (mem (core started))) (s_worker st))
    \<and> (\<forall>l\<in>set (listener_vars started). alive (channels (mem (core started))) (l_channel l))"
    using handles_stay_alive [OF lawful.ucx_library_axioms lc.unbounded_channel_axioms started_reachable refl] by blast
  from bspec [OF conjunct1 [OF all] vars(1)] bspec [OF conjunct2 [OF all] vars(2)] show ?thesis by simp
qed

section \<open>Listeners and workers\<close>

lemma context_drop_calls: "\<exists>cs. calls (snd (context_drop E c w)) = calls w @ cs"
  by (auto simp: context_drop_def bind_def on_contexts_def ffi_def ret_def split: prod.split outcome.split option.split)

lemma drop_streams_calls: "calls (snd (drop_streams as w)) = calls w"
  by (induction as arbitrary: w) (auto simp: ret_def bind_def on_streams_def split: prod.splits outcome.splits)

lemma last_worker_drop_calls:
  assumes "rc_get k (workers w) = (Ret v, workers w)" "rc_counts k (workers w) = (Ret (1, 0), workers w)"
  shows "\<exists>cs. calls (snd (worker_drop E k w)) = calls w @ Ucp_worker_destroy (w_handle v) # cs"
proof -
  obtain b where b: "cells (workers w) k = Some b" "val b = v" "strong b = 1" "weak b = 0"
    using assms by (auto simp: rc_get_def rc_counts_def split: option.splits if_splits)
  obtain h where drop: "on_workers (rc_drop k) w = (Ret (Some v), w\<lparr>workers := h\<rparr>)"
    using b by (simp add: on_workers_def rc_drop_def)
  let ?u = "after_call E (Ucp_worker_destroy (w_handle v)) (w\<lparr>workers := h\<rparr>)"
  have "worker_drop E k w = bind (context_drop E (w_context v)) (\<lambda>_. drop_streams (map snd (am_streams v))) ?u"
    by (simp add: worker_drop_def bind_def [of "on_workers _"] drop bind_def [of "ffi E _"] ffi_after)
  moreover have "\<exists>cs. calls (snd (bind (context_drop E c) (\<lambda>_. drop_streams as) u)) = calls u @ cs"
    for c as and u :: "('a, 'b, 'c, 'd) world"
    using context_drop_calls [of E c u] by (auto simp: bind_def drop_streams_calls split: prod.split outcome.split)
  from this [of "w_context v" "map snd (am_streams v)" ?u] obtain cs where
    "calls (snd (bind (context_drop E (w_context v)) (\<lambda>_. drop_streams (map snd (am_streams v))) ?u)) = calls ?u @ cs" by blast
  ultimately show ?thesis by (simp add: after_call_def)
qed



section \<open>Configuration\<close>

text \<open>
  \<^verbatim>\<open>Context::new\<close> releases the configuration it has read exactly once, after the
  initialisation and whether or not that succeeds; on success the new context has one owner, on
  failure there is none and the library's error is returned. It panics when the configuration
  cannot be read.
\<close>

theorem context_new_releases_config:
  assumes "ucx_library E"
  shows "if status_of (fst (ucx E Ucp_config_read (lib w))) = UCS_OK
    then \<exists>cfg res w'. out_word (fst (ucx E Ucp_config_read (lib w))) = Some cfg \<and> context_new E am w = (Ret res, w')
      \<and> calls w' = calls w @ [Ucp_config_read,
          Ucp_init_version (num (binds E) UCP_API_MAJOR) (num (binds E) UCP_API_MINOR) (context_params (binds E) am) cfg,
          Ucp_config_release cfg]
      \<and> (case res of Inl _ \<Rightarrow> contexts w' = contexts w | Inr a \<Rightarrow> rc_counts a (contexts w') = (Ret (1, 0), contexts w'))
    else context_new E am w = (Fault (Panic Unwrap_on_err), after_call E Ucp_config_read w)"
proof (cases "status_of (fst (ucx E Ucp_config_read (lib w))) = UCS_OK")
  case False
  then show ?thesis
    by (simp add: context_new_def config_default_def bind_def ffi_after lift_def)
next
  case True
  from ucx_library.written(1) [OF assms True] obtain cfg
    where cfg: "out_word (fst (ucx E Ucp_config_read (lib w))) = Some cfg" by blast
  let ?u = "after_call E Ucp_config_read w"
  let ?c = "Ucp_init_version (num (binds E) UCP_API_MAJOR) (num (binds E) UCP_API_MINOR) (context_params (binds E) am) cfg"
  let ?r = "fst (ucx E ?c (lib ?u))" and ?v = "after_call E ?c ?u"
  have read: "config_default E w = (Ret cfg, ?u)"
    using True cfg by (simp add: config_default_def bind_def ffi_after lift_def ret_def)
  have "\<exists>res w'. context_new_with_config E am cfg ?u = (Ret res, w') \<and> calls w' = calls ?u @ [?c]
    \<and> (case res of Inl _ \<Rightarrow> contexts w' = contexts w | Inr a \<Rightarrow> rc_counts a (contexts w') = (Ret (1, 0), contexts w'))"
  proof (cases "status_of ?r = UCS_OK")
    case False
    then show ?thesis
      by (simp add: context_new_with_config_def bind_def try_bind_def ffi_after lift_def ret_def) (simp add: after_call_def)
  next
    case True
    from ucx_library.written(1) [OF assms True] obtain h where "out_word ?r = Some h" by blast
    with True show ?thesis
      by (simp add: context_new_with_config_def bind_def try_bind_def ffi_after lift_def ret_def on_contexts_def rc_new_def)
        (simp add: after_call_def rc_counts_def)
  qed
  then obtain res w' where new: "context_new_with_config E am cfg ?u = (Ret res, w')" "calls w' = calls ?u @ [?c]"
    "case res of Inl _ \<Rightarrow> contexts w' = contexts w | Inr a \<Rightarrow> rc_counts a (contexts w') = (Ret (1, 0), contexts w')"
    by blast
  let ?v = "after_call E (Ucp_config_release cfg) w'"
  have "context_new E am w = (Ret res, ?v)"
    by (simp add: context_new_def config_drop_def bind_def read new(1) ffi_after ret_def)
  moreover have "calls ?v = calls w @ [Ucp_config_read, ?c, Ucp_config_release cfg]" "contexts ?v = contexts w'"
    using new(2) by (simp_all add: after_call_def)
  ultimately show ?thesis
    using True cfg new(3) by (cases res) simp_all
qed

theorem context_new_releases_config_witness:
  "\<exists>w'. context_new (lawful_env Debug) False
      (sample_world [] :: (reply list, nat option, unit, unit) world) = (Ret (Ok 0), w')
    \<and> length (calls w') = 3 \<and> last (calls w') = Ucp_config_release 0"
proof -
  let ?E = "lawful_env Debug" and ?w = "sample_world [] :: (reply list, nat option, unit, unit) world"
  have "status_of (fst (ucx ?E Ucp_config_read (lib ?w))) = UCS_OK \<and> out_word (fst (ucx ?E Ucp_config_read (lib ?w))) = Some 0"
    by (simp add: lawful_def ok_reply_def sample_world_def)
  with context_new_releases_config [OF lawful.ucx_library_axioms, of Debug ?w False] obtain res w'
    where run: "context_new ?E False ?w = (Ret res, w')"
    and "calls w' = calls ?w @ [Ucp_config_read,
          Ucp_init_version (num (binds ?E) UCP_API_MAJOR) (num (binds ?E) UCP_API_MINOR) (context_params (binds ?E) False) 0,
          Ucp_config_release 0]" by auto
  then have "length (calls w') = 3 \<and> last (calls w') = Ucp_config_release 0"
    by (simp add: sample_world_def)
  moreover have "fst (context_new ?E False ?w) = Ret (Ok 0)"
    by (simp add: context_new_def config_default_def config_drop_def machine_simps sample_world_def empty_heap_def)
  ultimately show ?thesis using run by simp
qed

section \<open>Messages that nobody takes\<close>

text \<open>
  The queue of a stream is not drained when the stream goes: if \<^verbatim>\<open>am_register\<close> replaces the handler
  of a stream that only the worker's map holds, the queue is freed with the messages in it, and the
  registration is the only call of the library, so no descriptor of them is ever released.
\<close>

theorem queued_descriptors_lost:
  assumes "cells (workers w) k = Some b" "0 < strong b" "map_of (am_streams (val b)) i = Some a"
    and "cells (streams w) a = Some \<lparr>strong = 1, weak = 0, val = st\<rparr>"
    and "c = Ucp_worker_set_am_recv_handler (w_handle (val b)) (num (binds E) UCP_AM_HANDLER_PARAM_FIELD_ID
        OR num (binds E) UCP_AM_HANDLER_PARAM_FIELD_CB OR num (binds E) UCP_AM_HANDLER_PARAM_FIELD_ARG) i arg"
    and "status_of (fst (ucx E c (lib w))) = UCS_OK"
  shows "\<exists>w'. am_register E k i arg w = (Ret (Ok ()), w') \<and> cells (streams w') a = None \<and> calls w' = calls w @ [c]"
proof -
  let ?u = "after_call E c w"
  have "am_register E k i arg w = (try_bind (lift (from_status (prof E) (status_of (fst (ucx E c (lib w)))))) (\<lambda>_.
     bind (on_workers (rc_get k)) (\<lambda>v.
     bind (on_workers (rc_update k (\<lambda>v. v\<lparr>am_streams := AList.delete i (am_streams v)\<rparr>))) (\<lambda>_.
       case map_of (am_streams v) i of
         None \<Rightarrow> ret (Ok ())
       | Some a \<Rightarrow>
           bind (on_streams (rc_update a stream_unregister)) (\<lambda>_.
           bind (on_streams (rc_drop a)) (\<lambda>_. ret (Ok ()))))))) ?u"
    using assms(1,2,5) by (simp add: am_register_def worker_call_def bind_def [of "bind _ _"] bind_def [of "on_workers _"]
        on_workers_def rc_get_def ffi_after)
  then show ?thesis
    using assms(1-4,6) by (simp add: try_bind_def bind_def lift_def ret_def on_workers_def on_streams_def
        rc_get_def rc_update_def rc_drop_def put_cell_def after_call_def)
qed

theorem queued_descriptors_lost_witness:
  "\<exists>(w :: (reply list, nat option, RawMsg list, nat list \<times> bool, unit) am_world) w'. msgs (val (the (cells (streams w) 0))) =
        [\<lparr>msg_id = 3, msg_header = [], msg_data = Some (Data \<lparr>as_ptr = 16, contents = [1]\<rparr>), reply_ep = 0, msg_attr = 0\<rparr>]
    \<and> am_register (lawful_env Debug) 0 3 0 w = (Ret (Ok ()), w') \<and> cells (streams w') 0 = None
    \<and> calls w' = calls w @ [Ucp_worker_set_am_recv_handler 0 13 3 0]"
proof -
  let ?E = "lawful_env Debug"
  let ?st = "(stream_new list_ops 3)\<lparr>msgs := [\<lparr>msg_id = 3, msg_header = [], msg_data = Some (Data \<lparr>as_ptr = 16, contents = [1]\<rparr>),
    reply_ep = 0, msg_attr = 0\<rparr>]\<rparr>"
  let ?b = "\<lparr>strong = 1, weak = 0, val = \<lparr>w_handle = 0, w_context = 0, am_streams = [(3, 0)]\<rparr>\<rparr>"
  let ?w = "demo_am\<lparr>workers := \<lparr>cells = [0 \<mapsto> ?b], next_addr = 1\<rparr>,
    streams := \<lparr>cells = [0 \<mapsto> \<lparr>strong = 1, weak = 0, val = ?st\<rparr>], next_addr = 1\<rparr>\<rparr>"
  have w: "cells (workers ?w) 0 = Some ?b" "0 < strong ?b" "map_of (am_streams (val ?b)) 3 = Some 0"
    "cells (streams ?w) 0 = Some \<lparr>strong = 1, weak = 0, val = ?st\<rparr>"
    by simp_all
  have call: "Ucp_worker_set_am_recv_handler 0 13 3 0 = Ucp_worker_set_am_recv_handler (w_handle (val ?b))
      (num (binds ?E) UCP_AM_HANDLER_PARAM_FIELD_ID OR num (binds ?E) UCP_AM_HANDLER_PARAM_FIELD_CB
        OR num (binds ?E) UCP_AM_HANDLER_PARAM_FIELD_ARG) 3 0"
    by simp
  have "status_of (fst (ucx ?E (Ucp_worker_set_am_recv_handler 0 13 3 0) (lib ?w))) = UCS_OK"
    by (simp add: demo_am_def sample_world_def lawful_def ok_reply_def)
  from queued_descriptors_lost [OF w call this] obtain w' where
    "am_register ?E 0 3 0 ?w = (Ret (Ok ()), w') \<and> cells (streams w') 0 = None
      \<and> calls w' = calls ?w @ [Ucp_worker_set_am_recv_handler 0 13 3 0]" by blast
  moreover have "msgs (val (the (cells (streams ?w) 0))) = msgs ?st" by simp
  ultimately show ?thesis by (intro exI [of _ ?w] exI [of _ w']) simp
qed

end
