(* ===== verification/Futures.thy ===== *)
theory Futures
  imports Lifetimes
begin

text \<open>
  The data operations as futures of the machine: each operation of \<^verbatim>\<open>src/ucp/endpoint\<close> in two parts (up
  to its first suspension, and the polls of its request), any number of them pending at a time, and
  polled, dropped and interleaved with everything the machine of the theory \<open>System\<close> does.
\<close>

section \<open>Operations in steps\<close>

datatype data_op =
    Flush Endpoint
  | Stream_send Endpoint slice
  | Stream_recv Endpoint slice
  | Tag_send Endpoint u64 slice
  | Tag_send_vectored Endpoint u64 "slice list"
  | Put Endpoint slice u64 RKey
  | Get Endpoint slice u64 RKey
  | Am_send Endpoint u32 slice "slice list" bool "AmProto option"
  | Tag_recv nat u64 u64 slice
  | Tag_recv_vectored nat u64 "slice list"

text \<open>The program that runs an operation to its end; only its result is forgotten.\<close>

definition forget :: "('w, 'a) prog \<Rightarrow> ('w, unit) prog" where
  "forget m = bind m (\<lambda>_. ret ())"

fun run_op ::
  "('u, 'wk) env \<Rightarrow> ('u, 'wk, 's, 'c) world executor \<Rightarrow> data_op \<Rightarrow> (('u, 'wk, 's, 'c) world, unit) prog" where
  "run_op E X (Flush e) = forget (endpoint_flush E X e)"
| "run_op E X (Stream_send e buf) = forget (stream_send E X e buf)"
| "run_op E X (Stream_recv e buf) = forget (stream_recv E X e buf)"
| "run_op E X (Tag_send e tag buf) = forget (tag_send E X e tag buf)"
| "run_op E X (Tag_send_vectored e tag iov) = forget (tag_send_vectored E X e tag iov)"
| "run_op E X (Put e buf addr rkey) = forget (put E X e buf addr rkey)"
| "run_op E X (Get e buf addr rkey) = forget (get E X e buf addr rkey)"
| "run_op E X (Am_send e i header data wants_reply proto) =
     forget (am_send_vectorized E X e i header data wants_reply proto)"
| "run_op E X (Tag_recv k tag tag_mask buf) = forget (tag_recv_mask E X k tag tag_mask buf)"
| "run_op E X (Tag_recv_vectored k tag iov) = forget (tag_recv_vectored E X k tag iov)"

text \<open>
  Its parts: the call it makes on the handle of the endpoint or worker, the total it computes, what
  it does when the call completes at once or fails, and the test of its request.
\<close>

fun op_call :: "('u, 'wk) env \<Rightarrow> data_op \<Rightarrow> handle \<Rightarrow> ffi_call" where
  "op_call E (Flush e) h = Ucp_ep_flush_nb h"
| "op_call E (Stream_send e buf) h =
     Ucp_stream_send_nb h (Bytes (as_ptr buf)) (slice_len buf) (ucp_dt_make_contig (binds E) 1)"
| "op_call E (Stream_recv e buf) h =
     Ucp_stream_recv_nb h (Bytes (as_ptr buf)) (slice_len buf) (ucp_dt_make_contig (binds E) 1)"
| "op_call E (Tag_send e tag buf) h =
     Ucp_tag_send_nb h (Bytes (as_ptr buf)) (slice_len buf) (ucp_dt_make_contig (binds E) 1) tag"
| "op_call E (Tag_send_vectored e tag iov) h =
     Ucp_tag_send_nb h (Iovec iov) (word_of_nat (length iov)) (num (binds E) UCP_DATATYPE_IOV) tag"
| "op_call E (Put e buf addr rkey) h = Ucp_put_nb h (Bytes (as_ptr buf)) (slice_len buf) addr (rkey_handle rkey)"
| "op_call E (Get e buf addr rkey) h = Ucp_get_nb h (Bytes (as_ptr buf)) (slice_len buf) addr (rkey_handle rkey)"
| "op_call E (Am_send e i header data wants_reply proto) h =
     Ucp_am_send_nbx h i header (fst (am_buffer data)) (snd (am_buffer data)) (am_send_param (binds E) data wants_reply proto)"
| "op_call E (Tag_recv k tag tag_mask buf) h =
     Ucp_tag_recv_nb h (Bytes (as_ptr buf)) (slice_len buf) (ucp_dt_make_contig (binds E) 1) tag tag_mask"
| "op_call E (Tag_recv_vectored k tag iov) h =
     Ucp_tag_recv_nb h (Iovec iov) (word_of_nat (length iov)) (num (binds E) UCP_DATATYPE_IOV) tag (- 1)"

fun op_total :: "('u, 'wk) env \<Rightarrow> data_op \<Rightarrow> unit outcome" where
  "op_total E (Tag_send_vectored e tag iov) = bind_outcome (usize_sum (prof E) 0 (map slice_len iov)) (\<lambda>_. Ret ())"
| "op_total E _ = Ret ()"

fun op_at_once :: "data_op \<Rightarrow> reply \<Rightarrow> unit outcome" where
  "op_at_once (Stream_recv e buf) r = bind_outcome (assume_init (out_len r)) (\<lambda>_. Ret ())"
| "op_at_once _ r = Ret ()"

fun op_failed :: "data_op \<Rightarrow> (unit, Error) result \<Rightarrow> unit outcome" where
  "op_failed (Flush e) res = Ret ()"
| "op_failed (Put e buf addr rkey) res = Ret ()"
| "op_failed (Get e buf addr rkey) res = Ret ()"
| "op_failed _ res = bind_outcome (unwrap_err res) (\<lambda>_. Ret ())"

definition forget_poll ::
  "(handle \<Rightarrow> ('w, 'a poll) prog) \<Rightarrow> handle \<Rightarrow> ('w, unit poll) prog" where
  "forget_poll f ptr = bind (f ptr) (\<lambda>r. ret (case r of Ready _ \<Rightarrow> Ready () | Pending \<Rightarrow> Pending))"

fun op_test :: "('u, 'wk) env \<Rightarrow> data_op \<Rightarrow> handle \<Rightarrow> (('u, 'wk, 's, 'c) world, unit poll) prog" where
  "op_test E (Stream_recv e buf) = forget_poll (poll_stream E)"
| "op_test E (Tag_recv k tag tag_mask buf) = forget_poll (poll_tag E)"
| "op_test E (Tag_recv_vectored k tag iov) = forget_poll (poll_tag E)"
| "op_test E _ = forget_poll (poll_normal E)"

datatype op_owner = On_endpoint Endpoint | On_worker nat

fun op_user :: "data_op \<Rightarrow> op_owner" where
  "op_user (Flush e) = On_endpoint e"
| "op_user (Stream_send e buf) = On_endpoint e"
| "op_user (Stream_recv e buf) = On_endpoint e"
| "op_user (Tag_send e tag buf) = On_endpoint e"
| "op_user (Tag_send_vectored e tag iov) = On_endpoint e"
| "op_user (Put e buf addr rkey) = On_endpoint e"
| "op_user (Get e buf addr rkey) = On_endpoint e"
| "op_user (Am_send e i header data wants_reply proto) = On_endpoint e"
| "op_user (Tag_recv k tag tag_mask buf) = On_worker k"
| "op_user (Tag_recv_vectored k tag iov) = On_worker k"

text \<open>Up to the first suspension: the operation has ended, or it waits for a request.\<close>

datatype op_state = Ended | Waiting handle

definition op_start :: "('u, 'wk) env \<Rightarrow> data_op \<Rightarrow> (('u, 'wk, 's, 'c) world, op_state) prog" where
  "op_start E x = (case op_user x of
       On_endpoint e \<Rightarrow>
         bind (get_handle E e) (\<lambda>res. case res of
             Inl _ \<Rightarrow> ret Ended
           | Inr h \<Rightarrow>
               bind (ffi E (op_call E x h)) (\<lambda>r.
               bind (lift (op_total E x)) (\<lambda>_.
                 on_status_ptr E (ptr_of r)
                   (bind (lift (op_at_once x r)) (\<lambda>_. ret Ended))
                   (ret (Waiting (ptr_of r)))
                   (bind (lift (from_ptr (prof E) (binds E) (ptr_of r))) (\<lambda>res.
                    bind (lift (op_failed x res)) (\<lambda>_. ret Ended))))))
     | On_worker k \<Rightarrow>
         bind (worker_call E k (op_call E x)) (\<lambda>r.
         bind (lift (from_ptr (prof E) (binds E) (ptr_of r))) (\<lambda>res. case res of
             Inl _ \<Rightarrow> ret Ended
           | Inr _ \<Rightarrow> ret (Waiting (ptr_of r)))))"

definition op_rest ::
  "('u, 'wk) env \<Rightarrow> ('u, 'wk, 's, 'c) world executor \<Rightarrow> data_op \<Rightarrow> op_state \<Rightarrow> (('u, 'wk, 's, 'c) world, unit) prog" where
  "op_rest E X x s = (case s of
       Ended \<Rightarrow> ret ()
     | Waiting ptr \<Rightarrow> await_request E (op_test E x) ptr (x_task X) (x_others X) (x_polls X))"

lemma forget_bind: "forget (bind m f) = bind m (\<lambda>x. forget (f x))"
  by (simp add: forget_def bind_assoc)

lemma forget_ret: "forget (ret x) = ret ()"
  by (simp add: forget_def)

lemma forget_try_bind: "forget (try_bind m f) = bind m (\<lambda>res. case res of Inl _ \<Rightarrow> ret () | Inr x \<Rightarrow> forget (f x))"
  unfolding try_bind_def forget_bind
  by (rule arg_cong [where f = "bind m"]) (auto simp: forget_ret split: sum.split)

lemma forget_on_status_ptr:
  "forget (on_status_ptr E ptr a b c) = on_status_ptr E ptr (forget a) (forget b) (forget c)"
  by (simp add: forget_def bind_on_status_ptr)

lemma bind_lift_outcome: "bind (lift (bind_outcome m f)) g = bind (lift m) (\<lambda>x. bind (lift (f x)) g)"
  by (cases m) (simp_all add: bind_def lift_def fun_eq_iff)

lemma forget_await: "forget (await_request E f ptr t others n) = await_request E (forget_poll f) ptr t others n"
proof (induction n)
  case 0
  then show ?case by (simp add: forget_def bind_def lift_def fun_eq_iff)
next
  case (Suc n)
  have poll: "request_poll E (forget_poll f) ptr t =
      bind (request_poll E f ptr t) (\<lambda>r. ret (case r of Ready _ \<Rightarrow> Ready () | Pending \<Rightarrow> Pending))"
    unfolding request_poll_def forget_poll_def bind_assoc
    by (rule arg_cong [where f = "bind (f ptr)"]) (auto simp: bind_assoc split: poll.split)
  show ?case
    unfolding await_request.simps forget_bind poll bind_assoc
    by (rule arg_cong [where f = "bind (request_poll E f ptr t)"])
      (auto simp: forget_bind forget_ret Suc.IH split: poll.split)
qed

lemmas forget_simps = forget_bind forget_ret forget_try_bind forget_on_status_ptr forget_await await_ptr_def

lemma forget_lift: "forget (lift m) = bind (lift m) (\<lambda>_. ret ())"
  by (simp add: forget_def)

lemma case_sum_ret: "(case res of Inl _ \<Rightarrow> ret () | Inr x \<Rightarrow> ret x) = ret ()"
  by (cases res) simp_all

lemma bind_await: "bind (await_request E f ptr t others n) (\<lambda>_. ret ()) = await_request E (forget_poll f) ptr t others n"
  using forget_await by (simp add: forget_def)

lemma op_call_recv:
  "op_call E (Tag_recv k tag tag_mask buf) =
     (\<lambda>h. Ucp_tag_recv_nb h (Bytes (as_ptr buf)) (slice_len buf) (ucp_dt_make_contig (binds E) 1) tag tag_mask)"
  "op_call E (Tag_recv_vectored k tag iov) =
     (\<lambda>h. Ucp_tag_recv_nb h (Iovec iov) (word_of_nat (length iov)) (num (binds E) UCP_DATATYPE_IOV) tag (- 1))"
  by (rule ext, simp)+

lemma op_steps: "run_op E X x = bind (op_start E x) (op_rest E X x)"
  by (cases x)
    (simp_all add: op_start_def op_rest_def forget_simps bind_on_status_ptr bind_assoc bind_lift_outcome bind_case_sum
     endpoint_flush_def stream_send_def stream_recv_def put_def get_def tag_send_def tag_send_vectored_def
     am_send_vectorized_def am_send_raw_def tag_recv_mask_def tag_recv_vectored_def ptr_error_def forget_lift
     case_sum_ret bind_await op_call_recv case_prod_beta cong: sum.case_cong)

section \<open>The machine with futures\<close>

text \<open>
  The machine of the theory \<open>System\<close> with the futures of data operations that are under way, and two
  ghost lists: the requests that the program has obtained from the library, and those of closing
  futures that were dropped while they waited.
\<close>

record ('u, 'wk, 'q, 'n, 'c) live =
  base :: "('u, 'wk, 'q, 'n, 'c) full"
  futures :: "(data_op \<times> handle) list"
  obtained :: "handle list"
  lost :: "handle list"

datatype live_action =
    System full_action
  | Start data_op
  | Poll nat data_op handle
  | Drop_future data_op handle
  | Init_request handle
  | Cleanup_request handle

abbreviation world_of :: "('u, 'wk, 'q, 'n, 'c) live \<Rightarrow> ('u, 'wk, 'q, 'n, 'c) full_world" where
  "world_of s \<equiv> mem (core (base s))"

definition in_base ::
  "(('u, 'wk, 'q, 'n, 'c) full, 'a) prog \<Rightarrow> (('u, 'wk, 'q, 'n, 'c) live, 'a) prog" where
  "in_base m s = (case m (base s) of (r, f) \<Rightarrow> (r, s\<lparr>base := f\<rparr>))"

text \<open>A step of \<^verbatim>\<open>close\<close> that leaves one more closing future has obtained its request.\<close>

definition new_requests :: "(Endpoint \<times> handle) list \<Rightarrow> (Endpoint \<times> handle) list \<Rightarrow> handle list" where
  "new_requests cs cs' = (if length cs < length cs' then [snd (hd cs')] else [])"

definition note_requests ::
  "full_action \<Rightarrow> (Endpoint \<times> handle) list \<Rightarrow> (('u, 'wk, 'q, 'n, 'c) live, unit) prog" where
  "note_requests act cs = modify (\<lambda>s. s\<lparr>obtained := new_requests cs (closers (core (base s))) @ obtained s,
     lost := (case act of Core (Cancel_close e p) \<Rightarrow> p # lost s | _ \<Rightarrow> lost s)\<rparr>)"

fun live_exec ::
  "('u, 'wk) env \<Rightarrow> ('q, 'n) am_ops \<Rightarrow> 'c channel_ops \<Rightarrow> live_action \<Rightarrow> (('u, 'wk, 'q, 'n, 'c) live, unit) prog" where
  "live_exec E A C (System act) =
     (\<lambda>s. bind (in_base (full_exec E A C act)) (\<lambda>_. note_requests act (closers (core (base s)))) s)"
| "live_exec E A C (Start x) =
     bind (in_base (in_world (op_start E x))) (\<lambda>r. modify (\<lambda>s. case r of
         Ended \<Rightarrow> s
       | Waiting p \<Rightarrow> s\<lparr>futures := (x, p) # futures s, obtained := p # obtained s\<rparr>))"
| "live_exec E A C (Poll t x p) =
     bind (in_base (in_world (request_poll E (op_test E x) p t))) (\<lambda>r. case r of
         Pending \<Rightarrow> ret ()
       | Ready _ \<Rightarrow> bind (in_base (in_world (request_drop E p))) (\<lambda>_.
           modify (\<lambda>s. s\<lparr>futures := remove1 (x, p) (futures s)\<rparr>)))"
| "live_exec E A C (Drop_future x p) =
     bind (in_base (in_world (request_drop E p))) (\<lambda>_.
       modify (\<lambda>s. s\<lparr>futures := remove1 (x, p) (futures s)\<rparr>))"
| "live_exec E A C (Init_request p) = in_base (in_world (request_init E p))"
| "live_exec E A C (Cleanup_request p) = in_base (in_world (request_cleanup p))"

text \<open>
  What the library answers to the call of an operation, and what is relied on: a request that it hands
  out has been initialised, a receive by tag is never complete at once, and whenever a stream receive
  is complete its length has been written.
\<close>

definition answer :: "('u, 'wk) env \<Rightarrow> data_op \<Rightarrow> ('u, 'wk, 's, 'c) world \<Rightarrow> reply" where
  "answer E x w = fst (ucx E (op_call E x (case op_user x of
       On_endpoint e \<Rightarrow> ep_handle e
     | On_worker k \<Rightarrow> (case cells (workers w) k of None \<Rightarrow> 0 | Some b \<Rightarrow> w_handle (val b)))) (lib w))"

definition good_answer :: "('u, 'wk) env \<Rightarrow> data_op \<Rightarrow> ('u, 'wk, 's, 'c) world \<Rightarrow> bool" where
  "good_answer E x w = (let r = answer E x w in
     if ptr_of r = 0 then op_at_once x r = Ret () \<and> (case op_user x of On_endpoint _ \<Rightarrow> True | On_worker _ \<Rightarrow> False)
     else UCS_PTR_IS_ERR (binds E) (ptr_of r) \<or> reqs w (ptr_of r) \<noteq> None)"

definition good_test :: "('u, 'wk) env \<Rightarrow> data_op \<Rightarrow> handle \<Rightarrow> ('u, 'wk, 's, 'c) world \<Rightarrow> bool" where
  "good_test E x p w = (case x of
       Stream_recv e buf \<Rightarrow> (let r = fst (ucx E (Ucp_stream_recv_request_test p) (lib w)) in
         status_of r = UCS_INPROGRESS \<or> out_len r \<noteq> None)
     | _ \<Rightarrow> True)"

text \<open>
  An operation borrows its endpoint or worker as long as its future lives. The lengths of buffers that
  exist together do not overflow. The library initialises the memory of a request before it hands the
  request out, and cleans it up only when no future has it any more.
\<close>

definition borrowed :: "op_owner \<Rightarrow> ('u, 'wk, 'q, 'n, 'c) live \<Rightarrow> bool" where
  "borrowed u s \<longleftrightarrow> u \<in> op_user ` fst ` set (futures s)"

definition user_var :: "op_owner \<Rightarrow> ('u, 'wk, 'q, 'n, 'c) full \<Rightarrow> bool" where
  "user_var u f = (case u of
       On_endpoint e \<Rightarrow> e \<in> set (endpoint_vars (core f))
     | On_worker k \<Rightarrow> k \<in> set (worker_vars (core f)))"

fun live_enabled :: "('u, 'wk) env \<Rightarrow> live_action \<Rightarrow> ('u, 'wk, 'q, 'n, 'c) live \<Rightarrow> bool" where
  "live_enabled E (System act) s = (full_enabled E act (base s)
     \<and> (\<forall>e. act = Core (Drop_endpoint e) \<longrightarrow> borrowed (On_endpoint e) s \<longrightarrow>
          e \<in> set (remove1 e (endpoint_vars (core (base s)))))
     \<and> (\<forall>k. act = Core (Drop_worker k) \<longrightarrow> borrowed (On_worker k) s \<longrightarrow>
          k \<in> set (remove1 k (worker_vars (core (base s))))))"
| "live_enabled E (Start x) s = (user_var (op_user x) (base s) \<and> op_total E x = Ret () \<and> good_answer E x (world_of s))"
| "live_enabled E (Poll t x p) s = ((x, p) \<in> set (futures s) \<and> good_test E x p (world_of s))"
| "live_enabled E (Drop_future x p) s = ((x, p) \<in> set (futures s))"
| "live_enabled E (Init_request p) s = (reqs (world_of s) p = None)"
| "live_enabled E (Cleanup_request p) s = (reqs (world_of s) p \<noteq> None \<and> p \<notin> snd ` set (futures s))"

definition empty_live :: "'u \<Rightarrow> ('u, 'wk, 'q, 'n, 'c) live" where
  "empty_live u = \<lparr>base = empty_full u, futures = [], obtained = [], lost = []\<rparr>"

inductive live_reachable ::
  "('u, 'wk) env \<Rightarrow> ('q, 'n) am_ops \<Rightarrow> 'c channel_ops \<Rightarrow> ('u, 'wk, 'q, 'n, 'c) live \<Rightarrow> bool" for E A C where
  live_start: "live_reachable E A C (empty_live u)"
| live_step: "live_reachable E A C s \<Longrightarrow> live_enabled E act s \<Longrightarrow> live_exec E A C act s = (Ret (), s') \<Longrightarrow>
    live_reachable E A C s'"

section \<open>What the steps keep\<close>

lemma does_in_base [simp]: "does (in_base m) s Q \<longleftrightarrow> does m (base s) (\<lambda>x f. Q x (s\<lparr>base := f\<rparr>))"
  by (auto simp: does_def in_base_def split: prod.splits)

lemma context_drop_frees: "frees p (snd (context_drop E c w)) = frees p w"
  by (auto simp: context_drop_def bind_def on_contexts_def ffi_def ret_def split: prod.split outcome.split option.split)

lemma worker_drop_frees:
  fixes E :: "('u, 'wk) env" and w :: "('u, 'wk, 's, 'c) world"
  shows "frees p (snd (worker_drop E k w)) = frees p w"
proof -
  have "frees p (snd (bind (context_drop E c) (\<lambda>_. drop_streams as) u)) = frees p u" for c as and u :: "('u, 'wk, 's, 'c) world"
    using context_drop_frees [of E c u p]
    by (auto simp: bind_def drop_streams_calls split: prod.split outcome.split)
  then show ?thesis
    by (auto simp: worker_drop_def bind_def [of "on_workers _"] bind_def [of "ffi E _"] on_workers_def ffi_def ret_def
        split: prod.splits outcome.splits option.splits)
qed

interpretation freed: full_frame E "\<lambda>w :: ('u, 'wk, 'q, 'n, 'c) full_world. frees p w = n"
  for E :: "('u, 'wk) env" and p n
  by unfold_locales (auto simp: keeps_def snd_on context_drop_frees worker_drop_frees plain_call_def)

lemma drop_streams_reqs: "reqs (snd (drop_streams as w)) = reqs w"
  by (induction as arbitrary: w) (auto simp: ret_def bind_def on_streams_def split: prod.splits outcome.splits)

lemma context_drop_reqs: "reqs (snd (context_drop E c w)) = reqs w"
  by (auto simp: context_drop_def bind_def on_contexts_def ffi_def ret_def split: prod.split outcome.split option.split)

lemma worker_drop_reqs:
  fixes E :: "('u, 'wk) env" and w :: "('u, 'wk, 's, 'c) world"
  shows "reqs (snd (worker_drop E k w)) = reqs w"
proof -
  have "reqs (snd (bind (context_drop E c) (\<lambda>_. drop_streams as) u)) = reqs u" for c as and u :: "('u, 'wk, 's, 'c) world"
    using context_drop_reqs [of E c u]
    by (auto simp: bind_def drop_streams_reqs split: prod.split outcome.split)
  then show ?thesis
    by (auto simp: worker_drop_def bind_def [of "on_workers _"] bind_def [of "ffi E _"] on_workers_def ffi_def ret_def
        split: prod.splits outcome.splits option.splits)
qed

interpretation initialised: full_freeing_frame E "\<lambda>w :: ('u, 'wk, 'q, 'n, 'c) full_world. reqs w p \<noteq> None"
  for E :: "('u, 'wk) env" and p
  by unfold_locales (auto simp: keeps_def snd_on context_drop_reqs worker_drop_reqs)

section \<open>Variables and requests across a step\<close>

lemma core_endpoint_vars:
  "exec E act s = (Ret (), s') \<Longrightarrow>
   (case act of Drop_endpoint e \<Rightarrow> set (remove1 e (endpoint_vars s)) | _ \<Rightarrow> set (endpoint_vars s)) \<subseteq> set (endpoint_vars s')"
  by (cases act) (auto simp: bind_def in_mem_def modify_def note_close_def
      split: prod.splits outcome.splits sum.splits close_state.splits)

lemma other_vars:
  assumes "full_exec E A C act f = (Ret (), f')" "\<And>a. act \<noteq> Core a"
  shows "endpoint_vars (core f') = endpoint_vars (core f) \<and> worker_vars (core f') = worker_vars (core f)
    \<and> closers (core f') = closers (core f)"
  using assms by (cases act) (auto simp: bind_def in_world_def modify_def ret_def
      split: prod.splits outcome.splits sum.splits option.splits)

lemma user_var_step:
  assumes "full_exec E A C act f = (Ret (), f')" "user_var u f"
    and "\<And>e. u = On_endpoint e \<Longrightarrow> act = Core (Drop_endpoint e) \<Longrightarrow> e \<in> set (remove1 e (endpoint_vars (core f)))"
    and "\<And>k. u = On_worker k \<Longrightarrow> act = Core (Drop_worker k) \<Longrightarrow> k \<in> set (remove1 k (worker_vars (core f)))"
  shows "user_var u f'"
proof (cases "\<exists>a. act = Core a")
  case True
  then obtain a where act: "act = Core a" by blast
  obtain c where run: "exec E a (core f) = (Ret (), c)" "core f' = c"
    using assms(1) act by (auto simp: in_core_def split: prod.splits)
  show ?thesis
  proof (cases u)
    case (On_endpoint e)
    then show ?thesis
      using core_endpoint_vars [OF run(1)] run(2) assms(2,3) act
      by (cases "a = Drop_endpoint e"; cases a) (auto simp: user_var_def)
  next
    case (On_worker k)
    then show ?thesis
      using core_worker_vars [OF run(1)] run(2) assms(2,4) act
      by (cases "a = Drop_worker k"; cases a) (auto simp: user_var_def)
  qed
next
  case False
  with other_vars [OF assms(1)] assms(2) show ?thesis
    by (auto simp: user_var_def split: op_owner.splits)
qed

lemma inner_closed_calls: "inner_closed a w = (r, w') \<Longrightarrow> calls w' = calls w"
  by (auto simp: inner_closed_def inner_set_status_def bind_def on_inners_def ret_def
      split: prod.splits outcome.splits if_splits)

lemma close_round_calls:
  assumes "close_round E e ptr w = (Ret s, w')"
  shows "case s of Finished _ \<Rightarrow> calls w' = calls w @ [Ucp_request_free ptr] | Closing q \<Rightarrow> q = ptr \<and> calls w' = calls w"
  using assms
  by (auto simp: close_round_def poll_normal_def request_drop_def bind_def query_def ffi_def ret_def lift_def
      split: prod.splits outcome.splits sum.splits poll.splits if_splits dest!: inner_closed_calls)

lemma count_snd_remove1: "(e, q) \<in> set cs \<Longrightarrow>
  count_list (map snd (remove1 (e, q) cs)) p + count_list [q] p = count_list (map snd cs) p"
  by (induction cs) auto

text \<open>Requests in the hands of closing futures: obtained, freed, or lost.\<close>

lemma core_requests:
  fixes c :: "('u, 'wk, ('q, 'n) AmStreamInner, 'c) sys"
  assumes "exec E act c = (Ret (), c')" "enabled act c"
  shows "frees p (mem c') + count_list (map snd (closers c')) p
      + count_list (case act of Cancel_close e q \<Rightarrow> [q] | _ \<Rightarrow> []) p
    = frees p (mem c) + count_list (map snd (closers c)) p + count_list (new_requests (closers c) (closers c')) p"
proof (cases "\<exists>e q. act = Poll_close e q")
  case True
  then obtain e q where act: "act = Poll_close e q" by blast
  then have q: "(e, q) \<in> set (closers c)" using assms(2) by simp
  obtain s w' where run: "close_round E e q (mem c) = (Ret s, w')"
    and c': "mem c' = w'" "closers c' = (case s of Finished _ \<Rightarrow> remove1 (e, q) (closers c)
       | Closing r \<Rightarrow> (e, r) # remove1 (e, q) (closers c))"
    using assms(1) act by (auto simp: bind_def in_mem_def modify_def note_close_def
        split: prod.splits outcome.splits close_state.splits)
  have len: "length (remove1 (e, q) (closers c)) < length (closers c)"
    using length_pos_if_in_set [OF q] q by (simp add: length_remove1)
  show ?thesis
    using close_round_calls [OF run] c' count_snd_remove1 [OF q, of p] len act
    by (cases s) (auto simp: new_requests_def)
next
  case False
  then have "keeps (\<lambda>s :: ('u, 'wk, ('q, 'n) AmStreamInner, 'c) sys. frees p (mem s) = frees p (mem c)) (exec E act)"
    by (intro freed.exec_kept) auto
  from keepsD [OF this, of c] assms(1) have kept: "frees p (mem c') = frees p (mem c)" by simp
  show ?thesis
  proof (cases act)
    case (Cancel_close e q)
    then have q: "(e, q) \<in> set (closers c)" and c': "closers c' = remove1 (e, q) (closers c)"
      using assms by (auto simp: modify_def)
    show ?thesis
      using kept count_snd_remove1 [OF q, of p] c' Cancel_close by (auto simp: new_requests_def length_remove1)
  next
    case (Close e force)
    then show ?thesis
      using kept assms(1) by (auto simp: new_requests_def bind_def in_mem_def modify_def note_close_def
        split: prod.splits outcome.splits close_state.splits)
  qed (use kept assms(1) False in \<open>auto simp: new_requests_def bind_def in_mem_def modify_def
      split: prod.splits outcome.splits sum.splits\<close>)
qed

lemma full_requests:
  assumes "full_exec E A C act f = (Ret (), f')" "full_enabled E act f"
  shows "frees p (mem (core f')) + count_list (map snd (closers (core f'))) p
      + count_list (case act of Core (Cancel_close e q) \<Rightarrow> [q] | _ \<Rightarrow> []) p
    = frees p (mem (core f)) + count_list (map snd (closers (core f))) p
      + count_list (new_requests (closers (core f)) (closers (core f'))) p"
proof (cases "\<exists>a. act = Core a")
  case True
  then obtain a where act: "act = Core a" by blast
  obtain c where "exec E a (core f) = (Ret (), c)" "core f' = c" "enabled a (core f)"
    using assms act by (auto simp: in_core_def split: prod.splits)
  from core_requests [OF this(1,3), of p] this(2) act show ?thesis
    by (cases a) simp_all
next
  case False
  then have "keeps (\<lambda>s. frees p (mem (core s)) = frees p (mem (core f))) (full_exec E A C act)"
    by (intro freed.full_exec_kept) auto
  from keepsD [OF this, of f] assms(1) have "frees p (mem (core f')) = frees p (mem (core f))" by simp
  moreover have "closers (core f') = closers (core f)" using other_vars [OF assms(1)] False by blast
  ultimately show ?thesis
    using False by (cases act) (auto simp: new_requests_def)
qed

definition live_inv :: "('u, 'wk, 'q, 'n, 'c) live \<Rightarrow> bool" where
  "live_inv s \<longleftrightarrow> full_inv (base s)
     \<and> (\<forall>(x, p)\<in>set (futures s). reqs (world_of s) p \<noteq> None \<and> user_var (op_user x) (base s))
     \<and> (\<forall>p. count_list (obtained s) p = frees p (world_of s) + count_list (map snd (futures s)) p
          + count_list (map snd (closers (core (base s)))) p + count_list (lost s) p)"

lemma live_world:
  assumes "live_inv s" "full_inv (base s \<lparr>core := (core (base s))\<lparr>mem := w\<rparr>\<rparr>)"
    and "\<And>x p. (x, p) \<in> set (futures s) \<Longrightarrow> reqs (world_of s) p \<noteq> None \<Longrightarrow> reqs w p \<noteq> None" "\<And>p. frees p w = frees p (world_of s)"
  shows "live_inv (s\<lparr>base := base s\<lparr>core := (core (base s))\<lparr>mem := w\<rparr>\<rparr>\<rparr>)"
  using assms by (fastforce simp: live_inv_def user_var_def split: op_owner.splits)

context ucx_library
begin

lemma live_system:
  fixes s :: "('u, 'wk, 'q, 'n, 'c) live"
  assumes "unbounded_channel C sent" "live_inv s" "live_enabled E (System act) s"
  shows "(\<exists>s'. live_exec E A C (System act) s = (Ret (), s') \<and> live_inv s')
    \<or> ((\<exists>c region. act = Register_memory c region) \<or> (\<exists>m. act = Pack_memory m))
        \<and> (\<exists>s'. live_exec E A C (System act) s = (Fault (Panic Assertion_failed), s'))"
proof -
  have inv: "full_inv (base s)" and on: "full_enabled E act (base s)"
    using assms(2,3) by (simp_all add: live_inv_def)
  from full_exec_inv [OF assms(1) this, of A] show ?thesis
  proof (elim disjE conjE exE)
    fix f assume run: "full_exec E A C act (base s) = (Ret (), f)" and f: "full_inv f"
    define s' where "s' = s\<lparr>base := f, obtained := new_requests (closers (core (base s))) (closers (core f)) @ obtained s,
      lost := (case act of Core (Cancel_close e p) \<Rightarrow> p # lost s | _ \<Rightarrow> lost s)\<rparr>"
    then have exec: "live_exec E A C (System act) s = (Ret (), s')"
      by (simp add: bind_def in_base_def run note_requests_def modify_def split: full_action.split action.split)
    have s': "base s' = f" "futures s' = futures s"
        "obtained s' = new_requests (closers (core (base s))) (closers (core f)) @ obtained s"
        "lost s' = (case act of Core (Cancel_close e q) \<Rightarrow> [q] | _ \<Rightarrow> []) @ lost s"
      by (simp_all add: s'_def split: full_action.split action.split)
    have "reqs (mem (core f)) p \<noteq> None \<and> user_var (op_user x) f" if "(x, p) \<in> set (futures s)" for x p
    proof
      have x: "reqs (world_of s) p \<noteq> None" "user_var (op_user x) (base s)"
        using assms(2) that by (auto simp: live_inv_def)
      show "reqs (mem (core f)) p \<noteq> None"
        using keepsD [OF initialised.every_full_exec_kept [of p E A C act], of "base s"] x(1) run by simp
      have "borrowed (op_user x) s" using that by (force simp: borrowed_def)
      then show "user_var (op_user x) f"
        using assms(3) by (intro user_var_step [OF run x(2)]) auto
    qed
    moreover have "count_list (obtained s') p = frees p (world_of s') + count_list (map snd (futures s')) p
        + count_list (map snd (closers (core (base s')))) p + count_list (lost s') p" for p
      using full_requests [OF run on, of p] assms(2) unfolding live_inv_def s'(1-4) by simp
    ultimately have "live_inv s'"
      using f s'(1,2) by (auto simp: live_inv_def)
    with exec show ?thesis by blast
  next
    fix f assume "full_exec E A C act (base s) = (Fault (Panic Assertion_failed), f)"
    then have "\<exists>s'. live_exec E A C (System act) s = (Fault (Panic Assertion_failed), s')"
      by (simp add: bind_def in_base_def)
    then show "act = Register_memory c region \<Longrightarrow> ?thesis" "act = Pack_memory m \<Longrightarrow> ?thesis" for c region m
      by blast+
  qed
qed

end

lemma forget_poll_test: "lib_test (f p) \<Longrightarrow> lib_test (forget_poll f p)"
  by (simp add: forget_poll_def)

lemma op_tests: "lib_test (op_test E x p)"
  by (cases x) (simp_all add: forget_poll_test)

lemma get_handle_cases:
  assumes "owns w R" "0 < r_endpoints R (ep_inner e)"
  obtains (open_) "get_handle E e w = (Ret (Ok (ep_handle e)), w)" | (broken) err where "get_handle E e w = (Ret (Err err), w)"
proof -
  from assms obtain b where b: "cells (inners w) (ep_inner e) = Some b" "0 < strong b" by (rule owned_inner) (rule that)
  show thesis
    using open_ broken inner_reads(2) [OF b, of E]
    by (cases "ep_status (val b) = UCS_OK") (simp_all add: get_handle_def try_bind_def bind_def ret_def)
qed

context ucx_library
begin

text \<open>What becomes of the pointer that the call of an operation has returned.\<close>

lemma returned_settles:
  assumes "r = fst (ucx E c u)"
    and "if ptr_of r = 0 then op_at_once x r = Ret () else UCS_PTR_IS_ERR (binds E) (ptr_of r) \<or> reqs w (ptr_of r) \<noteq> None"
  shows "\<exists>z. on_status_ptr E (ptr_of r) (bind (lift (op_at_once x r)) (\<lambda>_. ret Ended)) (ret (Waiting (ptr_of r)))
      (bind (lift (from_ptr (prof E) (binds E) (ptr_of r))) (\<lambda>res. bind (lift (op_failed x res)) (\<lambda>_. ret Ended))) v = (Ret z, v)
    \<and> (\<forall>p. z = Waiting p \<longrightarrow> reqs w p \<noteq> None)"
proof -
  have "op_failed x (Err err) = Ret ()" for err by (cases x) simp_all
  then show ?thesis
    using assms(2) trichotomy [of "ptr_of r" "prof E"] from_returned [of "prof E" c u]
    by (auto simp: assms(1) on_status_ptr_def bind_def lift_def ret_def split: if_splits)
qed

text \<open>An operation up to its first suspension makes at most its one call, and changes nothing else.\<close>

lemma op_start_safe:
  fixes w :: "('u, 'wk, 's, 'c) world"
  assumes own: "owns w R"
    and held: "case op_user x of On_endpoint e \<Rightarrow> 0 < r_endpoints R (ep_inner e) | On_worker k \<Rightarrow> 0 < worker_refs w R k"
    and good: "op_total E x = Ret ()" "good_answer E x w"
  shows "\<exists>r w'. op_start E x w = (Ret r, w') \<and> (w' = w \<or> (\<exists>h. w' = after_call E (op_call E x h) w))
    \<and> (\<forall>p. r = Waiting p \<longrightarrow> reqs w p \<noteq> None)"
proof (cases "op_user x")
  case (On_endpoint e)
  let ?u = "after_call E (op_call E x (ep_handle e)) w" and ?r = "fst (ucx E (op_call E x (ep_handle e)) (lib w))"
  have "0 < r_endpoints R (ep_inner e)" using held On_endpoint by simp
  with own show ?thesis
  proof (cases rule: get_handle_cases [where E = E])
    case open_
    have "answer E x w = ?r" using On_endpoint by (simp add: answer_def)
    then have "if ptr_of ?r = 0 then op_at_once x ?r = Ret () else UCS_PTR_IS_ERR (binds E) (ptr_of ?r) \<or> reqs w (ptr_of ?r) \<noteq> None"
      using good(2) by (simp add: good_answer_def Let_def split: if_splits)
    from returned_settles [OF refl this, of ?u] show ?thesis
      using On_endpoint good(1)
      by (auto simp: op_start_def bind_def [of "get_handle E e"] open_ bind_def [of "ffi E _"] ffi_after)
  next
    case (broken err)
    then show ?thesis using On_endpoint by (simp add: op_start_def bind_def ret_def)
  qed
next
  case (On_worker k)
  with held have "0 < worker_refs w R k" by simp
  with countsD [OF owns_parts(4) [OF own] this] obtain b
    where b: "cells (workers w) k = Some b" "0 < strong b" by auto
  let ?h = "w_handle (val b)"
  let ?r = "fst (ucx E (op_call E x ?h) (lib w))" and ?u = "after_call E (op_call E x ?h) w"
  have call: "worker_call E k (op_call E x) w = (Ret ?r, ?u)"
    using b by (simp add: worker_call_def bind_def on_workers_def rc_on_cell ffi_after)
  have answer: "answer E x w = ?r" using On_worker b by (simp add: answer_def)
  have run: "op_start E x w = bind (lift (from_ptr (prof E) (binds E) (ptr_of ?r))) (\<lambda>res. case res of
      Inl _ \<Rightarrow> ret Ended | Inr _ \<Rightarrow> ret (Waiting (ptr_of ?r))) ?u"
    using On_worker by (simp add: op_start_def bind_def [of "worker_call E k _"] call)
  show ?thesis
    unfolding run using good(2) from_returned [of "prof E" "op_call E x ?h" "lib w"] On_worker
    by (auto simp: good_answer_def Let_def answer bind_def lift_def ret_def split: if_splits)
qed

text \<open>A poll tests the request, and registers its waker when it is pending.\<close>

lemma op_test_returns:
  assumes "good_test E x p w"
  shows "\<exists>r. op_test E x p w = (Ret r, w)"
proof -
  let ?r = "fst (ucx E (Ucp_tag_recv_request_test p) (lib w))"
  have tag: "status_of ?r = UCS_OK \<Longrightarrow> (\<exists>t. out_word ?r = Some t) \<and> (\<exists>n. out_len ?r = Some n)"
    using written by blast
  show ?thesis
    using assms tag by (cases x) (auto simp: forget_poll_def poll_normal_def poll_stream_def poll_tag_def bind_def query_def
      ret_def lift_def good_test_def from_status_def from_error_def Let_def)
qed

lemma op_poll_safe:
  assumes "good_test E x p w" "reqs w p \<noteq> None"
  shows "\<exists>r a. request_poll E (op_test E x) p t w = (Ret r, w) \<or> request_poll E (op_test E x) p t w = (Ret r, w\<lparr>reqs := (reqs w)(p \<mapsto> a)\<rparr>)"
proof -
  obtain r where r: "op_test E x p w = (Ret r, w)" using op_test_returns [OF assms(1)] by blast
  obtain a where a: "reqs w p = Some a" using assms(2) by blast
  show ?thesis
  proof (cases r)
    case (Ready y)
    then show ?thesis using r by (auto simp: request_poll_def bind_def ret_def)
  next
    case Pending
    let ?w = "snd (register_waker E p t w)"
    have "request_poll E (op_test E x) p t w = (Ret Pending, ?w)"
      by (rule request_poll_Pending [OF op_tests _ a]) (use r Pending in simp)
    then show ?thesis using register_waker_Some [OF a, of E t] by auto
  qed
qed

end

context ucx_library
begin

lemma live_start_op:
  fixes s :: "('u, 'wk, 'q, 'n, 'c) live"
  assumes inv: "live_inv s" and on: "live_enabled E (Start x) s"
  shows "\<exists>s'. live_exec E A C (Start x) s = (Ret (), s') \<and> live_inv s'"
proof -
  have user: "user_var (op_user x) (base s)" using on by simp
  have full: "full_inv (base s)" using inv by (simp add: live_inv_def)
  note held = full_held [OF full]
  have "case op_user x of
      On_endpoint e \<Rightarrow> 0 < r_endpoints (refs_with (extra_refs (base s)) (core (base s))) (ep_inner e)
    | On_worker k \<Rightarrow> 0 < worker_refs (world_of s) (refs_with (extra_refs (base s)) (core (base s))) k"
    using user held(5) held_by_vars(3) [of _ "core (base s)" "extra_refs (base s)"]
    by (auto simp: user_var_def split: op_owner.splits)
  from op_start_safe [OF held(1) this] on obtain r w' where run: "op_start E x (world_of s) = (Ret r, w')"
    and w': "w' = world_of s \<or> (\<exists>h. w' = after_call E (op_call E x h) (world_of s))"
    and ready: "\<forall>p. r = Waiting p \<longrightarrow> reqs (world_of s) p \<noteq> None"
    by auto
  have plain: "op_call E x h \<noteq> Ucp_request_free p" for h p by (cases x) simp_all
  let ?s = "s\<lparr>base := base s\<lparr>core := (core (base s))\<lparr>mem := w'\<rparr>\<rparr>\<rparr>"
  have "full_inv (base s\<lparr>core := (core (base s))\<lparr>mem := w'\<rparr>\<rparr>)"
    using w' held(1-3) by (intro full_frame [OF full]) (auto simp: after_call_def maps_ok_def channels_ok_def)
  then have live: "live_inv ?s"
    using w' plain by (intro live_world [OF inv]) (auto simp: after_call_def)
  have reqs: "reqs w' = reqs (world_of s)" using w' by (auto simp: after_call_def)
  show ?thesis
  proof (cases r)
    case Ended
    then show ?thesis using run live by (simp add: bind_def in_base_def in_world_def modify_def)
  next
    case (Waiting p)
    then have "live_inv (?s\<lparr>futures := (x, p) # futures s, obtained := p # obtained s\<rparr>)"
      using live ready user reqs by (auto simp: live_inv_def user_var_def split: op_owner.splits)
    then show ?thesis
      using run Waiting by (simp add: bind_def in_base_def in_world_def modify_def)
  qed
qed

lemma live_free:
  fixes s :: "('u, 'wk, 'q, 'n, 'c) live"
  assumes inv: "live_inv s" and x: "(x, p) \<in> set (futures s)"
  shows "\<exists>w'. request_drop E p (world_of s) = (Ret (), w')
    \<and> live_inv (s\<lparr>base := base s\<lparr>core := (core (base s))\<lparr>mem := w'\<rparr>\<rparr>, futures := remove1 (x, p) (futures s)\<rparr>)"
proof -
  let ?w = "after_call E (Ucp_request_free p) (world_of s)"
  have run: "request_drop E p (world_of s) = (Ret (), ?w)"
    by (simp add: request_drop_def bind_def ffi_after ret_def)
  have full: "full_inv (base s)" using inv by (simp add: live_inv_def)
  have "full_inv (base s\<lparr>core := (core (base s))\<lparr>mem := ?w\<rparr>\<rparr>)"
    using full_held(1-3) [OF full] by (intro full_frame [OF full]) (simp_all add: after_call_def maps_ok_def channels_ok_def)
  moreover have "count_list (obtained s) q = frees q ?w + count_list (map snd (remove1 (x, p) (futures s))) q
      + count_list (map snd (closers (core (base s)))) q + count_list (lost s) q" for q
    using inv count_snd_remove1 [OF x, of q] by (auto simp: live_inv_def after_call_def split: if_splits)
  ultimately have "live_inv (s\<lparr>base := base s\<lparr>core := (core (base s))\<lparr>mem := ?w\<rparr>\<rparr>, futures := remove1 (x, p) (futures s)\<rparr>)"
    using inv by (auto simp: live_inv_def user_var_def after_call_def dest!: in_remove1D split: op_owner.splits)
  with run show ?thesis by blast
qed

lemma live_poll:
  fixes s :: "('u, 'wk, 'q, 'n, 'c) live"
  assumes inv: "live_inv s" and on: "live_enabled E (Poll t x p) s"
  shows "\<exists>s'. live_exec E A C (Poll t x p) s = (Ret (), s') \<and> live_inv s'"
proof -
  have x: "(x, p) \<in> set (futures s)" and good: "good_test E x p (world_of s)" using on by simp_all
  then have "reqs (world_of s) p \<noteq> None" using inv by (auto simp: live_inv_def)
  from op_poll_safe [OF good this, of t] obtain r w' where run: "request_poll E (op_test E x) p t (world_of s) = (Ret r, w')"
    and w': "w' = world_of s \<or> (\<exists>a. w' = world_of s\<lparr>reqs := (reqs (world_of s))(p \<mapsto> a)\<rparr>)" by blast
  let ?s = "s\<lparr>base := base s\<lparr>core := (core (base s))\<lparr>mem := w'\<rparr>\<rparr>\<rparr>"
  have full: "full_inv (base s)" using inv by (simp add: live_inv_def)
  have "full_inv (base s\<lparr>core := (core (base s))\<lparr>mem := w'\<rparr>\<rparr>)"
    using w' full_held(1-3) [OF full] by (intro full_frame [OF full]) (auto simp: maps_ok_def channels_ok_def)
  then have live: "live_inv ?s"
    using w' by (intro live_world [OF inv]) auto
  show ?thesis
  proof (cases r)
    case Pending
    then show ?thesis using run live by (simp add: bind_def in_base_def in_world_def ret_def)
  next
    case (Ready y)
    from live_free [OF live, of x p] x obtain v where "request_drop E p w' = (Ret (), v)"
      "live_inv (?s\<lparr>base := base ?s\<lparr>core := (core (base ?s))\<lparr>mem := v\<rparr>\<rparr>, futures := remove1 (x, p) (futures s)\<rparr>)"
      by auto
    then show ?thesis using run Ready by (simp add: bind_def in_base_def in_world_def modify_def)
  qed
qed

lemma live_memory:
  fixes s :: "('u, 'wk, 'q, 'n, 'c) live"
  assumes inv: "live_inv s"
  shows "live_enabled E (Init_request p) s \<Longrightarrow> \<exists>s'. live_exec E A C (Init_request p) s = (Ret (), s') \<and> live_inv s'"
    and "live_enabled E (Cleanup_request p) s \<Longrightarrow> \<exists>s'. live_exec E A C (Cleanup_request p) s = (Ret (), s') \<and> live_inv s'"
proof -
  have full: "full_inv (base s)" using inv by (simp add: live_inv_def)
  have inv': "full_inv (base s\<lparr>core := (core (base s))\<lparr>mem := world_of s\<lparr>reqs := rq\<rparr>\<rparr>\<rparr>)" for rq
    using full_held(1-3) [OF full] by (intro full_frame [OF full]) (simp_all add: maps_ok_def channels_ok_def)
  show "\<exists>s'. live_exec E A C (Init_request p) s = (Ret (), s') \<and> live_inv s'" if "live_enabled E (Init_request p) s"
    using live_world [OF inv inv', of "(reqs (world_of s))(p \<mapsto> aw_new (waker_ops E))"]
    by (simp add: in_base_def in_world_def request_init_def modify_def)
  show "\<exists>s'. live_exec E A C (Cleanup_request p) s = (Ret (), s') \<and> live_inv s'" if "live_enabled E (Cleanup_request p) s"
  proof -
    have "q \<noteq> p" if "(x, q) \<in> set (futures s)" for x q
      using that \<open>live_enabled E (Cleanup_request p) s\<close> by force
    then have "live_inv (s\<lparr>base := base s\<lparr>core := (core (base s))\<lparr>mem := world_of s\<lparr>reqs := (reqs (world_of s))(p := None)\<rparr>\<rparr>\<rparr>\<rparr>)"
      by (intro live_world [OF inv inv']) auto
    then show ?thesis
      using \<open>live_enabled E (Cleanup_request p) s\<close> by (auto simp: in_base_def in_world_def request_cleanup_def)
  qed
qed

lemma live_exec_inv:
  assumes "unbounded_channel C sent" "live_inv s" "live_enabled E act s"
  shows "(\<exists>s'. live_exec E A C act s = (Ret (), s') \<and> live_inv s')
    \<or> ((\<exists>c region. act = System (Register_memory c region)) \<or> (\<exists>m. act = System (Pack_memory m)))
        \<and> (\<exists>s'. live_exec E A C act s = (Fault (Panic Assertion_failed), s'))"
proof (cases act)
  case (System a)
  with live_system [OF assms(1,2), of a A] assms(3) show ?thesis by auto
next
  case (Start x)
  with live_start_op [OF assms(2)] assms(3) show ?thesis by blast
next
  case (Poll t x p)
  with live_poll [OF assms(2)] assms(3) show ?thesis by blast
next
  case (Drop_future x p)
  with live_free [OF assms(2), of x p] assms(3) show ?thesis
    by (auto simp: bind_def in_base_def in_world_def modify_def)
next
  case (Init_request p)
  with live_memory(1) [OF assms(2)] assms(3) show ?thesis by blast
next
  case (Cleanup_request p)
  with live_memory(2) [OF assms(2)] assms(3) show ?thesis by blast
qed

lemma live_reachable_inv:
  assumes "unbounded_channel C sent" "live_reachable E A C s"
  shows "live_inv s"
  using assms(2)
proof (induction rule: live_reachable.induct)
  case (live_start u)
  show ?case
    using full_start_inv by (simp add: live_inv_def empty_live_def) (simp add: empty_full_def empty_sys_def)
next
  case (live_step s act s')
  then show ?case using live_exec_inv [OF assms(1), of s act A] by auto
qed

end

section \<open>The balance\<close>

lemma keeps_in_base: "keeps (\<lambda>f. P (mem (core f))) m \<Longrightarrow> keeps (\<lambda>s. P (world_of s)) (in_base m)"
  by (auto simp: keeps_def in_base_def split: prod.splits)

lemma op_start_balanced: "keeps balanced (op_start E x)"
proof -
  have plain: "plain_call (op_call E x h)" for h by (cases x) simp_all
  show ?thesis
    using plain by (auto simp: op_start_def get_handle_def on_status_ptr_def
      intro!: keeps_bind keeps_try_bind split: op_owner.split sum.split)
qed

lemma balanced_reqs: "balanced (w\<lparr>reqs := rq\<rparr>) = balanced w"
  by (simp add: balanced_def destroys_def cleanups_def)

lemma request_poll_balanced: "lib_test (f p) \<Longrightarrow> keeps balanced (request_poll E f p t)"
  by (auto simp: request_poll_def keeps_def bind_on_test register_waker_def bind_def balanced_reqs ret_def
      elim!: lib_testE split: outcome.splits poll.splits option.splits)

lemma note_balanced: "keeps (\<lambda>s. balanced (world_of s)) (note_requests act cs)"
  by (simp add: keeps_def note_requests_def modify_def)

lemma live_exec_balanced:
  fixes E :: "('u, 'wk) env" and s :: "('u, 'wk, 'q, 'n, 'c) live"
  assumes "balanced (world_of s)"
  shows "balanced (world_of (snd (live_exec E A C act s)))"
proof (cases act)
  case (System a)
  have "keeps (\<lambda>s. balanced (world_of s)) (bind (in_base (full_exec E A C a)) (\<lambda>_. note_requests a cs))" for cs
    by (intro keeps_bind keeps_in_base full_balance.every_full_exec_kept note_balanced)
  from keepsD [OF this assms] System show ?thesis by simp
next
  case (Start x)
  show ?thesis
    unfolding Start live_exec.simps
    by (rule keepsD [where P = "\<lambda>s. balanced (world_of s)", OF keeps_bind assms],
        intro keeps_in_base keeps_in_world op_start_balanced, simp add: keeps_def modify_def split: op_state.split)
next
  case (Poll t x p)
  have free: "keeps (\<lambda>s. balanced (world_of s)) (bind (in_base (in_world (request_drop E p)))
      (\<lambda>_. modify (\<lambda>s :: ('u, 'wk, 'q, 'n, 'c) live. s\<lparr>futures := remove1 (x, p) (futures s)\<rparr>)))"
    by (intro keeps_bind keeps_in_base keeps_in_world balance.request_drop_kept) (simp add: keeps_def modify_def)
  show ?thesis
    unfolding Poll live_exec.simps
    by (rule keepsD [where P = "\<lambda>s. balanced (world_of s)", OF keeps_bind assms])
      (auto intro!: keeps_in_base keeps_in_world request_poll_balanced op_tests free simp: keeps_ret split: poll.split)
next
  case (Drop_future x p)
  show ?thesis
    unfolding Drop_future live_exec.simps
    by (rule keepsD [where P = "\<lambda>s. balanced (world_of s)", OF keeps_bind assms],
        intro keeps_in_base keeps_in_world balance.request_drop_kept, simp add: keeps_def modify_def)
qed (use assms in \<open>auto simp: in_base_def in_world_def request_init_def request_cleanup_def modify_def balanced_reqs
    split: option.split prod.split\<close>)

lemma live_reachable_balanced: "live_reachable E A C s \<Longrightarrow> balanced (world_of s)"
proof (induction rule: live_reachable.induct)
  case (live_start u)
  show ?case by (simp add: empty_live_def empty_full_def empty_sys_def balanced_def empty_heap_def heap_fresh_def
      no_weak_def destroys_def cleanups_def)
next
  case (live_step s act s')
  then show ?case using live_exec_balanced [of s E A C act] by simp
qed

section \<open>Properties\<close>





text \<open>A run for the witnesses: a tagged send on a new endpoint that has to wait for its request.\<close>

type_synonym demo_live = "(reply list, nat option, RawMsg list, nat list \<times> bool, ConnectionRequest list) live"

fun live_run ::
  "('u, 'wk) env \<Rightarrow> ('q, 'n) am_ops \<Rightarrow> 'c channel_ops \<Rightarrow> live_action list \<Rightarrow>
   ('u, 'wk, 'q, 'n, 'c) live \<Rightarrow> ('u, 'wk, 'q, 'n, 'c) live" where
  "live_run E A C [] s = s"
| "live_run E A C (act # acts) s = live_run E A C acts (snd (live_exec E A C act s))"

fun live_enabled_run ::
  "('u, 'wk) env \<Rightarrow> ('q, 'n) am_ops \<Rightarrow> 'c channel_ops \<Rightarrow> live_action list \<Rightarrow> ('u, 'wk, 'q, 'n, 'c) live \<Rightarrow> bool" where
  "live_enabled_run E A C [] s = True"
| "live_enabled_run E A C (act # acts) s = (live_enabled E act s \<and> fst (live_exec E A C act s) = Ret ()
     \<and> live_enabled_run E A C acts (snd (live_exec E A C act s)))"

lemma live_run_reachable:
  "live_reachable E A C s \<Longrightarrow> live_enabled_run E A C acts s \<Longrightarrow> live_reachable E A C (live_run E A C acts s)"
proof (induction acts arbitrary: s)
  case (Cons act acts)
  then show ?case
    using live_step [of E A C s act "snd (live_exec E A C act s)"] by (simp add: prod_eq_iff)
qed simp

abbreviation demo_send :: data_op where
  "demo_send \<equiv> Tag_send demo_endpoint 5 \<lparr>as_ptr = 16, contents = [1, 2]\<rparr>"

definition demo_create :: "live_action list" where
  "demo_create = [System (Core (New_context False 0)), System (Core (New_worker 0)),
     System (Core (New_endpoint 0 zeroed_params))]"

definition demo_replies :: "reply list" where
  "demo_replies = [ok_reply, ok_reply, ok_reply, ok_reply\<lparr>ptr_of := 64\<rparr>]"

definition created :: demo_live where
  "created = live_run (lawful_env Debug) list_ops list_channel demo_create (empty_live demo_replies)"

lemmas live_machine_simps = machine_simps in_base_def in_world_def in_core_def note_requests_def new_requests_def
  empty_live_def empty_full_def empty_sys_def empty_heap_def

definition created_calls :: "ffi_call list" where
  "created_calls = calls (world_of created)"

lemma created_eq: "created = \<lparr>base = \<lparr>core = \<lparr>mem = \<lparr>lib = [ok_reply\<lparr>ptr_of := 64\<rparr>], calls = created_calls,
       reqs = Map.empty, scheduled = [],
       contexts = \<lparr>cells = [0 \<mapsto> \<lparr>strong = 2, weak = 0, val = \<lparr>c_handle = 0\<rparr>\<rparr>], next_addr = 1\<rparr>,
       workers = \<lparr>cells = [0 \<mapsto> \<lparr>strong = 2, weak = 0,
          val = \<lparr>w_handle = 0, w_context = 0, am_streams = []\<rparr>\<rparr>], next_addr = 1\<rparr>,
       inners = \<lparr>cells = [0 \<mapsto> \<lparr>strong = 1, weak = 1, val = inner_new 0\<rparr>], next_addr = 1\<rparr>,
       streams = empty_heap, channels = empty_heap\<rparr>,
     context_vars = [0], worker_vars = [0], endpoint_vars = [demo_endpoint], closers = []\<rparr>,
   memory_vars = [], stream_vars = [], msg_vars = [], listener_vars = []\<rparr>,
   futures = [], obtained = [], lost = []\<rparr>"
  by (simp add: created_calls_def created_def demo_create_def demo_replies_def live_machine_simps numeral_2_eq_2)

lemma created_calls_free: "count_list created_calls (Ucp_request_free p) = 0"
  by (simp add: created_calls_def created_def demo_create_def demo_replies_def live_machine_simps)

lemma created_reachable: "live_reachable (lawful_env Debug) list_ops list_channel created"
proof -
  have "live_enabled_run (lawful_env Debug) list_ops list_channel demo_create (empty_live demo_replies :: demo_live)"
    by (simp add: demo_create_def demo_replies_def borrowed_def live_machine_simps)
  from live_run_reachable [OF live_start this] show ?thesis by (simp add: created_def)
qed

definition sending :: demo_live where
  "sending = live_run (lawful_env Debug) list_ops list_channel [Init_request 64, Start demo_send] created"

lemma request_64 [simp]: "\<not> UCS_PTR_IS_ERR ucx_abi 64" "UCS_PTR_IS_PTR Debug ucx_abi 64 = Ret True"
  by (simp_all add: UCS_PTR_IS_ERR_def UCS_PTR_IS_PTR_def usize_sub_def err_last_def)

lemmas sending_simps = in_base_def in_world_def request_init_def modify_def op_start_def get_handle_def inner_check_def
  try_bind_def bind_def lift_def ret_def on_inners_def rc_get_def ffi_after on_status_ptr_def inner_new_def

lemma sending_eq: "sending = \<lparr>base = \<lparr>core = \<lparr>mem = \<lparr>lib = [],
       calls = created_calls @ [op_call (lawful_env Debug) demo_send 0],
       reqs = [64 \<mapsto> None], scheduled = [],
       contexts = \<lparr>cells = [0 \<mapsto> \<lparr>strong = 2, weak = 0, val = \<lparr>c_handle = 0\<rparr>\<rparr>], next_addr = 1\<rparr>,
       workers = \<lparr>cells = [0 \<mapsto> \<lparr>strong = 2, weak = 0,
          val = \<lparr>w_handle = 0, w_context = 0, am_streams = []\<rparr>\<rparr>], next_addr = 1\<rparr>,
       inners = \<lparr>cells = [0 \<mapsto> \<lparr>strong = 1, weak = 1, val = inner_new 0\<rparr>], next_addr = 1\<rparr>,
       streams = empty_heap, channels = empty_heap\<rparr>,
     context_vars = [0], worker_vars = [0], endpoint_vars = [demo_endpoint], closers = []\<rparr>,
   memory_vars = [], stream_vars = [], msg_vars = [], listener_vars = []\<rparr>,
   futures = [(demo_send, 64)], obtained = [64], lost = []\<rparr>"
  unfolding sending_def
  by (subst created_eq) (simp add: sending_simps lawful_def ok_reply_def after_call_def)

lemma sending_reachable: "live_reachable (lawful_env Debug) list_ops list_channel sending"
proof -
  have "live_enabled_run (lawful_env Debug) list_ops list_channel [Init_request 64, Start demo_send] created"
    by (subst created_eq) (simp add: sending_simps user_var_def good_answer_def answer_def lawful_def ok_reply_def)
  from live_run_reachable [OF created_reachable this] show ?thesis by (simp add: sending_def)
qed

lemma sending_poll: "live_enabled (lawful_env Debug) (Poll 1 demo_send 64) sending"
  by (subst sending_eq) (simp add: good_test_def)



definition live_teardown :: "live_action list" where
  "live_teardown = [Poll 1 demo_send 64, System (Core (Drop_endpoint demo_endpoint)), System (Core (Drop_worker 0)),
     System (Core (Drop_context 0))]"

lemmas live_teardown_simps = machine_simps in_base_def in_world_def in_core_def note_requests_def new_requests_def
  request_poll_def forget_poll_def poll_normal_def request_drop_def empty_heap_def borrowed_def good_test_def


end
