(* ===== verification/WellTyped.thy ===== *)
theory WellTyped
  imports Futures
begin

text \<open>
  The heap of the whole program is well typed in every reachable state: what the ownership invariant says
  about the pointers that the live objects hold.
\<close>

text \<open>
  C9. The heap is well typed: in every reachable state of the program, futures in flight included, every
  pointer inside a live object points at a live object of its kind. A worker's context exists, the streams
  in its map exist and are registered under distinct identifiers; an endpoint's worker exists, the library holds
  a weak reference to the endpoint exactly until it is closed, and a closed endpoint carries an error.
\<close>

theorem heap_well_typed:
  assumes "ucx_library E" "unbounded_channel C sent" "live_reachable E A C s" "w = world_of s"
  shows "(\<forall>k b. cells (workers w) k = Some b \<longrightarrow> 0 < strong b \<and> alive (contexts w) (w_context (val b))
      \<and> distinct (map fst (am_streams (val b))) \<and> (\<forall>(i, a)\<in>set (am_streams (val b)). alive (streams w) a))
    \<and> (\<forall>a b. cells (inners w) a = Some b \<longrightarrow> 0 < strong b \<and> alive (workers w) (ep_worker (val b))
      \<and> weak b = (if closed (val b) then 0 else 1) \<and> (closed (val b) \<longrightarrow> ep_status (val b) \<noteq> UCS_OK))"
proof -
  have inv: "full_inv (base s)"
    using ucx_library.live_reachable_inv [OF assms(1-3)] by (simp add: live_inv_def)
  note held = full_held(1,2) [OF inv, folded assms(4)]
  have own: "owns w (refs_with (extra_refs (base s)) (core (base s)))" "maps_ok w"
    using held by simp_all
  show ?thesis
  proof (intro conjI allI impI)
    fix k b assume b: "cells (workers w) k = Some b"
    show "0 < strong b" using counts_cell [OF owns_parts(4) [OF own(1)] b] by simp
    show "alive (contexts w) (w_context (val b))" by (rule worker_context_alive [OF own(1) b])
    show "distinct (map fst (am_streams (val b)))" using own(2) b by (simp add: maps_ok_def)
    show "\<forall>(i, a)\<in>set (am_streams (val b)). alive (streams w) a"
    proof clarify
      fix i a assume "(i, a) \<in> set (am_streams (val b))"
      then have a: "a \<in> set (worker_streams (val b))" by force
      from refs_from_pos [OF owns_parts(3) [OF own(1)] b, where f = worker_streams, OF a] show "alive (streams w) a"
        by (intro owned_alive(3) [OF own(1)]) (simp add: stream_refs_def)
    qed
  next
    fix a b assume b: "cells (inners w) a = Some b"
    from endpoints_cell [OF owns_parts(8) [OF own(1)] b]
    show "0 < strong b" "weak b = (if closed (val b) then 0 else 1)" "closed (val b) \<Longrightarrow> ep_status (val b) \<noteq> UCS_OK"
      by simp_all
    from refs_from_pos [OF owns_parts(7) [OF own(1)] b, of "ep_worker (val b)" "\<lambda>i. [ep_worker i]"]
    show "alive (workers w) (ep_worker (val b))"
      by (intro owned_alive(2) [OF own(1)]) (simp add: worker_refs_def)
  qed
qed

theorem heap_well_typed_witness:
  "\<exists>b. cells (inners (world_of sending)) 0 = Some b \<and> alive (workers (world_of sending)) (ep_worker (val b)) \<and> weak b = 1"
proof -
  let ?b = "\<lparr>strong = 1, weak = 1, val = inner_new 0\<rparr>"
  have b: "cells (inners (world_of sending)) 0 = Some ?b"
    by (subst sending_eq) simp
  have "alive (workers (world_of sending)) (ep_worker (val ?b))"
    using heap_well_typed [OF lawful.ucx_library_axioms lc.unbounded_channel_axioms sending_reachable refl] b by blast
  with b show ?thesis by simp
qed

end
