(* ===== verification/EndpointSpec.thy ===== *)
theory EndpointSpec
  imports Closing
begin

text \<open>
  What an endpoint promises, without pointers and counts of the library: an abstract state machine of connections, and the
  refinement of it by the code of \<^verbatim>\<open>src/ucp/endpoint/mod.rs\<close>.
\<close>

section \<open>The specification\<close>

text \<open>
  A connection is open; or broken, when the library has reported an error of the peer; or shut, when it was closed from this
  side. An endpoint has a number of owners, the clones.
\<close>

datatype connection = Open | Broken Error | Shut Error

type_synonym states = "nat \<rightharpoonup> nat \<times> connection"

fun shut :: "connection \<Rightarrow> connection" where
  "shut (Shut err) = Shut err"
| "shut _ = Shut ConnectionReset"

fun after_report :: "ucs_status_t \<Rightarrow> connection \<Rightarrow> connection" where
  "after_report s (Shut err) = Shut err"
| "after_report s c = (if s = UCS_OK then c else Broken (error_of_status s))"

fun status_answer :: "connection \<Rightarrow> (unit, Error) result" where
  "status_answer Open = Ok ()"
| "status_answer (Broken err) = Err err"
| "status_answer (Shut err) = Err err"

fun is_shut :: "connection \<Rightarrow> bool" where
  "is_shut (Shut err) = True"
| "is_shut c = False"

text \<open>What can be done to an endpoint, and what it answers.\<close>

datatype ep_op = Cloned | Dropped | Asked_status | Asked_closed | Reported handle ucs_status_t | Closed bool | Polled_close handle

datatype ep_answer = No_answer | Status_is "(unit, Error) result" | Shut_is bool | Close_is close_state | Created "(Endpoint, Error) result"

text \<open>
  The specification: which answers and successor states are allowed (\<open>None\<close>: the endpoint is gone). Whether a close is
  complete, in progress or failed is up to the library; only one that is complete shuts the connection.
\<close>

definition close_allowed :: "nat \<Rightarrow> connection \<Rightarrow> ep_answer \<Rightarrow> (nat \<times> connection) option \<Rightarrow> bool" where
  "close_allowed n c ans s' \<longleftrightarrow> (\<exists>cs. ans = Close_is cs \<and> s' = Some (n, if cs = Finished (Ok ()) then shut c else c))"

fun allowed :: "ep_op \<Rightarrow> nat \<times> connection \<Rightarrow> ep_answer \<Rightarrow> (nat \<times> connection) option \<Rightarrow> bool" where
  "allowed Cloned (n, c) ans s' = (ans = No_answer \<and> s' = Some (Suc n, c))"
| "allowed Dropped (n, c) ans s' = (ans = No_answer \<and> s' = (if n = 1 then None else Some (n - 1, shut c)))"
| "allowed Asked_status (n, c) ans s' = (ans = Status_is (status_answer c) \<and> s' = Some (n, c))"
| "allowed Asked_closed (n, c) ans s' = (ans = Shut_is (is_shut c) \<and> s' = Some (n, c))"
| "allowed (Reported h st) (n, c) ans s' = (ans = No_answer \<and> s' = Some (n, after_report st c))"
| "allowed (Closed force) (n, c) ans s' =
     (if force \<and> is_shut c then ans = Close_is (Finished (Ok ())) \<and> s' = Some (n, c)
      else if \<not> force \<and> c \<noteq> Open then ans = Close_is (Finished (status_answer c)) \<and> s' = Some (n, c)
      else close_allowed n c ans s')"
| "allowed (Polled_close ptr) (n, c) ans s' = close_allowed n c ans s'"

section \<open>The code\<close>

definition connection_of :: "EndpointInner \<Rightarrow> connection" where
  "connection_of i =
     (if closed i then Shut (error_of_status (ep_status i))
      else if ep_status i = UCS_OK then Open else Broken (error_of_status (ep_status i)))"

definition states_of :: "('u, 'wk, 's, 'c) world \<Rightarrow> states" where
  "states_of w = (\<lambda>a. map_option (\<lambda>b. (strong b, connection_of (val b))) (cells (inners w) a))"

fun ep_exec :: "('u, 'wk) env \<Rightarrow> ep_op \<Rightarrow> Endpoint \<Rightarrow> (('u, 'wk, 's, 'c) world, ep_answer) prog" where
  "ep_exec E Cloned e = bind (endpoint_clone e) (\<lambda>_. ret No_answer)"
| "ep_exec E Dropped e = bind (endpoint_drop E e) (\<lambda>_. ret No_answer)"
| "ep_exec E Asked_status e = bind (get_status E e) (\<lambda>res. ret (Status_is res))"
| "ep_exec E Asked_closed e = bind (endpoint_is_closed e) (\<lambda>b. ret (Shut_is b))"
| "ep_exec E (Reported h st) e = bind (err_handler E (ep_inner e) h st) (\<lambda>_. ret No_answer)"
| "ep_exec E (Closed force) e = bind (close_start E e force) (\<lambda>cs. ret (Close_is cs))"
| "ep_exec E (Polled_close ptr) e = bind (close_round E e ptr) (\<lambda>cs. ret (Close_is cs))"

section \<open>Refinement, step by step\<close>

lemma states_put:
  "0 < strong b \<Longrightarrow> states_of (w\<lparr>inners := put_cell a b (inners w)\<rparr>) = (states_of w)(a \<mapsto> (strong b, connection_of (val b)))"
  by (auto simp: states_of_def fun_eq_iff)

lemma states_cong [simp]:
  "states_of (w\<lparr>lib := u\<rparr>) = states_of w" "states_of (w\<lparr>calls := cs\<rparr>) = states_of w"
  by (simp_all add: states_of_def)

lemma states_but:
  "same_inners_but a w w' \<Longrightarrow> states_of w' = (states_of w)(a := states_of w' a)"
  by (auto simp: states_of_def fun_eq_iff)

lemma owned_state:
  assumes "owns w R" "states_of w a = Some (n, c)"
  obtains b where "cells (inners w) a = Some b" "strong b = n" "n = r_endpoints R a" "0 < n" "connection_of (val b) = c"
    "weak b = (if closed (val b) then 0 else 1)" "closed (val b) \<longrightarrow> ep_status (val b) \<noteq> UCS_OK"
proof -
  obtain b where b: "cells (inners w) a = Some b" "strong b = n" "connection_of (val b) = c"
    using assms(2) by (auto simp: states_of_def)
  with endpoints_cell [OF owns_parts(8) [OF assms(1)] b(1)] that show ?thesis by auto
qed

lemma connection_closed [simp]: "connection_of (val (after_closed b)) = shut (connection_of (val b))"
  by (simp add: connection_of_def after_closed_def)

lemma is_shut_closed: "is_shut (connection_of i) = closed i"
  by (simp add: connection_of_def)

lemma inner_closed_states:
  assumes own: "owns w R" and s: "states_of w a = Some (n, c)"
  shows "does (inner_closed a) w (\<lambda>_ w'. owns w' R \<and> is_closed_at a w' \<and> states_of w' = (states_of w)(a \<mapsto> (n, shut c)))"
proof -
  obtain b where b: "cells (inners w) a = Some b" "strong b = n" "n = r_endpoints R a" "0 < n" "connection_of (val b) = c"
    "weak b = (if closed (val b) then 0 else 1)"
    using own s by (rule owned_state)
  have held: "0 < r_endpoints R a" using b by simp
  have "does (inner_closed a) w (\<lambda>_ w'. states_of w' = (states_of w)(a \<mapsto> (n, shut c)))"
    using b by (simp add: does_def inner_closed_eq [OF b(1) _ b(6)] states_put)
  with inner_closed_owned [OF own held] show ?thesis by (auto simp: does_def)
qed

lemma inner_drop_states:
  assumes own: "owns w R" and s: "states_of w a = Some (n, c)" and last: "n = 1 \<longrightarrow> is_closed_at a w"
  shows "does (inner_drop E a) w (\<lambda>_ w'. (\<exists>R'. owns w' R') \<and> states_of w' = (states_of w)(a := if n = 1 then None else Some (n - 1, c)))"
proof -
  obtain b where b: "cells (inners w) a = Some b" "strong b = n" "n = r_endpoints R a" "0 < n" "connection_of (val b) = c"
    using own s by (rule owned_state)
  have held: "0 < r_endpoints R a" using b by simp
  note dropped = inner_drop_owned [OF own held, of E] 
  show ?thesis
  proof (cases "n = 1")
    case True
    show ?thesis
    proof (rule does_mono [OF dropped])
      fix x w' assume w': "owns w' (R\<lparr>r_endpoints := dec a (r_endpoints R)\<rparr>) \<and> same_inners_but a w w'
          \<and> (1 < r_endpoints R a \<longrightarrow> is_closed_at a w' = is_closed_at a w)"
      then have "cells (inners w') a = None"
        using endpoints_cell [OF owns_parts(8), of w' _ a] True b(3) by (cases "cells (inners w') a") fastforce+
      with w' True show "(\<exists>R'. owns w' R') \<and> states_of w' = (states_of w)(a := if n = 1 then None else Some (n - 1, c))"
        using states_but [of a w w'] by (auto simp: states_of_def)
    qed (use last b True in simp)
  next
    case False
    let ?b = "b\<lparr>strong := strong b - 1\<rparr>"
    have "inner_drop E a w = (Ret (), w\<lparr>inners := put_cell a ?b (inners w)\<rparr>)"
      using b False by (simp add: inner_drop_def bind_def on_inners_def rc_on_cell ret_def)
    moreover have "states_of (w\<lparr>inners := put_cell a ?b (inners w)\<rparr>) = (states_of w)(a \<mapsto> (n - 1, c))"
      using b False by (subst states_put) auto
    ultimately show ?thesis
      using dropped False b by (auto simp: does_def)
  qed
qed

lemma status_answered:
  assumes "owns w R" "states_of w a = Some (n, c)"
  shows "inner_check E a w = (Ret (status_answer c), w)"
proof -
  obtain b where b: "cells (inners w) a = Some b" "strong b = n" "0 < n" "connection_of (val b) = c"
    "closed (val b) \<longrightarrow> ep_status (val b) \<noteq> UCS_OK"
    using assms by (rule owned_state)
  then have "from_status (prof E) (ep_status (val b)) = Ret (status_answer c)"
    by (auto simp: connection_of_def split: if_splits)
  with b inner_reads(2) [OF b(1)] show ?thesis by simp
qed

text \<open>Each operation, on an endpoint that exists: it answers, keeps ownership, and does what the specification allows, to it alone.\<close>

definition refines :: "ep_op \<Rightarrow> nat \<Rightarrow> nat \<times> connection \<Rightarrow> ('u, 'wk, 's, 'c) world \<Rightarrow> ep_answer \<Rightarrow> ('u, 'wk, 's, 'c) world \<Rightarrow> bool" where
  "refines act a s w ans w' \<longleftrightarrow> (\<exists>R. owns w' R) \<and> (\<exists>s'. allowed act s ans s' \<and> states_of w' = (states_of w)(a := s'))"

lemma unchanged: "states_of w a = Some s \<Longrightarrow> (states_of w)(a \<mapsto> s) = states_of w"
  by (rule fun_upd_idem)

context ucx_library
begin

lemma drop_refines:
  fixes w :: "('u, 'wk, 's, 'c) world"
  assumes own: "owns w R" and s: "states_of w (ep_inner e) = Some (n, c)"
  shows "does (ep_exec E Dropped e) w (refines Dropped (ep_inner e) (n, c) w)"
proof -
  let ?a = "ep_inner e" and ?c = "Ucp_ep_close_nb (ep_handle e) CLOSE_MODE_FORCE"
  let ?u = "w\<lparr>lib := snd (ucx E ?c (lib w)), calls := calls w @ [?c]\<rparr>"
  obtain b where b: "cells (inners w) ?a = Some b" "strong b = n" "n = r_endpoints R ?a" "0 < n" "connection_of (val b) = c"
    using own s by (rule owned_state)
  have pos: "0 < strong b" using b by simp
  let ?first = "if closed (val b) then ret ()
    else bind (ffi E ?c) (\<lambda>r. bind (lift (from_ptr (prof E) (binds E) (ptr_of r))) (\<lambda>_. inner_closed ?a))"
  have first: "does ?first w (\<lambda>_ w'. owns w' R \<and> is_closed_at ?a w' \<and> states_of w' = (states_of w)(?a \<mapsto> (n, shut c)))"
  proof (cases "closed (val b)")
    case True
    then obtain err where "c = Shut err" using b(5) by (auto simp: connection_of_def)
    then have "(states_of w)(?a \<mapsto> (n, shut c)) = states_of w" using s by (simp add: unchanged)
    with own b True show ?thesis by simp
  next
    case False
    have "owns ?u R" "states_of ?u ?a = Some (n, c)" using own s by simp_all
    from inner_closed_states [OF this] False show ?thesis
      by (auto simp: does_from_ptr intro: does_mono)
  qed
  have "does (bind ?first (\<lambda>_. inner_drop E ?a)) w (\<lambda>_. refines Dropped ?a (n, c) w No_answer)"
    unfolding does_bind [of _ "\<lambda>_. inner_drop E ?a"]
  proof (rule does_mono [OF first])
    fix x and w' :: "('u, 'wk, 's, 'c) world" assume w': "owns w' R \<and> is_closed_at ?a w' \<and> states_of w' = (states_of w)(?a \<mapsto> (n, shut c))"
    then show "does (inner_drop E ?a) w' (\<lambda>_. refines Dropped ?a (n, c) w No_answer)"
      by (intro does_mono [OF inner_drop_states [of w' R ?a n "shut c" E]]) (auto simp: refines_def)
  qed
  then have "does (endpoint_drop E e) w (\<lambda>_. refines Dropped ?a (n, c) w No_answer)"
    unfolding endpoint_drop_def does_def
    by (subst bind_Ret_eq [where m = "inner_is_closed ?a" and w = w]) (rule inner_reads(1) [OF b(1) pos])
  then show ?thesis by simp
qed

lemma close_refines:
  fixes w :: "('u, 'wk, 's, 'c) world"
  assumes own: "owns w R" and s: "states_of w (ep_inner e) = Some (n, c)"
  shows "does (ep_exec E (Closed force) e) w (refines (Closed force) (ep_inner e) (n, c) w)"
    and "does (ep_exec E (Polled_close ptr) e) w (refines (Polled_close ptr) (ep_inner e) (n, c) w)"
proof -
  let ?a = "ep_inner e"
  obtain b where b: "cells (inners w) ?a = Some b" "strong b = n" "n = r_endpoints R ?a" "0 < n" "connection_of (val b) = c"
    "weak b = (if closed (val b) then 0 else 1)" "closed (val b) \<longrightarrow> ep_status (val b) \<noteq> UCS_OK"
    using own s by (rule owned_state)
  have pos: "0 < strong b" using b by simp
  have still: "refines act ?a (n, c) w ans (w\<lparr>lib := u, calls := cs\<rparr>)" if "allowed act (n, c) ans (Some (n, c))" for act ans u cs
    using that own unchanged [OF s] by (auto simp: refines_def)
  have same: "refines act ?a (n, c) w ans w" if "allowed act (n, c) ans (Some (n, c))" for act ans
    using still [where u = "lib w" and cs = "calls w", OF that] by simp
  have closing: "does (inner_closed ?a) (w\<lparr>lib := u, calls := cs\<rparr>) (\<lambda>_. refines act ?a (n, c) w (Close_is (Finished (Ok ()))))"
    if "allowed act (n, c) (Close_is (Finished (Ok ()))) (Some (n, shut c))" for act u cs
    by (rule does_mono [OF inner_closed_states [of _ R ?a n c]]) (use own s that in \<open>auto simp: refines_def\<close>)
  show "does (ep_exec E (Polled_close ptr) e) w (refines (Polled_close ptr) ?a (n, c) w)"
    by (auto simp: close_round_def poll_normal_def request_drop_def close_allowed_def intro!: same still closing)
  show "does (ep_exec E (Closed force) e) w (refines (Closed force) ?a (n, c) w)"
  proof (cases force)
    case True
    have flag: "closed (val b) = is_shut c" using b(5) is_shut_closed by blast
    from True show ?thesis
      by (auto simp: close_start_def endpoint_is_closed_def inner_is_closed_def flag close_allowed_def
        does_inner_get [OF b(1) pos] does_on_status_ptr does_raw_status raw_status_error simp del: does_on(3)
        intro!: same still closing)
  next
    case False
    have status: "get_status E e w = (Ret (status_answer c), w)"
      unfolding get_status_def by (rule status_answered [OF own s])
    then have asked: "does (get_status E e) w Q \<longleftrightarrow> Q (status_answer c) w" for Q
      by (simp add: does_def)
    show ?thesis
    proof (cases "c = Open")
      case True
      with False show ?thesis
        by (auto simp: close_start_def asked close_allowed_def does_on_status_ptr does_raw_status raw_status_error
            intro!: still [unfolded True] closing [unfolded True])
    next
      case broken: False
      then obtain err where "status_answer c = Err err" by (cases c) auto
      with False broken status show ?thesis
        by (auto simp: close_start_def bind_def does_def ret_def intro!: same)
    qed
  qed
qed

end

text \<open>An error is reported to an endpoint whose callback the library still holds.\<close>

fun possible :: "ep_op \<Rightarrow> nat \<times> connection \<Rightarrow> bool" where
  "possible (Reported h st) (n, c) = (\<not> is_shut c)"
| "possible _ _ = True"

context ucx_library
begin

lemma others_refine:
  fixes w :: "('u, 'wk, 's, 'c) world"
  assumes own: "owns w R" and s: "states_of w (ep_inner e) = Some (n, c)"
  shows "does (ep_exec E Cloned e) w (refines Cloned (ep_inner e) (n, c) w)"
    and "does (ep_exec E Asked_status e) w (refines Asked_status (ep_inner e) (n, c) w)"
    and "does (ep_exec E Asked_closed e) w (refines Asked_closed (ep_inner e) (n, c) w)"
    and "\<not> is_shut c \<Longrightarrow> does (ep_exec E (Reported h st) e) w (refines (Reported h st) (ep_inner e) (n, c) w)"
proof -
  let ?a = "ep_inner e"
  obtain b where b: "cells (inners w) ?a = Some b" "strong b = n" "n = r_endpoints R ?a" "0 < n" "connection_of (val b) = c"
    "weak b = (if closed (val b) then 0 else 1)" "closed (val b) \<longrightarrow> ep_status (val b) \<noteq> UCS_OK"
    using own s by (rule owned_state)
  have held: "0 < r_endpoints R ?a" and pos: "0 < strong b" using b by simp_all
  have same: "refines act ?a (n, c) w ans w" if "allowed act (n, c) ans (Some (n, c))" for act ans
    using that own unchanged [OF s] by (auto simp: refines_def)
  show "does (ep_exec E Asked_status e) w (refines Asked_status ?a (n, c) w)"
    using status_answered [OF own s, of E] by (simp add: get_status_def does_def bind_def ret_def same)
  show "does (ep_exec E Asked_closed e) w (refines Asked_closed ?a (n, c) w)"
    using inner_reads(1) [OF b(1) pos] b(5) is_shut_closed [of "val b"]
    by (simp add: endpoint_is_closed_def does_def bind_def ret_def same)
  let ?b = "b\<lparr>strong := Suc (strong b)\<rparr>"
  have "states_of (w\<lparr>inners := put_cell ?a ?b (inners w)\<rparr>) = (states_of w)(?a \<mapsto> (Suc n, c))"
    using b by (subst states_put) auto
  then have "does (endpoint_clone e) w (\<lambda>_ w'. states_of w' = (states_of w)(?a \<mapsto> (Suc n, c)))"
    using b by (simp add: endpoint_clone_def does_def bind_def on_inners_def rc_on_cell ret_def)
  with endpoint_clone_owned [OF own held] show "does (ep_exec E Cloned e) w (refines Cloned ?a (n, c) w)"
    by (auto simp: does_def refines_def bind_def ret_def)
  assume up: "\<not> is_shut c"
  then have live: "\<not> closed (val b)" using b(5) is_shut_closed by blast
  let ?s = "if st = UCS_OK then b else b\<lparr>val := (val b)\<lparr>ep_status := st\<rparr>\<rparr>"
  have "states_of (w\<lparr>inners := put_cell ?a ?s (inners w)\<rparr>) = (states_of w)(?a \<mapsto> (n, after_report st c))"
    using b live by (subst states_put) (auto simp: connection_of_def)
  then have "does (err_handler E ?a h st) w (\<lambda>_ w'. states_of w' = (states_of w)(?a \<mapsto> (n, after_report st c)))"
    using err_handler_eq [OF own b(1) live] by (simp add: does_def)
  with err_handler_owned [OF own b(1) live, of h st] show "does (ep_exec E (Reported h st) e) w (refines (Reported h st) ?a (n, c) w)"
    by (auto simp: does_def refines_def bind_def ret_def)
qed

lemma step_refines:
  fixes w :: "('u, 'wk, 's, 'c) world"
  assumes own: "owns w R" and s: "states_of w (ep_inner e) = Some s" and "possible act s"
  shows "does (ep_exec E act e) w (refines act (ep_inner e) s w)"
proof -
  obtain n c where [simp]: "s = (n, c)" by fastforce
  have s': "states_of w (ep_inner e) = Some (n, c)" using s by simp
  show ?thesis
    using assms(3) by (cases act) (simp_all only: others_refine [OF own s'] drop_refines [OF own s'] close_refines [OF own s']
      \<open>s = (n, c)\<close> possible.simps simp_thms)
qed

end

section \<open>Refinement of whole runs\<close>

text \<open>Creating an endpoint on a worker, and operations on endpoints that exist.\<close>

datatype ep_act = Create nat ep_params | On Endpoint ep_op

fun act_exec :: "('u, 'wk) env \<Rightarrow> ep_act \<Rightarrow> (('u, 'wk, 's, 'c) world, ep_answer) prog" where
  "act_exec E (Create k params) = bind (endpoint_create E k params) (\<lambda>res. ret (Created res))"
| "act_exec E (On e act) = ep_exec E act e"

fun usable :: "ep_act \<Rightarrow> ('u, 'wk, 's, 'c) world \<Rightarrow> bool" where
  "usable (Create k params) w = (cells (workers w) k \<noteq> None)"
| "usable (On e act) w = (case states_of w (ep_inner e) of None \<Rightarrow> False | Some s \<Rightarrow> possible act s)"

fun act_allowed :: "ep_act \<Rightarrow> states \<Rightarrow> ep_answer \<Rightarrow> states \<Rightarrow> bool" where
  "act_allowed (Create k params) m ans m' = (\<exists>res. ans = Created res \<and> (case res of
       Inl err \<Rightarrow> m' = m
     | Inr e \<Rightarrow> m (ep_inner e) = None \<and> m' = m(ep_inner e \<mapsto> (1, Open))))"
| "act_allowed (On e act) m ans m' = (\<exists>s s'. m (ep_inner e) = Some s \<and> allowed act s ans s' \<and> m' = m(ep_inner e := s'))"

context ucx_library
begin

lemma act_refines:
  fixes w :: "('u, 'wk, 's, 'c) world"
  assumes own: "owns w R" and act: "usable act w"
  shows "does (act_exec E act) w (\<lambda>ans w'. (\<exists>R. owns w' R) \<and> act_allowed act (states_of w) ans (states_of w'))"
proof (cases act)
  case (On e op)
  with act obtain s where "states_of w (ep_inner e) = Some s" "possible op s" by (auto split: option.splits)
  with step_refines [OF own this] show ?thesis
    by (auto simp: On refines_def intro: does_mono)
next
  case (Create k params)
  with act obtain b where "cells (workers w) k = Some b" by auto
  then have held: "0 < worker_refs w R k"
    using counts_cell [OF owns_parts(4) [OF own]] by simp
  let ?a = "next_addr (inners w)"
  have new: "states_of w ?a = None"
    using owns_parts(7) [OF own] by (simp add: states_of_def heap_fresh_def)
  have "does (endpoint_create E k params) w (\<lambda>res w'. (\<exists>R. owns w' R) \<and>
      act_allowed (Create k params) (states_of w) (Created res) (states_of w'))"
  proof (rule does_mono [OF endpoint_create_owned [OF own held]], elim conjE)
    fix res :: "(Endpoint, Error) result" and w' :: "('u, 'wk, 's, 'c) world"
    assume same: "same_inners_but ?a w w'" and res: "case res of
       Inl _ \<Rightarrow> owns w' R \<and> cells (inners w') ?a = None
     | Inr e \<Rightarrow> ep_inner e = ?a \<and> owns w' (R\<lparr>r_endpoints := inc (ep_inner e) (r_endpoints R)\<rparr>)
         \<and> cells (inners w') (ep_inner e) = Some \<lparr>strong = 1, weak = 1, val = inner_new k\<rparr>"
    show "(\<exists>R. owns w' R) \<and> act_allowed (Create k params) (states_of w) (Created res) (states_of w')"
    proof (cases res)
      case (Inl err)
      then have "states_of w' ?a = states_of w ?a" using res new by (simp add: states_of_def)
      with states_but [OF same] res Inl show ?thesis by auto
    next
      case (Inr e)
      then have "cells (inners w') ?a = Some \<lparr>strong = 1, weak = 1, val = inner_new k\<rparr>" using res by auto
      then have "states_of w' ?a = Some (1, Open)"
        unfolding states_of_def by (simp add: connection_of_def inner_new_def)
      with states_but [OF same] res Inr new show ?thesis by auto
    qed
  qed
  then show ?thesis by (simp add: Create)
qed

end

text \<open>The runs of the code, those in which every operation is possible, and those that the specification allows.\<close>

fun ep_run :: "('u, 'wk) env \<Rightarrow> ep_act list \<Rightarrow> (('u, 'wk, 's, 'c) world, ep_answer list) prog" where
  "ep_run E [] = ret []"
| "ep_run E (act # acts) = bind (act_exec E act) (\<lambda>ans. bind (ep_run E acts) (\<lambda>answers. ret (ans # answers)))"

fun usable_run :: "('u, 'wk) env \<Rightarrow> ep_act list \<Rightarrow> ('u, 'wk, 's, 'c) world \<Rightarrow> bool" where
  "usable_run E [] w = True"
| "usable_run E (act # acts) w = (usable act w \<and> usable_run E acts (snd (act_exec E act w)))"

fun allowed_run :: "ep_act list \<Rightarrow> states \<Rightarrow> ep_answer list \<Rightarrow> states \<Rightarrow> bool" where
  "allowed_run [] m [] m' = (m' = m)"
| "allowed_run (act # acts) m (ans # answers) m'' = (\<exists>m'. act_allowed act m ans m' \<and> allowed_run acts m' answers m'')"
| "allowed_run _ _ _ _ = False"

text \<open>
  C10. The code of an endpoint implements its specification: every run of operations on endpoints (created, cloned, dropped, closed by
  force or not, asked for their state, told of errors, in any order, on any number of endpoints) in which each is used only
  while a clone of it exists (and errors are reported only to endpoints that are not shut, as the library, whatever else it
  answers, promises), returns, and its answers and successor states are those of the abstract machine:
  the first close that is complete, or the first drop of a clone, shuts the connection for all clones, a shut one stays so, an
  error of the peer is answered until then, and no operation touches another endpoint.
\<close>

theorem endpoint_refines:
  fixes w :: "('u, 'wk, 's, 'c) world"
  assumes "ucx_library E" "owns w R" "usable_run E acts w"
  shows "\<exists>answers w'. ep_run E acts w = (Ret answers, w') \<and> allowed_run acts (states_of w) answers (states_of w')"
  using assms(2,3)
proof (induction acts arbitrary: w R)
  case Nil
  then show ?case by (simp add: ret_def)
next
  case (Cons act acts)
  obtain ans v R' where step: "act_exec E act w = (Ret ans, v)" and R': "owns v R'"
    and v: "act_allowed act (states_of w) ans (states_of v)"
    using ucx_library.act_refines [OF assms(1) Cons.prems(1), of act] Cons.prems(2) by (auto simp: does_def)
  obtain answers w' where "ep_run E acts v = (Ret answers, w')" "allowed_run acts (states_of v) answers (states_of w')"
    using Cons.IH [OF R'] Cons.prems(2) step by auto
  then show ?case
    using step v by (auto simp: bind_def ret_def)
qed

lemma allowed_run_step:
  "allowed_run (act # acts) m answers m'' \<longleftrightarrow>
     (\<exists>ans rest m'. answers = ans # rest \<and> act_allowed act m ans m' \<and> allowed_run acts m' rest m'')"
  "allowed_run [] m answers m' \<longleftrightarrow> answers = [] \<and> m' = m"
  by (cases answers; auto)+

theorem endpoint_refines_witness:
  "\<exists>answers w'. ep_run (lawful_env Debug) [On demo_endpoint Cloned, On demo_endpoint (Reported 0 UCS_ERR_IO_ERROR), On demo_endpoint Asked_status,
       On demo_endpoint Dropped, On demo_endpoint Asked_closed] (mem demo_sys) = (Ret answers, w')
     \<and> answers = [No_answer, No_answer, Status_is (Err IoError), No_answer, Shut_is True]"
proof -
  let ?acts = "[On demo_endpoint Cloned, On demo_endpoint (Reported 0 UCS_ERR_IO_ERROR), On demo_endpoint Asked_status,
       On demo_endpoint Dropped, On demo_endpoint Asked_closed]"
  have start: "states_of (mem demo_sys) 0 = Some (2, Open)"
    by (simp add: demo_sys_eq machine_simps states_of_def connection_of_def)
  have "usable_run (lawful_env Debug) ?acts (mem demo_sys)"
    by (simp add: demo_sys_eq machine_simps states_of_def connection_of_def err_handler_def get_status_def inner_check_def
        endpoint_is_closed_def)
  from endpoint_refines [OF lawful.ucx_library_axioms demo_owns(1) this]
  obtain answers w' where "ep_run (lawful_env Debug) ?acts (mem demo_sys) = (Ret answers, w')"
    and "allowed_run ?acts (states_of (mem demo_sys)) answers (states_of w')"
    by blast
  with start show ?thesis
    by (auto simp: allowed_run_step)
qed

end
