(* ===== verification/Build.thy ===== *)
theory Build
  imports Prelude
begin

text \<open>
  The build script \<^verbatim>\<open>ucx1-sys/build.rs\<close>: it builds the C library from its sources, unless that has been
  done, tells Cargo how to link it, and generates the bindings. The operating system (files and
  processes) and bindgen are parameters; a process either cannot be started or ends with an exit code.
\<close>

section \<open>Files, processes and bindgen\<close>

text \<open>\<^verbatim>\<open>std::process::Command\<close>, with the arguments that the script sets.\<close>

record command =
  program :: string
  args :: "string list"
  current_dir :: "string option"

text \<open>The settings of \<^verbatim>\<open>bindgen::Builder\<close>.\<close>

record bindgen_config =
  clang_args :: "string list"
  headers :: "string list"
  cargo_callbacks :: bool
  allow_functions :: "string list"
  allow_vars :: "string list"
  allow_types :: "string list"
  rustified_enums :: "string list"
  bitfield_enums :: "string list"

record 'f os =
  path_exists :: "string \<Rightarrow> 'f \<Rightarrow> bool"
  run_command :: "command \<Rightarrow> 'f \<Rightarrow> int option \<times> 'f" \<comment> \<open>\<open>None\<close>: could not be started\<close>
  create_dir :: "string \<Rightarrow> 'f \<Rightarrow> 'f"
  run_bindgen :: "bindgen_config \<Rightarrow> 'f \<Rightarrow> string option"
  write_file :: "string \<Rightarrow> string \<Rightarrow> 'f \<Rightarrow> bool \<times> 'f"

record 'f build =
  files :: 'f
  commands :: "command list"
  stdout :: "string list"

text \<open>\<^verbatim>\<open>Path::join\<close> of a relative path.\<close>

definition path_join :: "string \<Rightarrow> string \<Rightarrow> string" where
  "path_join a b = (if a = [] \<or> last a = CHR ''/'' then a @ b else a @ ''/'' @ b)"

definition path_test :: "'f os \<Rightarrow> string \<Rightarrow> ('f build, bool) prog" where
  "path_test os p w = (Ret (path_exists os p (files w)), w)"

text \<open>\<^verbatim>\<open>Command::status\<close>: the exit code, or an error when the process could not be started.\<close>

definition status :: "'f os \<Rightarrow> command \<Rightarrow> ('f build, int option) prog" where
  "status os c w = (case run_command os c (files w) of
     (code, f) \<Rightarrow> (Ret code, w\<lparr>files := f, commands := commands w @ [c]\<rparr>))"

text \<open>\<^verbatim>\<open>.status().expect(..)\<close>, the exit code unused.\<close>

definition expect_status :: "'f os \<Rightarrow> command \<Rightarrow> ('f build, unit) prog" where
  "expect_status os c = bind (status os c) (\<lambda>code. case code of
       None \<Rightarrow> lift (Fault (Panic Unwrap_on_err))
     | Some _ \<Rightarrow> ret ())"

definition say :: "string \<Rightarrow> ('f build, unit) prog" where
  "say s = modify (\<lambda>w. w\<lparr>stdout := stdout w @ [s]\<rparr>)"

text \<open>\<^verbatim>\<open>env::var_os(..).unwrap()\<close> and \<^verbatim>\<open>env::var(..).unwrap()\<close>.\<close>

definition var_os :: "(string \<Rightarrow> string option) \<Rightarrow> string \<Rightarrow> ('f build, string) prog" where
  "var_os V x = lift (unwrap_option (V x))"

definition env_var :: "(string \<Rightarrow> string option) \<Rightarrow> string \<Rightarrow> ('f build, string) prog" where
  "env_var V x = lift (case V x of Some v \<Rightarrow> Ret v | None \<Rightarrow> Fault (Panic Unwrap_on_err))"

section \<open>The script\<close>

definition git_submodule :: command where
  "git_submodule = \<lparr>program = ''git'', args = [''submodule'', ''update'', ''--init''], current_dir = None\<rparr>"

definition copy_source :: "string \<Rightarrow> command" where
  "copy_source dst = \<lparr>program = ''cp'', args = [''-r'', ''ucx'', path_join dst ''ucx''], current_dir = None\<rparr>"

definition autogen :: "string \<Rightarrow> command" where
  "autogen dst = \<lparr>program = ''bash'', args = [''./autogen.sh''], current_dir = Some (path_join dst ''ucx'')\<rparr>"

definition configure :: "string \<Rightarrow> command" where
  "configure dst = \<lparr>program = ''bash'',
     args = [path_join dst ''ucx/contrib/configure-release'', ''--prefix='' @ dst],
     current_dir = Some (path_join dst ''build'')\<rparr>"

definition make :: "string \<Rightarrow> string \<Rightarrow> command" where
  "make dst jobs = \<lparr>program = ''make'', args = [''-j'' @ jobs], current_dir = Some (path_join dst ''build'')\<rparr>"

definition make_install :: "string \<Rightarrow> command" where
  "make_install dst = \<lparr>program = ''make'', args = [''install''], current_dir = Some (path_join dst ''build'')\<rparr>"

definition built_libraries :: "string list" where
  "built_libraries = [''lib/libuct.a'', ''lib/libucs.a'', ''lib/libucm.a'', ''lib/libucp.a'']"

text \<open>The chain of \<^verbatim>\<open>&&\<close>, which looks at one file after the other.\<close>

fun all_exist :: "'f os \<Rightarrow> string \<Rightarrow> string list \<Rightarrow> ('f build, bool) prog" where
  "all_exist os dst [] = ret True"
| "all_exist os dst (p # ps) = bind (path_test os (path_join dst p)) (\<lambda>found.
     if found then all_exist os dst ps else ret False)"

definition build_from_source :: "(string \<Rightarrow> string option) \<Rightarrow> 'f os \<Rightarrow> ('f build, unit) prog" where
  "build_from_source V os =
     bind (var_os V ''OUT_DIR'') (\<lambda>dst.
     bind (all_exist os dst built_libraries) (\<lambda>built.
       if built then ret ()
       else
         bind (path_test os ''ucx/.git'') (\<lambda>git.
         bind (if \<not> git then bind (status os git_submodule) (\<lambda>_. ret ()) else ret ()) (\<lambda>_.
         bind (modify (\<lambda>w. w\<lparr>files := create_dir os (path_join dst ''build'') (files w)\<rparr>)) (\<lambda>_.
         bind (path_test os (path_join dst ''ucx'')) (\<lambda>copied.
         bind (if \<not> copied then bind (status os (copy_source dst)) (\<lambda>_. ret ()) else ret ()) (\<lambda>_.
         bind (expect_status os (autogen dst)) (\<lambda>_.
         bind (expect_status os (configure dst)) (\<lambda>_.
         bind (env_var V ''NUM_JOBS'') (\<lambda>jobs.
         bind (expect_status os (make dst jobs)) (\<lambda>_.
           expect_status os (make_install dst))))))))))))"

definition bindings_config :: "string \<Rightarrow> bindgen_config" where
  "bindings_config dst = \<lparr>
     clang_args = [''-I'' @ path_join dst ''include''],
     headers = [''wrapper.h''],
     cargo_callbacks = True,
     allow_functions = [''uc[tsmp]_.*''],
     allow_vars = [''uc[tsmp]_.*'', ''UC[TSMP]_.*''],
     allow_types = [''uc[tsmp]_.*''],
     rustified_enums = [''.*''],
     bitfield_enums = [''ucp_feature'', ''.*_field'', ''.*_flags(_t)?'']\<rparr>"

definition build_main :: "(string \<Rightarrow> string option) \<Rightarrow> 'f os \<Rightarrow> ('f build, unit) prog" where
  "build_main V os =
     bind (var_os V ''OUT_DIR'') (\<lambda>dst.
     bind (say (''cargo:rustc-link-search=native='' @ dst @ ''/lib'')) (\<lambda>_.
     bind (say ''cargo:rustc-link-lib=ucp'') (\<lambda>_.
     bind (say ''cargo:rerun-if-changed=wrapper.h'') (\<lambda>_.
     bind (build_from_source V os) (\<lambda>_.
     bind (\<lambda>w. (case run_bindgen os (bindings_config dst) (files w) of
              None \<Rightarrow> (Fault (Panic Unwrap_on_err), w)
            | Some b \<Rightarrow> (Ret b, w))) (\<lambda>bindings.
     bind (env_var V ''OUT_DIR'') (\<lambda>out_path w.
       case write_file os (path_join out_path ''bindings.rs'') bindings (files w) of
         (written, f) \<Rightarrow> (if written then Ret () else Fault (Panic Unwrap_on_err), w\<lparr>files := f\<rparr>))))))))"

section \<open>Properties\<close>

lemma all_exist_eq:
  "all_exist os dst ps w = (Ret (\<forall>p\<in>set ps. path_exists os (path_join dst p) (files w)), w)"
  by (induction ps) (simp_all add: bind_def path_test_def ret_def)

text \<open>The commands that are run whenever the library has not been built.\<close>

definition build_steps :: "string \<Rightarrow> string \<Rightarrow> command list" where
  "build_steps dst jobs = [autogen dst, configure dst, make dst jobs, make_install dst]"

definition already_built :: "'f os \<Rightarrow> string \<Rightarrow> 'f \<Rightarrow> bool" where
  "already_built os dst f \<longleftrightarrow> (\<forall>p\<in>set built_libraries. path_exists os (path_join dst p) f)"

lemma build_stages: "build_from_source V os w = (case V ''OUT_DIR'' of
    None \<Rightarrow> (Fault (Panic Unwrap_on_none), w)
  | Some dst \<Rightarrow> if already_built os dst (files w) then (Ret (), w) else
      bind (if \<not> path_exists os ''ucx/.git'' (files w) then bind (status os git_submodule) (\<lambda>_. ret ()) else ret ()) (\<lambda>_.
      bind (modify (\<lambda>w. w\<lparr>files := create_dir os (path_join dst ''build'') (files w)\<rparr>)) (\<lambda>_.
      bind (path_test os (path_join dst ''ucx'')) (\<lambda>copied.
      bind (if \<not> copied then bind (status os (copy_source dst)) (\<lambda>_. ret ()) else ret ()) (\<lambda>_.
      bind (expect_status os (autogen dst)) (\<lambda>_.
      bind (expect_status os (configure dst)) (\<lambda>_.
      bind (env_var V ''NUM_JOBS'') (\<lambda>jobs.
      bind (expect_status os (make dst jobs)) (\<lambda>_.
        expect_status os (make_install dst))))))))) w)"
  by (auto simp: build_from_source_def var_os_def already_built_def bind_def [of "all_exist os _ _"] all_exist_eq
      bind_def [of "path_test os ''ucx/.git''"] path_test_def ret_def lift_def bind_def [of "lift (Fault _)"]
      split: option.split)

lemma expect_status_started:
  assumes "fst (run_command os c (files w)) \<noteq> None"
  shows "expect_status os c w = (Ret (), w\<lparr>files := snd (run_command os c (files w)), commands := commands w @ [c]\<rparr>)"
  using assms by (auto simp: expect_status_def status_def bind_def ret_def split: prod.split)

lemma optional_status:
  obtains f cs where "(if b then bind (status os c) (\<lambda>_. ret ()) else ret ()) w = (Ret (), w\<lparr>files := f, commands := commands w @ cs\<rparr>)"
    "set cs \<subseteq> {c}"
proof (cases b)
  case True
  with that [of "[c]" "snd (run_command os c (files w))"] show ?thesis
    by (simp add: status_def bind_def ret_def split: prod.splits)
next
  case False
  with that [of "[]" "files w"] show ?thesis by (simp add: ret_def)
qed

lemma bind_modify: "bind (modify g) k v = k () (g v)"
  by (simp add: bind_def modify_def)

lemma bind_path_test: "bind (path_test os p) k v = k (path_exists os p (files v)) v"
  by (simp add: bind_def path_test_def)

lemma build_runs:
  assumes started: "\<forall>c f. fst (run_command os c f) \<noteq> None"
    and vars: "V ''OUT_DIR'' = Some dst" "V ''NUM_JOBS'' = Some jobs"
    and missing: "\<not> already_built os dst (files w)"
  shows "\<exists>pre f. build_from_source V os w =
      (Ret (), w\<lparr>files := f, commands := commands w @ pre @ build_steps dst jobs\<rparr>)
    \<and> set pre \<subseteq> {git_submodule, copy_source dst}"
proof -
  obtain f1 cs1 where git: "(if \<not> path_exists os ''ucx/.git'' (files w)
        then bind (status os git_submodule) (\<lambda>_. ret ()) else ret ()) w
      = (Ret (), w\<lparr>files := f1, commands := commands w @ cs1\<rparr>)" "set cs1 \<subseteq> {git_submodule}"
    by (rule optional_status)
  let ?w1 = "w\<lparr>files := create_dir os (path_join dst ''build'') f1, commands := commands w @ cs1\<rparr>"
  obtain f2 cs2 where copy: "(if \<not> path_exists os (path_join dst ''ucx'') (files ?w1)
        then bind (status os (copy_source dst)) (\<lambda>_. ret ()) else ret ()) ?w1
      = (Ret (), ?w1\<lparr>files := f2, commands := commands ?w1 @ cs2\<rparr>)" "set cs2 \<subseteq> {copy_source dst}"
    by (rule optional_status)
  have step: "expect_status os c v = (Ret (), v\<lparr>files := snd (run_command os c (files v)), commands := commands v @ [c]\<rparr>)" for c v
    using started expect_status_started by blast
  have four: "\<exists>f. bind (expect_status os (autogen dst)) (\<lambda>_. bind (expect_status os (configure dst)) (\<lambda>_.
      bind (env_var V ''NUM_JOBS'') (\<lambda>jobs. bind (expect_status os (make dst jobs)) (\<lambda>_.
        expect_status os (make_install dst))))) v = (Ret (), v\<lparr>files := f, commands := commands v @ build_steps dst jobs\<rparr>)" for v
    by (intro exI) (simp add: bind_def step env_var_def vars lift_def build_steps_def)
  have "\<exists>f. build_from_source V os w = (Ret (), w\<lparr>files := f, commands := commands w @ (cs1 @ cs2) @ build_steps dst jobs\<rparr>)"
    unfolding build_stages vars(1) option.case if_not_P [OF missing]
  proof (subst bind_Ret_eq, rule git(1), unfold bind_modify bind_path_test)
    let ?w2 = "w\<lparr>files := f1, commands := commands w @ cs1\<rparr>"
    have same: "?w2\<lparr>files := create_dir os (path_join dst ''build'') (files ?w2)\<rparr> = ?w1" by simp
    show "\<exists>f. bind (if \<not> path_exists os (path_join dst ''ucx'') (files (?w2\<lparr>files := create_dir os (path_join dst ''build'') (files ?w2)\<rparr>))
         then bind (status os (copy_source dst)) (\<lambda>_. ret ()) else ret ())
       (\<lambda>_. bind (expect_status os (autogen dst)) (\<lambda>_. bind (expect_status os (configure dst)) (\<lambda>_.
      bind (env_var V ''NUM_JOBS'') (\<lambda>jobs. bind (expect_status os (make dst jobs)) (\<lambda>_.
        expect_status os (make_install dst)))))) (?w2\<lparr>files := create_dir os (path_join dst ''build'') (files ?w2)\<rparr>) =
       (Ret (), w\<lparr>files := f, commands := commands w @ (cs1 @ cs2) @ build_steps dst jobs\<rparr>)"
      unfolding same
      by (subst bind_Ret_eq, rule copy(1)) (use four [of "?w1\<lparr>files := f2, commands := commands ?w1 @ cs2\<rparr>"] in simp)
  qed
  moreover have "set (cs1 @ cs2) \<subseteq> {git_submodule, copy_source dst}"
    using git(2) copy(2) by auto
  ultimately show ?thesis by blast
qed


text \<open>A machine on which every program ends with exit code 1 and nothing is ever built.\<close>

definition broken_os :: "unit os" where
  "broken_os = \<lparr>path_exists = (\<lambda>_ _. False), run_command = (\<lambda>_ f. (Some 1, f)), create_dir = (\<lambda>_ f. f),
     run_bindgen = (\<lambda>_ _. Some []), write_file = (\<lambda>_ _ f. (True, f))\<rparr>"

definition cargo_vars :: "string \<Rightarrow> string option" where
  "cargo_vars = [''OUT_DIR'' \<mapsto> ''out'', ''NUM_JOBS'' \<mapsto> ''8'']"


text \<open>A program that cannot be started does stop the build, with a panic.\<close>

lemma unstartable_step_panics:
  assumes "run_command os (autogen dst) = (\<lambda>f. (None, f))" "V ''OUT_DIR'' = Some dst"
    and "\<not> already_built os dst (files w)"
  shows "fst (build_from_source V os w) = Fault (Panic Unwrap_on_err)"
proof -
  have autogen: "expect_status os (autogen dst) v = (Fault (Panic Unwrap_on_err), v\<lparr>commands := commands v @ [autogen dst]\<rparr>)" for v
    by (simp add: expect_status_def status_def bind_def lift_def assms(1))
  have optional: "fst ((if b then bind (status os c) (\<lambda>_. ret ()) else ret ()) v) = Ret ()" for b c v
    by (rule optional_status [of b os c v]) simp
  show ?thesis
    using assms(2,3) optional [of "\<not> path_exists os ''ucx/.git'' (files w)" git_submodule w]
    by (auto simp: build_stages bind_def modify_def path_test_def autogen status_def ret_def
        split: prod.split outcome.split)
qed

end
