(* ===== verification/Clients.thy ===== *)
theory Clients
  imports Futures
begin

text \<open>
  Client programs: what the examples of the repository share. A client runs on a host (its sockets,
  its memory, its Cargo features); it unwraps what the operations return, so it may panic, and the
  theorems about it say what holds when it does not: partial correctness, but for the faults that no
  safe client may run into.
\<close>

section \<open>The host\<close>

text \<open>
  What a client uses beyond the crate: \<^verbatim>\<open>str::parse\<close> to a socket address, the conversion of a queried
  address, the bytes that are in its memory (the library's state knows them; \<open>None\<close>: never written),
  the addresses of its local buffers, and the Cargo feature \<^verbatim>\<open>am\<close>.
\<close>

record ('u, 'addr) host =
  parse_socket :: "string \<Rightarrow> u8 list option"
  as_socket :: "u64 \<Rightarrow> 'addr option"
  memory :: "'u \<Rightarrow> handle \<Rightarrow> u8 option"
  local_buf :: "nat \<Rightarrow> handle"
  am_feature :: bool

definition unwrapped :: "('w, ('a, 'e) result) prog \<Rightarrow> ('w, 'a) prog" where
  "unwrapped m = bind m (\<lambda>res. lift (unwrap res))"

definition parsed :: "('u, 'addr) host \<Rightarrow> string \<Rightarrow> ('w, u8 list) prog" where
  "parsed H s = lift (case parse_socket H s of Some a \<Rightarrow> Ret a | None \<Rightarrow> Fault (Panic Unwrap_on_err))"

text \<open>An uninitialised local array \<^verbatim>\<open>[MaybeUninit::uninit(); n]\<close>, of which only address and length count.\<close>

definition uninit :: "handle \<Rightarrow> nat \<Rightarrow> slice" where
  "uninit a n = \<lparr>as_ptr = a, contents = replicate n 0\<rparr>"

text \<open>
  \<^verbatim>\<open>transmute(&buf[..len])\<close>: the slice index panics beyond the length of the buffer, and reading a byte
  that was never written is undefined.
\<close>

definition read_bytes :: "('u, 'addr) host \<Rightarrow> handle \<Rightarrow> nat \<Rightarrow> (('u, 'wk, 's, 'c) world, u8 list) prog" where
  "read_bytes H a n w = (case those (map (\<lambda>i. memory H (lib w) (a + word_of_nat i)) [0..<n]) of
       Some bs \<Rightarrow> (Ret bs, w)
     | None \<Rightarrow> (Fault (Undefined Uninit_read), w))"

definition read_prefix :: "('u, 'addr) host \<Rightarrow> slice \<Rightarrow> usize \<Rightarrow> (('u, 'wk, 's, 'c) world, u8 list) prog" where
  "read_prefix H buf len =
     (if length (contents buf) < unat len then lift (Fault (Panic Slice_index))
      else read_bytes H (as_ptr buf) (unat len))"

text \<open>\<^verbatim>\<open>assert_eq!\<close>.\<close>

definition assert_that :: "bool \<Rightarrow> ('w, unit) prog" where
  "assert_that b = lift (if b then Ret () else Fault (Panic Assertion_failed))"

section \<open>Words as bytes\<close>

text \<open>\<^verbatim>\<open>u64::to_ne_bytes\<close> and \<^verbatim>\<open>u64::from_ne_bytes\<close> on a little-endian target.\<close>

definition to_ne_bytes :: "u64 \<Rightarrow> u8 list" where
  "to_ne_bytes x = map (\<lambda>i. ucast (drop_bit (8 * i) x)) [0..<8]"

definition from_ne_bytes :: "u8 list \<Rightarrow> u64" where
  "from_ne_bytes bs = foldr (\<lambda>b acc. push_bit 8 acc OR ucast b) bs 0"

lemma length_to_ne_bytes [simp]: "length (to_ne_bytes x) = 8"
  by (simp add: to_ne_bytes_def)

lemma from_bytes_of:
  fixes x :: u64
  shows "from_ne_bytes (map (\<lambda>i. ucast (drop_bit (8 * i) x)) [k..<k + n]) = take_bit (8 * n) (drop_bit (8 * k) x)"
proof (induction n arbitrary: k)
  case 0
  then show ?case by (simp add: from_ne_bytes_def)
next
  case (Suc n)
  have "[k..<k + Suc n] = k # [Suc k..<Suc k + n]" by (simp add: upt_rec)
  then have "from_ne_bytes (map (\<lambda>i. ucast (drop_bit (8 * i) x)) [k..<k + Suc n]) =
      push_bit 8 (take_bit (8 * n) (drop_bit (8 * Suc k) x)) OR ucast (ucast (drop_bit (8 * k) x) :: u8)"
    using Suc.IH [of "Suc k"] by (simp add: from_ne_bytes_def)
  also have "\<dots> = take_bit (8 * Suc n) (drop_bit (8 * k) x)"
  proof (rule bit_word_eqI)
    fix m assume "m < LENGTH(64)"
    then show "bit (push_bit 8 (take_bit (8 * n) (drop_bit (8 * Suc k) x)) OR ucast (ucast (drop_bit (8 * k) x) :: u8)) m
        = bit (take_bit (8 * Suc n) (drop_bit (8 * k) x)) m"
      by (cases "m < 8") (auto simp: bit_simps)
  qed
  finally show ?case .
qed

lemma from_to_ne_bytes: "from_ne_bytes (to_ne_bytes x) = x"
  using from_bytes_of [of x 0 8] by (simp add: to_ne_bytes_def take_bit_word_eq_self)

section \<open>Partial correctness of clients\<close>

fun memory_fault :: "fault \<Rightarrow> bool" where
  "memory_fault (Undefined Dangling_pointer) = True"
| "memory_fault (Undefined Invalid_discriminant) = True"
| "memory_fault _ = False"

definition safely :: "('w, 'a) prog \<Rightarrow> 'w \<Rightarrow> ('a \<Rightarrow> 'w \<Rightarrow> bool) \<Rightarrow> bool" where
  "safely m w Q \<longleftrightarrow> (case m w of
       (Ret x, w') \<Rightarrow> Q x w'
     | (Fault f, _) \<Rightarrow> \<not> memory_fault f
     | (Unfinished, _) \<Rightarrow> True)"

lemma safely_ret [simp]: "safely (ret x) w Q \<longleftrightarrow> Q x w"
  by (simp add: safely_def ret_def)

lemma safely_lift: "safely (lift r) w Q \<longleftrightarrow> (case r of Ret x \<Rightarrow> Q x w | Fault f \<Rightarrow> \<not> memory_fault f | Unfinished \<Rightarrow> True)"
  by (simp add: safely_def lift_def split: outcome.split)

lemma safely_modify [simp]: "safely (modify f) w Q \<longleftrightarrow> Q () (f w)"
  by (simp add: safely_def modify_def)

lemma safely_bind_iff: "safely (bind m f) w Q \<longleftrightarrow> safely m w (\<lambda>x v. safely (f x) v Q)"
  by (simp add: safely_def bind_def split: prod.split outcome.split)

lemma safely_mono: "safely m w P \<Longrightarrow> (\<And>x v. P x v \<Longrightarrow> Q x v) \<Longrightarrow> safely m w Q"
  by (auto simp: safely_def split: prod.splits outcome.splits)

lemma safely_bind: "safely m w P \<Longrightarrow> (\<And>x v. P x v \<Longrightarrow> safely (f x) v Q) \<Longrightarrow> safely (bind m f) w Q"
  unfolding safely_bind_iff by (rule safely_mono)

lemma does_safely: "does m w Q \<Longrightarrow> safely m w Q"
  by (auto simp: does_def safely_def)

lemma safely_unwrap [simp]: "safely (lift (unwrap res)) w Q \<longleftrightarrow> (\<forall>x. res = Ok x \<longrightarrow> Q x w)"
  by (cases res) (simp_all add: safely_lift)

lemma safely_unwrapped: "safely m w (\<lambda>res v. \<forall>x. res = Ok x \<longrightarrow> Q x v) \<Longrightarrow> safely (unwrapped m) w Q"
  unfolding unwrapped_def safely_bind_iff by simp

lemma safely_parsed [simp]: "safely (parsed H s) w Q \<longleftrightarrow> (\<forall>a. parse_socket H s = Some a \<longrightarrow> Q a w)"
  by (simp add: parsed_def safely_lift split: option.split)

lemma safely_assert [simp]: "safely (assert_that b) w Q \<longleftrightarrow> (b \<longrightarrow> Q () w)"
  by (simp add: assert_that_def safely_lift)

lemma safely_read: "safely (read_bytes H a n) w (\<lambda>bs v. v = w \<and> length bs = n)"
proof -
  have "length bs = length xs" if "those xs = Some bs" for xs :: "u8 option list" and bs
    using that by (induction xs arbitrary: bs) (auto split: option.splits)
  then show ?thesis
    by (auto simp: safely_def read_bytes_def split: option.split)
qed

lemma safely_prefix: "safely (read_prefix H buf len) w (\<lambda>bs v. v = w \<and> length bs = unat len)"
  using safely_read by (auto simp: read_prefix_def safely_lift)

section \<open>What the steps of a client keep\<close>

text \<open>
  The requests that the library hands out are objects that it has initialised: it does that when it
  allocates the memory of its requests (the assumption \<open>requests_ready\<close>). \<open>holds\<close>: the references are
  those that \<open>R\<close> and \<open>L\<close> count, and each worker has one stream for an id.
\<close>

definition handed_out :: "('u, 'wk) env \<Rightarrow> handle set" where
  "handed_out E = {p. p \<noteq> 0 \<and> \<not> UCS_PTR_IS_ERR (binds E) p \<and> (\<exists>c u. p = ptr_of (fst (ucx E c u)))}"

definition requests_ready :: "('u, 'wk) env \<Rightarrow> ('u, 'wk, 's, 'c) world \<Rightarrow> bool" where
  "requests_ready E w \<longleftrightarrow> (\<forall>p\<in>handed_out E. reqs w p \<noteq> None)"

definition holds :: "('u, 'wk) env \<Rightarrow> refs \<Rightarrow> (nat \<Rightarrow> nat) \<Rightarrow> ('u, 'wk, 's, 'c) world \<Rightarrow> bool" where
  "holds E R L w \<longleftrightarrow> owns w R \<and> channels_ok w L \<and> requests_ready E w \<and> maps_ok w"

text \<open>What the other tasks do between two polls: they keep what the client holds.\<close>

definition steady :: "('u, 'wk) env \<Rightarrow> ('u, 'wk, 's, 'c) world executor \<Rightarrow> bool" where
  "steady E X \<longleftrightarrow> (\<forall>w R L. holds E R L w \<longrightarrow> holds E R L (x_others X w))"

lemma holdsI: "owns w R \<Longrightarrow> channels_ok w L \<Longrightarrow> requests_ready E w \<Longrightarrow> maps_ok w \<Longrightarrow> holds E R L w"
  by (simp add: holds_def)

lemma holds_call [simp]: "holds E R L (after_call E c w) = holds E R L w"
  by (simp add: holds_def after_call_def channels_ok_def requests_ready_def maps_ok_def)

lemma holds_waker [simp]: "holds E R L w \<Longrightarrow> holds E R L (w\<lparr>reqs := (reqs w)(p \<mapsto> a)\<rparr>)"
  by (auto simp: holds_def channels_ok_def requests_ready_def maps_ok_def)

lemma keeps_ready:
  assumes "\<And>p. keeps (\<lambda>w. reqs w p \<noteq> None) m" "requests_ready E w"
  shows "requests_ready E (snd (m w))"
  using assms by (auto simp: requests_ready_def keeps_def)

text \<open>An operation that keeps ownership, leaves the channels alone and the requests initialised.\<close>

lemma safely_owned:
  assumes "does m w Q" "holds E R L w"
    and "\<And>ch. keeps (\<lambda>w. channels w = ch) m" "\<And>p. keeps (\<lambda>w. reqs w p \<noteq> None) m" "keeps maps_ok m"
    and "\<And>x v. Q x v \<Longrightarrow> owns v (S x) \<and> (holds E (S x) L v \<longrightarrow> P x v)"
  shows "safely m w P"
proof -
  obtain x v where run: "m w = (Ret x, v)" "Q x v"
    using assms(1) by (auto simp: does_def)
  have "channels v = channels w"
    using keepsD [OF assms(3) [of "channels w"], of w] run(1) by simp
  moreover have "requests_ready E v"
    using keeps_ready [OF assms(4), of E w] assms(2) run(1) by (simp add: holds_def)
  moreover have "maps_ok v"
    using keepsD [OF assms(5), of w] assms(2) run(1) by (simp add: holds_def)
  ultimately show ?thesis
    using run assms(2,6) by (simp add: safely_def holds_def channels_ok_def)
qed

lemma held_context: "0 < r_contexts R c \<Longrightarrow> 0 < context_refs w R c"
  and held_worker: "0 < r_workers R k \<Longrightarrow> 0 < worker_refs w R k"
  by (simp_all add: context_refs_def worker_refs_def)

named_theorems client_rules \<open>partial correctness of the operations a client calls\<close>

lemma safely_from_status [simp]:
  "safely (lift (from_status p s)) w Q \<longleftrightarrow> Q (if s = UCS_OK then Ok () else Err (error_of_status s)) w"
  by (simp add: safely_lift)

lemma safely_assume_init [simp]: "safely (lift (assume_init x)) w Q \<longleftrightarrow> (\<forall>y. x = Some y \<longrightarrow> Q y w)"
  by (cases x) (simp_all add: safely_lift)

lemma safely_assert_ok [simp]: "safely (lift (assert_ok s)) w Q \<longleftrightarrow> (s = UCS_OK \<longrightarrow> Q () w)"
  by (simp add: safely_lift assert_ok_def)

lemma safely_unwrap_option [simp]: "safely (lift (unwrap_option x)) w Q \<longleftrightarrow> (\<forall>y. x = Some y \<longrightarrow> Q y w)"
  by (cases x) (simp_all add: safely_lift)

lemmas kept = chans.operations_kept initialised.operations_kept maps.operations_kept
  chans.primitives_kept initialised.primitives_kept maps.primitives_kept
  chans.calls_kept initialised.calls_kept maps.calls_kept

context ucx_library
begin

lemma safely_context_drop:
  fixes w :: "('u, 'wk, 'q, 'n, 'c) full_world"
  assumes "holds E R L w" "0 < r_contexts R c"
  shows "safely (context_drop E c) w (\<lambda>_. holds E (R\<lparr>r_contexts := dec c (r_contexts R)\<rparr>) L)"
  by (rule safely_owned [OF context_drop_owned [of w R c E] assms(1)])
    (use assms in \<open>auto simp: holds_def kept simp del: not_None_eq\<close>)

lemma safely_worker_drop:
  fixes w :: "('u, 'wk, 'q, 'n, 'c) full_world"
  assumes "holds E R L w" "0 < r_workers R k"
  shows "safely (worker_drop E k) w (\<lambda>_. holds E (R\<lparr>r_workers := dec k (r_workers R)\<rparr>) L)"
  by (rule safely_owned [OF worker_drop_owned [of w R k E] assms(1)])
    (use assms in \<open>auto simp: holds_def kept simp del: not_None_eq\<close>)

lemma safely_worker_clone:
  fixes w :: "('u, 'wk, 'q, 'n, 'c) full_world"
  assumes "holds E R L w" "0 < r_workers R k"
  shows "safely (worker_clone k) w (\<lambda>_. holds E (R\<lparr>r_workers := inc k (r_workers R)\<rparr>) L)"
  by (rule safely_owned [OF worker_clone_owned [of w R k] assms(1)])
    (use assms held_worker in \<open>auto simp: holds_def kept simp del: not_None_eq\<close>)

lemma safely_worker_new:
  fixes w :: "('u, 'wk, 'q, 'n, 'c) full_world"
  assumes "holds E R L w" "0 < r_contexts R c"
  shows "safely (unwrapped (create_worker E c)) w (\<lambda>k. holds E (R\<lparr>r_workers := inc k (r_workers R)\<rparr>) L)"
  unfolding create_worker_def
  by (rule safely_unwrapped, rule safely_owned [OF worker_new_owned [of w R c] assms(1),
        where S = "\<lambda>res. case res of Inl _ \<Rightarrow> R | Inr k \<Rightarrow> R\<lparr>r_workers := inc k (r_workers R)\<rparr>"])
    (use assms held_context in \<open>auto simp: holds_def kept simp del: not_None_eq split: sum.splits\<close>)

lemma safely_endpoint_drop:
  fixes w :: "('u, 'wk, 'q, 'n, 'c) full_world"
  assumes "holds E R L w" "0 < r_endpoints R (ep_inner e)"
  shows "safely (endpoint_drop E e) w (\<lambda>_. holds E (R\<lparr>r_endpoints := dec (ep_inner e) (r_endpoints R)\<rparr>) L)"
  by (rule safely_owned [OF endpoint_drop_owned [of w R e] assms(1)])
    (use assms in \<open>auto simp: holds_def kept simp del: not_None_eq\<close>)

lemma safely_endpoint_create:
  fixes w :: "('u, 'wk, 'q, 'n, 'c) full_world"
  assumes "holds E R L w" "0 < r_workers R k"
  shows "safely (endpoint_create E k params) w (\<lambda>res v. case res of
      Inl _ \<Rightarrow> holds E R L v
    | Inr e \<Rightarrow> holds E (R\<lparr>r_endpoints := inc (ep_inner e) (r_endpoints R)\<rparr>) L v)"
  by (rule safely_owned [OF endpoint_create_owned [of w R k] assms(1),
        where S = "\<lambda>res. case res of Inl _ \<Rightarrow> R | Inr e \<Rightarrow> R\<lparr>r_endpoints := inc (ep_inner e) (r_endpoints R)\<rparr>"])
    (use assms held_worker in \<open>auto simp: holds_def kept simp del: not_None_eq split: sum.splits\<close>)

lemma safely_ffi:
  "holds E R L w \<Longrightarrow> safely (ffi E c) w (\<lambda>r v. r = fst (ucx E c (lib w)) \<and> v = after_call E c w \<and> holds E R L v)"
  by (simp add: safely_def ffi_after)

lemma safely_context_new:
  fixes w :: "('u, 'wk, 'q, 'n, 'c) full_world"
  assumes "holds E R L w"
  shows "safely (unwrapped (context_new E am)) w (\<lambda>c. holds E (R\<lparr>r_contexts := inc c (r_contexts R)\<rparr>) L)"
  unfolding context_new_def unwrapped_def bind_assoc
proof (rule safely_bind)
  show "safely (config_default E) w (\<lambda>_. holds E R L)"
    unfolding config_default_def
    by (rule safely_bind [OF safely_ffi [OF assms]])
      (auto simp: safely_bind_iff)
next
  fix cfg and v :: "('u, 'wk, 'q, 'n, 'c) full_world" assume v: "holds E R L v"
  show "safely (bind (context_new_with_config E am cfg) (\<lambda>res. bind (config_drop E cfg) (\<lambda>_. bind (ret res) (\<lambda>res. lift (unwrap res))))) v
    (\<lambda>c. holds E (R\<lparr>r_contexts := inc c (r_contexts R)\<rparr>) L)"
  proof (rule safely_bind)
    show "safely (context_new_with_config E am cfg) v (\<lambda>res. holds E (case res of Inl _ \<Rightarrow> R
       | Inr c \<Rightarrow> R\<lparr>r_contexts := inc c (r_contexts R)\<rparr>) L)"
      by (rule safely_owned [OF context_new_owned [of v R] v,
            where S = "\<lambda>res. case res of Inl _ \<Rightarrow> R | Inr c \<Rightarrow> R\<lparr>r_contexts := inc c (r_contexts R)\<rparr>"])
        (use v in \<open>auto simp: holds_def kept simp del: not_None_eq split: sum.splits\<close>)
  next
    fix res and u :: "('u, 'wk, 'q, 'n, 'c) full_world"
    assume u: "holds E (case res of Inl _ \<Rightarrow> R | Inr c \<Rightarrow> R\<lparr>r_contexts := inc c (r_contexts R)\<rparr>) L u"
    show "safely (bind (config_drop E cfg) (\<lambda>_. bind (ret res) (\<lambda>res. lift (unwrap res)))) u
      (\<lambda>c. holds E (R\<lparr>r_contexts := inc c (r_contexts R)\<rparr>) L)"
      unfolding config_drop_def bind_assoc
      by (rule safely_bind [OF safely_ffi [OF u]]) (use u in auto)
  qed
qed
end

section \<open>Waiting\<close>

definition calm_test :: "(('u, 'wk, 's, 'c) world, 'a) prog \<Rightarrow> bool" where
  "calm_test m \<longleftrightarrow> lib_test m \<and> (\<forall>w. safely m w (\<lambda>_ _. True))"

lemma safely_query [simp]: "safely (query E c) w Q \<longleftrightarrow> Q (fst (ucx E c (lib w))) w"
  by (simp add: safely_def query_def)

lemma safely_from_error [simp]: "s \<noteq> UCS_OK \<Longrightarrow> safely (lift (from_error p s)) w Q \<longleftrightarrow> Q (error_of_status s) w"
  by (simp add: safely_lift from_error_def)

lemma calm_tests: "calm_test (poll_normal E p)" "calm_test (poll_stream E p)" "calm_test (poll_tag E p)"
  unfolding calm_test_def
  by (simp_all, simp_all add: poll_normal_def poll_stream_def poll_tag_def safely_bind_iff)

lemma safely_test:
  assumes "calm_test m"
  shows "safely m w (\<lambda>_ v. v = w)"
proof -
  have "snd (m w) = w" using assms lib_test_pair [of m w] unfolding calm_test_def by (metis snd_conv)
  with assms show ?thesis
    by (auto simp: calm_test_def safely_def split: prod.splits outcome.splits)
qed

lemma safely_poll:
  assumes "calm_test (f p)" "holds E R L w" "p \<in> handed_out E"
  shows "safely (request_poll E f p t) w (\<lambda>_. holds E R L)"
  unfolding request_poll_def
proof (rule safely_bind [OF safely_test [OF assms(1)]])
  fix r v assume "v = w"
  obtain a where "reqs w p = Some a" using assms(2,3) by (auto simp: holds_def requests_ready_def)
  then have "safely (register_waker E p t) w (\<lambda>_. holds E R L)"
    using assms(2) by (simp add: safely_def register_waker_def)
  then have "safely (bind (register_waker E p t) (\<lambda>_. f p)) w (\<lambda>_. holds E R L)"
    by (rule safely_bind) (auto intro: safely_mono [OF safely_test [OF assms(1)]])
  with assms(2) \<open>v = w\<close> show "safely (case r of Ready x \<Rightarrow> ret (Ready x)
      | Pending \<Rightarrow> bind (register_waker E p t) (\<lambda>_. f p)) v (\<lambda>_. holds E R L)"
    by (simp split: poll.split)
qed

lemma safely_await:
  fixes w :: "('u, 'wk, 's, 'c) world" and X :: "('u, 'wk, 's, 'c) world executor"
  assumes "calm_test (f p)" "steady E X" "p \<in> handed_out E" "holds E R L w"
  shows "safely (await_ptr E X f p) w (\<lambda>_. holds E R L)"
proof -
  have "safely (await_request E f p (x_task X) (x_others X) n) w (\<lambda>_. holds E R L)" for n
    using assms(4)
  proof (induction n arbitrary: w)
    case 0
    then show ?case by (simp add: safely_lift)
  next
    case (Suc n)
    show ?case
      unfolding await_request.simps
    proof (rule safely_bind [OF safely_poll [where f = f, OF assms(1) Suc.prems assms(3)]])
      fix r and v :: "('u, 'wk, 's, 'c) world" assume v: "holds E R L v"
      have "holds E R L (x_others X v)" using assms(2) v by (simp add: steady_def)
      with Suc.IH v show "safely (case r of Ready x \<Rightarrow> bind (request_drop E p) (\<lambda>_. ret x)
          | Pending \<Rightarrow> bind (modify (x_others X)) (\<lambda>_. await_request E f p (x_task X) (x_others X) n)) v (\<lambda>_. holds E R L)"
        by (auto simp: request_drop_def safely_bind_iff safely_def [of "ffi _ _"] ffi_after split: poll.split)
    qed
  qed
  then show ?thesis by (simp add: await_ptr_def)
qed

lemma safely_get_handle:
  assumes "holds E R L w" "0 < r_endpoints R (ep_inner e)"
  shows "safely (get_handle E e) w (\<lambda>_ v. v = w)"
proof -
  have own: "owns w R" using assms(1) by (simp add: holds_def)
  obtain b where b: "cells (inners w) (ep_inner e) = Some b" "0 < strong b"
    using own assms(2) by (rule owned_inner)
  show ?thesis
    by (simp add: get_handle_def safely_def try_bind_def bind_def inner_reads(2) [OF b] from_status_def from_error_def ret_def)
qed

text \<open>The endings of an operation on a pointer that the library has returned.\<close>

context ucx_library
begin

lemma safely_status_ptr:
  assumes "ptr = ptr_of (fst (ucx E c u))"
    and "ptr = 0 \<Longrightarrow> safely m1 w Q" "ptr \<in> handed_out E \<Longrightarrow> safely m2 w Q"
    and "UCS_PTR_IS_ERR (binds E) ptr \<Longrightarrow> safely m3 w Q"
  shows "safely (on_status_ptr E ptr m1 m2 m3) w Q"
proof -
  have "ptr \<noteq> 0 \<Longrightarrow> \<not> UCS_PTR_IS_ERR (binds E) ptr \<Longrightarrow> ptr \<in> handed_out E"
    using assms(1) by (auto simp: handed_out_def)
  with assms(2-) trichotomy [of ptr "prof E"] show ?thesis
    by (auto simp: on_status_ptr_def)
qed

lemma safely_ptr_error: "holds E R L w \<Longrightarrow> safely (ptr_error E (ptr_of (fst (ucx E c u)))) w (\<lambda>_. holds E R L)"
  by (auto simp: ptr_error_def safely_bind_iff safely_lift from_returned split: outcome.split)

lemma safely_from_ptr: "holds E R L w \<Longrightarrow> safely (lift (from_ptr (prof E) (binds E) (ptr_of (fst (ucx E c u))))) w (\<lambda>_. holds E R L)"
  by (auto simp: safely_lift from_returned)

end

context nb_operation
begin

lemma safely_op:
  fixes w :: "('u, 'wk, 's, 'c) world" and X :: "('u, 'wk, 's, 'c) world executor"
  assumes lib: "ucx_library E" and X: "steady E X" and w: "holds E R L w" "0 < r_endpoints R (ep_inner e)"
    and fail: "\<And>c u (v :: ('u, 'wk, 's, 'c) world). holds E R L v \<Longrightarrow> safely (fail (ptr_of (fst (ucx E c u)))) v (\<lambda>_. holds E R L)"
    and total: "\<And>f. total = Fault f \<Longrightarrow> \<not> memory_fault f"
  shows "safely (op X e) w (\<lambda>_. holds E R L)"
  unfolding op_eq try_bind_def [of "get_handle E e"]
proof (rule safely_bind [OF safely_get_handle [OF w]])
  fix res and v :: "('u, 'wk, 's, 'c) world" assume "v = w"
  then have v: "holds E R L v" using w by simp
  have "safely (bind (ffi E (call h)) (\<lambda>r. bind (lift total) (\<lambda>x. on_status_ptr E (ptr_of r) (ret (Ok x))
      (try_bind (await_ptr E X (poll_normal E) (ptr_of r)) (\<lambda>_. ret (Ok x))) (fail (ptr_of r))))) v (\<lambda>_. holds E R L)" for h
  proof (rule safely_bind [OF ucx_library.safely_ffi [OF lib v]], elim conjE)
    fix r and u :: "('u, 'wk, 's, 'c) world" assume r: "r = fst (ucx E (call h) (lib v))" and u: "holds E R L u"
    have wait: "safely (try_bind (await_ptr E X (poll_normal E) p) (\<lambda>_. ret (Ok x))) u (\<lambda>_. holds E R L)"
      if "p \<in> handed_out E" for p x
      unfolding try_bind_def
      by (rule safely_bind [OF safely_await [OF calm_tests(1) X that u]]) (simp split: sum.split)
    have "safely (on_status_ptr E (ptr_of r) (ret (Ok x))
        (try_bind (await_ptr E X (poll_normal E) (ptr_of r)) (\<lambda>_. ret (Ok x))) (fail (ptr_of r))) u (\<lambda>_. holds E R L)" for x
      by (rule ucx_library.safely_status_ptr [OF lib]) (use r u wait fail in auto)
    then show "safely (bind (lift total) (\<lambda>x. on_status_ptr E (ptr_of r) (ret (Ok x))
        (try_bind (await_ptr E X (poll_normal E) (ptr_of r)) (\<lambda>_. ret (Ok x))) (fail (ptr_of r)))) u (\<lambda>_. holds E R L)"
      using total by (simp add: safely_bind_iff safely_lift split: outcome.split)
  qed
  with v show "safely (case res of Inl e \<Rightarrow> ret (Inl e)
      | Inr h \<Rightarrow> bind (ffi E (call h)) (\<lambda>r. bind (lift total) (\<lambda>x. on_status_ptr E (ptr_of r) (ret (Ok x))
         (try_bind (await_ptr E X (poll_normal E) (ptr_of r)) (\<lambda>_. ret (Ok x))) (fail (ptr_of r))))) v (\<lambda>_. holds E R L)"
    by (simp split: sum.split)
qed

end

section \<open>The operations\<close>

lemma try_bind_safely:
  assumes "safely m w (\<lambda>res v. case res of Inl e \<Rightarrow> Q (Inl e) v | Inr x \<Rightarrow> safely (f x) v Q)"
  shows "safely (try_bind m f) w Q"
  unfolding try_bind_def by (rule safely_bind [OF assms]) (simp split: sum.splits)

text \<open>\<^verbatim>\<open>ucp_tag_recv_nb\<close> is documented to return a request or an error, never null.\<close>

definition tag_requests :: "('u, 'wk) env \<Rightarrow> bool" where
  "tag_requests E \<longleftrightarrow> (\<forall>h b n d t m u. ptr_of (fst (ucx E (Ucp_tag_recv_nb h b n d t m) u)) \<noteq> 0)"

context ucx_library
begin

lemma safely_sends:
  fixes w :: "('u, 'wk, 'q, 'n, 'c) full_world"
  assumes "steady E X" "holds E R L w" "0 < r_endpoints R (ep_inner e)"
  shows "safely (stream_send E X e buf) w (\<lambda>_. holds E R L)" "safely (tag_send E X e tag buf) w (\<lambda>_. holds E R L)"
    and "safely (get E X e buf addr rkey) w (\<lambda>_. holds E R L)"
proof -
  have lib: "ucx_library E" by (rule ucx_library_axioms)
  show "safely (stream_send E X e buf) w (\<lambda>_. holds E R L)"
    by (rule stream_send.safely_op [OF lib assms safely_ptr_error]) simp_all
  show "safely (tag_send E X e tag buf) w (\<lambda>_. holds E R L)"
    by (rule tag_send.safely_op [OF lib assms safely_ptr_error]) simp_all
  show "safely (get E X e buf addr rkey) w (\<lambda>_. holds E R L)"
    by (rule get.safely_op [OF lib assms safely_from_ptr]) simp_all
qed

lemma safely_stream_recv:
  fixes w :: "('u, 'wk, 'q, 'n, 'c) full_world"
  assumes "steady E X" "holds E R L w" "0 < r_endpoints R (ep_inner e)"
  shows "safely (stream_recv E X e buf) w (\<lambda>_. holds E R L)"
  unfolding stream_recv_def
proof (rule try_bind_safely, rule safely_mono [OF safely_get_handle [OF assms(2,3)]])
  fix res and v :: "('u, 'wk, 'q, 'n, 'c) full_world" assume "v = w"
  then have v: "holds E R L v" using assms(2) by simp
  let ?c = "\<lambda>h. Ucp_stream_recv_nb h (Bytes (as_ptr buf)) (slice_len buf) (ucp_dt_make_contig (binds E) 1)"
  have "safely (bind (ffi E (?c h)) (\<lambda>r. on_status_ptr E (ptr_of r)
         (bind (lift (assume_init (out_len r))) (\<lambda>len. ret (Ok len)))
         (bind (await_ptr E X (poll_stream E) (ptr_of r)) (\<lambda>len. ret (Ok len)))
         (ptr_error E (ptr_of r)))) v (\<lambda>_. holds E R L)" for h
  proof (rule safely_bind [OF safely_ffi [OF v]], elim conjE)
    fix r and u :: "('u, 'wk, 'q, 'n, 'c) full_world"
    assume r: "r = fst (ucx E (?c h) (lib v))" and u: "holds E R L u"
    show "safely (on_status_ptr E (ptr_of r)
         (bind (lift (assume_init (out_len r))) (\<lambda>len. ret (Ok len)))
         (bind (await_ptr E X (poll_stream E) (ptr_of r)) (\<lambda>len. ret (Ok len)))
         (ptr_error E (ptr_of r))) u (\<lambda>_. holds E R L)"
    proof (rule safely_status_ptr)
      show "ptr_of r = ptr_of (fst (ucx E (?c h) (lib v)))" by (simp add: r)
    next
      assume "ptr_of r \<in> handed_out E"
      from safely_await [OF calm_tests(2) assms(1) this u]
      show "safely (bind (await_ptr E X (poll_stream E) (ptr_of r)) (\<lambda>len. ret (Ok len))) u (\<lambda>_. holds E R L)"
        by (simp add: safely_bind_iff)
    qed (use u safely_ptr_error [OF u] in \<open>simp_all add: safely_bind_iff r\<close>)
  qed
  with v show "case res of Inl e \<Rightarrow> holds E R L v
    | Inr h \<Rightarrow> safely (bind (ffi E (?c h)) (\<lambda>r. on_status_ptr E (ptr_of r)
         (bind (lift (assume_init (out_len r))) (\<lambda>len. ret (Ok len)))
         (bind (await_ptr E X (poll_stream E) (ptr_of r)) (\<lambda>len. ret (Ok len)))
         (ptr_error E (ptr_of r)))) v (\<lambda>_. holds E R L)"
    by (simp split: sum.split)
qed

lemma safely_worker_call:
  assumes "holds E R L w" "0 < worker_refs w R k"
  shows "safely (worker_call E k call) w (\<lambda>r v. (\<exists>h. r = fst (ucx E (call h) (lib w))) \<and> holds E R L v)"
proof -
  have own: "owns w R" using assms(1) by (simp add: holds_def)
  obtain h where "worker_call E k call w = ffi E (call h) w"
    by (rule worker_call_eq [OF own assms(2)]) (rule that)
  then show ?thesis
    using safely_ffi [OF assms(1), of "call h"] by (auto simp: safely_def split: prod.splits outcome.splits)
qed

lemma safely_tag_recv:
  fixes w :: "('u, 'wk, 'q, 'n, 'c) full_world"
  assumes X: "steady E X" and w: "holds E R L w" "0 < worker_refs w R k"
    and found: "tag_requests E"
  shows "safely (tag_recv E X k tag buf) w (\<lambda>_. holds E R L)"
  unfolding tag_recv_def tag_recv_mask_def bind_assoc
proof (rule safely_bind [OF safely_worker_call [OF w]], elim conjE exE)
  fix r h and v :: "('u, 'wk, 'q, 'n, 'c) full_world"
  let ?c = "Ucp_tag_recv_nb h (Bytes (as_ptr buf)) (slice_len buf) (ucp_dt_make_contig (binds E) 1) tag (- 1)"
  assume r: "r = fst (ucx E ?c (lib w))" and v: "holds E R L v"
  have "safely (try_bind (lift (from_ptr (prof E) (binds E) (ptr_of r))) (\<lambda>_. await_ptr E X (poll_tag E) (ptr_of r))) v
      (\<lambda>_. holds E R L)"
  proof (rule try_bind_safely)
    have "ptr_of r \<in> handed_out E" if "\<not> UCS_PTR_IS_ERR (binds E) (ptr_of r)"
      using that found r by (auto simp: handed_out_def tag_requests_def)
    with v safely_await [OF calm_tests(3) X _ v] show "safely (lift (from_ptr (prof E) (binds E) (ptr_of r))) v
       (\<lambda>res v. case res of Inl e \<Rightarrow> holds E R L v
          | Inr _ \<Rightarrow> safely (await_ptr E X (poll_tag E) (ptr_of r)) v (\<lambda>_. holds E R L))"
      by (simp add: r safely_lift from_returned)
  qed
  then show "safely (bind (try_bind (lift (from_ptr (prof E) (binds E) (ptr_of r))) (\<lambda>_. await_ptr E X (poll_tag E) (ptr_of r)))
      (\<lambda>res. ret (map_sum id snd res))) v (\<lambda>_. holds E R L)"
    by (simp add: safely_bind_iff)
qed

text \<open>A new endpoint on which the first message is exchanged, and which is dropped when that fails.\<close>

lemma safely_first_message:
  fixes w :: "('u, 'wk, 'q, 'n, 'c) full_world"
  assumes w: "holds E R L w" "0 < r_workers R k"
    and first: "\<And>(e :: Endpoint) v S. holds E S L v \<Longrightarrow> 0 < r_endpoints S (ep_inner e) \<Longrightarrow>
      safely (m e) (v :: ('u, 'wk, 'q, 'n, 'c) full_world) (\<lambda>_. holds E S L)"
  shows "safely (unwrapped (try_bind (endpoint_create E k params) (\<lambda>e. bind (m e) (\<lambda>res. case res of
      Inl err \<Rightarrow> bind (endpoint_drop E e) (\<lambda>_. ret (Err err)) | Inr _ \<Rightarrow> ret (Ok e))))) w
    (\<lambda>e. holds E (R\<lparr>r_endpoints := inc (ep_inner e) (r_endpoints R)\<rparr>) L)"
proof (rule safely_unwrapped, rule try_bind_safely, rule safely_mono [OF safely_endpoint_create [OF w]])
  fix res and v :: "('u, 'wk, 'q, 'n, 'c) full_world"
  let ?S = "\<lambda>e :: Endpoint. R\<lparr>r_endpoints := inc (ep_inner e) (r_endpoints R)\<rparr>"
  assume v: "case res of Inl _ \<Rightarrow> holds E R L v | Inr e \<Rightarrow> holds E (?S e) L v"
  have "safely (bind (m e) (\<lambda>res. case res of Inl err \<Rightarrow> bind (endpoint_drop E e) (\<lambda>_. ret (Err err)) | Inr _ \<Rightarrow> ret (Ok e))) v
      (\<lambda>res v. \<forall>x. res = Ok x \<longrightarrow> holds E (?S x) L v)" if "res = Inr e" for e
  proof (rule safely_bind [OF first])
    show "holds E (?S e) L v" "0 < r_endpoints (?S e) (ep_inner e)" using v that by simp_all
  next
    fix sent and u :: "('u, 'wk, 'q, 'n, 'c) full_world" assume u: "holds E (?S e) L u"
    then have "safely (endpoint_drop E e) u (\<lambda>_ _. True)"
      by (intro safely_mono [OF safely_endpoint_drop [OF u]]) simp_all
    with u show "safely (case sent of Inl err \<Rightarrow> bind (endpoint_drop E e) (\<lambda>_. ret (Err err)) | Inr _ \<Rightarrow> ret (Ok e)) u
        (\<lambda>res v. \<forall>x. res = Ok x \<longrightarrow> holds E (?S x) L v)"
      by (auto simp: safely_bind_iff split: sum.split)
  qed
  then show "case res of Inl err \<Rightarrow> \<forall>x. Inl err = Ok x \<longrightarrow> holds E (?S x) L v
    | Inr e \<Rightarrow> safely (bind (m e) (\<lambda>res. case res of Inl err \<Rightarrow> bind (endpoint_drop E e) (\<lambda>_. ret (Err err)) | Inr _ \<Rightarrow> ret (Ok e))) v
        (\<lambda>res v. \<forall>x. res = Ok x \<longrightarrow> holds E (?S x) L v)"
    by (simp split: sum.split)
qed

lemma safely_connect:
  fixes w :: "('u, 'wk, 'q, 'n, 'c) full_world"
  assumes "steady E X" "holds E R L w" "0 < r_workers R k"
  shows "safely (unwrapped (worker_connect_socket E X k addr buf)) w
    (\<lambda>e. holds E (R\<lparr>r_endpoints := inc (ep_inner e) (r_endpoints R)\<rparr>) L)"
  unfolding worker_connect_socket_def connect_socket_def
  by (rule safely_first_message [OF assms(2,3) safely_sends(1) [OF assms(1)]])

lemma safely_accept:
  fixes w :: "('u, 'wk, 'q, 'n, 'c) full_world"
  assumes "steady E X" "holds E R L w" "0 < r_workers R k"
  shows "safely (unwrapped (worker_accept E X k conn buf)) w
    (\<lambda>e. holds E (R\<lparr>r_endpoints := inc (ep_inner e) (r_endpoints R)\<rparr>) L)"
  unfolding worker_accept_def accept_def
  by (rule safely_first_message [OF assms(2,3) safely_stream_recv [OF assms(1)]])

end

context ucx_library
begin

lemma safely_create_listener:
  fixes w :: "('u, 'wk, 'q, 'n, 'c) full_world"
  assumes w: "holds E R L w" "0 < r_workers R k"
  shows "safely (unwrapped (create_listener E C k addr)) w (\<lambda>l. holds E R (inc (l_channel l) L))"
proof (rule safely_unwrapped)
  have own: "owns w R" and chan: "channels_ok w L" and ready: "requests_ready E w"
    using w(1) by (simp_all add: holds_def)
  obtain res v where run: "listener_new E C k addr w = (Ret res, v)" and v: "owns v R" "workers v = workers w"
    "case res of Inl _ \<Rightarrow> channels_ok v L | Inr l \<Rightarrow> channels_ok v (inc (l_channel l) L)"
    using listener_new_owned [OF own held_worker [OF w(2)] chan, of C addr] by (auto simp: does_def)
  have "requests_ready E (snd (listener_new E C k addr w))"
    using ready by (rule keeps_ready [rotated]) (rule initialised.resources_kept)
  then show "safely (create_listener E C k addr) w (\<lambda>res v. \<forall>l. res = Ok l \<longrightarrow> holds E R (inc (l_channel l) L) v)"
    using run v w(1) by (auto simp: safely_def create_listener_def holds_def maps_ok_def)
qed

lemma safely_listener_drop:
  fixes w :: "('u, 'wk, 'q, 'n, 'c) full_world"
  assumes w: "holds E R L w" "0 < L (l_channel l)"
  shows "safely (listener_drop E l) w (\<lambda>_. holds E R (dec (l_channel l) L))"
proof -
  have own: "owns w R" and chan: "channels_ok w L" and ready: "requests_ready E w" and maps: "maps_ok w"
    using w(1) by (simp_all add: holds_def)
  have "requests_ready E (snd (listener_drop E l w))"
    using ready by (rule keeps_ready [rotated]) (rule initialised.resources_kept)
  with listener_drop_owned [OF own chan w(2), of E] maps show ?thesis
    by (auto simp: does_def safely_def holds_def maps_ok_def)
qed

lemma safely_listener_next:
  fixes w :: "('u, 'wk, 'q, 'n, 'c) full_world"
  assumes X: "steady E X" and w: "holds E R L w" "0 < L (l_channel l)"
  shows "safely (listener_next C (x_others X) l n) w (\<lambda>_. holds E R L)"
  using w(1)
proof (induction n arbitrary: w)
  case 0
  then show ?case by (simp add: safely_lift)
next
  case (Suc n)
  have chan: "channels_ok w L" using Suc.prems by (simp add: holds_def)
  obtain b where b: "cells (channels w) (l_channel l) = Some b" "0 < strong b"
    using channel_held [OF chan w(2)] .
  obtain r c' where recv: "ch_recv C (val b) = (r, c')" by fastforce
  note update = channel_update [OF chan b, of "\<lambda>_. c'"]
  let ?v = "w\<lparr>channels := put_cell (l_channel l) (b\<lparr>val := c'\<rparr>) (channels w)\<rparr>"
  have v: "holds E R L ?v"
    using Suc.prems update(2) by (simp add: holds_def requests_ready_def maps_ok_def)
  have "holds E R L (x_others X ?v)" using X v by (simp add: steady_def)
  note next_poll = Suc.IH [OF this]
  have get: "on_channels (rc_get (l_channel l)) w = (Ret (val b), w)"
    using b by (simp add: on_channels_def rc_on_cell)
  have run: "listener_next C (x_others X) l (Suc n) w = (case r of Some conn \<Rightarrow> ret conn
      | None \<Rightarrow> bind (modify (x_others X)) (\<lambda>_. listener_next C (x_others X) l n)) ?v"
    using update(1) by (simp add: bind_def get recv)
  have "safely (case r of Some conn \<Rightarrow> ret conn
      | None \<Rightarrow> bind (modify (x_others X)) (\<lambda>_. listener_next C (x_others X) l n)) ?v (\<lambda>_. holds E R L)"
    using v next_poll by (simp add: safely_bind_iff split: option.split)
  then show ?case unfolding safely_def run .
qed

lemma safely_queries:
  fixes w :: "('u, 'wk, 'q, 'n, 'c) full_world"
  assumes "holds E R L w"
  shows "safely (unwrapped (listener_socket_addr E f l)) w (\<lambda>_. holds E R L)"
    and "safely (unwrapped (remote_addr E f conn)) w (\<lambda>_. holds E R L)"
    and "safely (rkey_unpack E e buf) w (\<lambda>_. holds E R L)" "safely (rkey_drop E key) w (\<lambda>_. holds E R L)"
    and "safely (rkey_buffer_drop E b) w (\<lambda>_. holds E R L)"
  unfolding unwrapped_def listener_socket_addr_def remote_addr_def rkey_unpack_def rkey_drop_def rkey_buffer_drop_def
    bind_assoc try_bind_def
  by (rule safely_bind [OF safely_ffi [OF assms]]; simp add: safely_bind_iff)+

lemma safely_endpoint_print:
  fixes w :: "('u, 'wk, 'q, 'n, 'c) full_world"
  assumes "holds E R L w" "0 < r_endpoints R (ep_inner e)"
  shows "safely (endpoint_print E e) w (\<lambda>_. holds E R L)"
proof -
  have own: "owns w R" using assms(1) by (simp add: holds_def)
  obtain b where b: "cells (inners w) (ep_inner e) = Some b" "0 < strong b"
    using own assms(2) by (rule owned_inner)
  show ?thesis
    using assms(1) by (simp add: endpoint_print_def safely_def bind_def inner_reads(1) [OF b] ffi_after ret_def)
qed

lemma safely_endpoint_worker:
  fixes w :: "('u, 'wk, 'q, 'n, 'c) full_world"
  assumes "holds E R L w" "0 < r_endpoints R (ep_inner e)"
  shows "safely (endpoint_worker e) w (\<lambda>k v. v = w \<and> 0 < worker_refs w R k)"
proof -
  have own: "owns w R" using assms(1) by (simp add: holds_def)
  obtain b where b: "cells (inners w) (ep_inner e) = Some b" "0 < strong b" "0 < worker_refs w R (ep_worker (val b))"
    using own assms(2) by (rule owned_inner)
  then show ?thesis
    by (simp add: endpoint_worker_def safely_def bind_def on_inners_get ret_def)
qed

lemma safely_memory_register:
  fixes w :: "('u, 'wk, 'q, 'n, 'c) full_world"
  assumes "holds E R L w" "0 < r_contexts R c"
  shows "safely (memory_register E c region) w
    (\<lambda>m v. mh_context m = c \<and> holds E (R\<lparr>r_contexts := inc c (r_contexts R)\<rparr>) L v)"
proof -
  have own: "owns w R" and chan: "channels_ok w L" and ready: "requests_ready E w" and maps: "maps_ok w"
    using assms(1) by (simp_all add: holds_def)
  have "requests_ready E (snd (memory_register E c region w))"
    using ready by (rule keeps_ready [rotated]) (rule initialised.resources_kept)
  with memory_register_owned [OF own held_context [OF assms(2)], of region] chan maps show ?thesis
    by (auto simp: does_def safely_def holds_def channels_ok_def maps_ok_def)
qed

lemma safely_memory_pack:
  fixes w :: "('u, 'wk, 'q, 'n, 'c) full_world"
  assumes "holds E R L w" "0 < r_contexts R (mh_context m)"
  shows "safely (memory_pack E m) w (\<lambda>_. holds E R L)"
proof -
  have own: "owns w R" and chan: "channels_ok w L" and ready: "requests_ready E w" and maps: "maps_ok w"
    using assms(1) by (simp_all add: holds_def)
  have "requests_ready E (snd (memory_pack E m w))"
    using ready by (rule keeps_ready [rotated]) (rule initialised.resources_kept)
  with memory_pack_safe [OF own held_context [OF assms(2)]] chan maps show ?thesis
    by (auto simp: safely_def holds_def channels_ok_def maps_ok_def)
qed

lemma safely_memory_drop:
  fixes w :: "('u, 'wk, 'q, 'n, 'c) full_world"
  assumes "holds E R L w" "0 < r_contexts R (mh_context m)"
  shows "safely (memory_drop E m) w (\<lambda>_. holds E (R\<lparr>r_contexts := dec (mh_context m) (r_contexts R)\<rparr>) L)"
proof -
  have own: "owns w R" and chan: "channels_ok w L" and ready: "requests_ready E w" and maps: "maps_ok w"
    using assms(1) by (simp_all add: holds_def)
  have "requests_ready E (snd (memory_drop E m w))"
    using ready by (rule keeps_ready [rotated]) (rule initialised.resources_kept)
  with memory_drop_owned [OF own assms(2), of E] chan maps show ?thesis
    by (auto simp: does_def safely_def holds_def channels_ok_def maps_ok_def)
qed

end

section \<open>An executor that makes progress is steady\<close>

lemma ready_frame: "progress_frame w w' \<Longrightarrow> requests_ready E w' = requests_ready E w"
  by (simp add: requests_ready_def progress_frame_def)

lemma maps_progress: "progress_frame w w' \<Longrightarrow> maps_ok w' = maps_ok w"
  by (simp add: maps_ok_def progress_frame_def)

text \<open>
  The task of \<^verbatim>\<open>polling\<close>: between two polls of the client it makes progress on a worker, with all
  callbacks. If the library runs only callbacks that are good, that is steady.
\<close>

definition progressing :: "('u, 'wk) env \<Rightarrow> ('q, 'n) am_ops \<Rightarrow> 'c channel_ops \<Rightarrow> nat \<Rightarrow> nat \<Rightarrow>
    ('u, 'wk, 'q, 'n, 'c) full_world executor" where
  "progressing E A C k n = \<lparr>x_task = 1, x_others = (\<lambda>w. snd (worker_progress E A C k w)), x_polls = n\<rparr>"

lemma progressing_steady:
  assumes lib: "ucx_library E" and chan: "unbounded_channel C sent"
    and good: "\<And>w cb. cb \<in> set (reported E k w) \<Longrightarrow> callback_ok (w :: ('u, 'wk, 'q, 'n, 'c) full_world) cb"
  shows "steady E (progressing E A C k n :: ('u, 'wk, 'q, 'n, 'c) full_world executor)"
  unfolding steady_def
proof (intro allI impI)
  fix w :: "('u, 'wk, 'q, 'n, 'c) full_world" and R L assume w: "holds E R L w"
  then have own: "owns w R" "channels_ok w L" "requests_ready E w" by (simp_all add: holds_def)
  show "holds E R L (x_others (progressing E A C k n) w)"
  proof (cases "0 < worker_refs w R k")
    case True
    from progress_owned [OF lib chan own(1) True own(2), of A] good
    obtain x v where "worker_progress E A C k w = (Ret x, v)" "owns v R" "channels_ok v L" "progress_frame w v"
      by (auto simp: does_def)
    with own(3) w show ?thesis by (simp add: progressing_def holds_def ready_frame maps_progress)
  next
    case False
    then have "cells (workers w) k = None"
      using counts_cell [OF owns_parts(4) [OF own(1)], of k] by (cases "cells (workers w) k") auto
    then have "worker_progress E A C k w = (dangling, w)"
      by (simp add: worker_progress_def worker_call_def bind_def on_workers_def rc_get_def)
    with w show ?thesis by (simp add: progressing_def)
  qed
qed

end
