(* ===== verification/Async.thy ===== *)
theory Async
  imports Clients
begin

text \<open>
  Futures as values: what an \<^verbatim>\<open>async\<close> operation is between two polls. The operations of the other theories
  await: they run to their end, with the executor's other tasks between two polls. Here the same
  operations are state machines that an executor polls, so that \<^verbatim>\<open>tokio::join!\<close> can interleave two of them.
\<close>

section \<open>Futures\<close>

text \<open>
  A future is done; or is about to run code (\<open>Do\<close>) that does not suspend; or is suspended (\<open>Await\<close>). A poll of a suspended
  one leaves it as it is (\<open>Same\<close>), suspends it elsewhere (\<open>Later\<close>), or goes on (\<open>Next\<close>) within the same poll.
\<close>

datatype 'f resumption = Same | Later 'f | Next 'f

datatype ('w, 'a) future =
    Done 'a
  | Do "'w \<Rightarrow> ('w, 'a) future outcome \<times> 'w"
  | Await "'w \<Rightarrow> ('w, 'a) future resumption outcome \<times> 'w"

text \<open>Code that does not suspend, and what follows it. Asynchronous operations are written with their continuation \<open>k\<close>, too.\<close>

definition sync :: "('w, 'a) prog \<Rightarrow> ('a \<Rightarrow> ('w, 'b) future) \<Rightarrow> ('w, 'b) future" where
  "sync m k = Do (bind m (\<lambda>x. ret (k x)))"

section \<open>Awaiting\<close>

text \<open>
  The executor polls a future until it is done, its other tasks in between; each suspension point is
  observed for \<open>budget\<close> polls.
\<close>

fun retry :: "('w \<Rightarrow> 'w) \<Rightarrow> nat \<Rightarrow> ('w, (nat \<Rightarrow> ('w, 'a) prog) resumption) prog \<Rightarrow> nat \<Rightarrow> ('w, 'a) prog" where
  "retry others budget p 0 = lift Unfinished"
| "retry others budget p (Suc n) = bind p (\<lambda>r. case r of
       Same \<Rightarrow> bind (modify others) (\<lambda>_. retry others budget p n)
     | Later f \<Rightarrow> bind (modify others) (\<lambda>_. f n)
     | Next f \<Rightarrow> f budget)"

primrec awaiting :: "('w \<Rightarrow> 'w) \<Rightarrow> nat \<Rightarrow> ('w, 'a) future \<Rightarrow> nat \<Rightarrow> ('w, 'a) prog" where
  "awaiting others budget (Done x) = (\<lambda>n. ret x)"
| "awaiting others budget (Do m) = (\<lambda>n. bind (\<lambda>w. map_prod (map_outcome (awaiting others budget)) (\<lambda>v. v) (m w)) (\<lambda>f. f n))"
| "awaiting others budget (Await p) =
     retry others budget (\<lambda>w. map_prod (map_outcome (map_resumption (awaiting others budget))) (\<lambda>v. v) (p w))"

definition run_future :: "('u, 'wk, 's, 'c) world executor \<Rightarrow> (('u, 'wk, 's, 'c) world, 'a) future \<Rightarrow> (('u, 'wk, 's, 'c) world, 'a) prog" where
  "run_future X f = awaiting (x_others X) (x_polls X) f (x_polls X)"

text \<open>One poll: as far as it goes.\<close>

primrec poll_future :: "('w, 'a) future \<Rightarrow> ('w, ('w, 'a) future) prog" where
  "poll_future (Done x) = ret (Done x)"
| "poll_future (Do m) = bind (\<lambda>w. map_prod (map_outcome poll_future) (\<lambda>v. v) (m w)) (\<lambda>f. f)"
| "poll_future (Await p) = bind (\<lambda>w. map_prod (map_outcome (map_resumption (\<lambda>f. (f, poll_future f)))) (\<lambda>v. v) (p w))
     (\<lambda>r. case r of Same \<Rightarrow> ret (Await p) | Later (f, _) \<Rightarrow> ret f | Next (_, go) \<Rightarrow> go)"

text \<open>
  \<^verbatim>\<open>tokio::join!\<close>: one task drives two futures and is ready when both are done. Which of them it polls when it is
  polled itself, and in which order, is a parameter: for each turn a schedule, in which \<open>True\<close> stands for the first future
  (polling one that is done does nothing).
\<close>

fun poll_both :: "bool list \<Rightarrow> ('w, 'a) future \<Rightarrow> ('w, 'b) future \<Rightarrow> ('w, ('w, 'a) future \<times> ('w, 'b) future) prog" where
  "poll_both [] f g = ret (f, g)"
| "poll_both (True # turn) f g = bind (poll_future f) (\<lambda>f'. poll_both turn f' g)"
| "poll_both (False # turn) f g = bind (poll_future g) (\<lambda>g'. poll_both turn f g')"

fun joined :: "('w, 'a) future \<Rightarrow> ('w, 'b) future \<Rightarrow> ('a \<times> 'b) option" where
  "joined (Done x) (Done y) = Some (x, y)"
| "joined f g = None"

fun join_rounds :: "('w \<Rightarrow> 'w) \<Rightarrow> (nat \<Rightarrow> bool list) \<Rightarrow> nat \<Rightarrow> ('w, 'a) future \<Rightarrow> ('w, 'b) future \<Rightarrow> ('w, 'a \<times> 'b) prog" where
  "join_rounds others schedule 0 f g = lift Unfinished"
| "join_rounds others schedule (Suc n) f g =
     bind (poll_both (schedule n) f g) (\<lambda>(f', g'). case joined f' g' of
         Some r \<Rightarrow> ret r
       | None \<Rightarrow> bind (modify others) (\<lambda>_. join_rounds others schedule n f' g'))"

definition join :: "('u, 'wk, 's, 'c) world executor \<Rightarrow> (nat \<Rightarrow> bool list) \<Rightarrow> (('u, 'wk, 's, 'c) world, 'a) future \<Rightarrow>
    (('u, 'wk, 's, 'c) world, 'b) future \<Rightarrow> (('u, 'wk, 's, 'c) world, 'a \<times> 'b) prog" where
  "join X schedule f g = join_rounds (x_others X) schedule (x_polls X) f g"

section \<open>Laws\<close>

lemma bind_map: "bind (\<lambda>w. map_prod (map_outcome h) (\<lambda>v. v) (m w)) k = bind m (\<lambda>x. k (h x))"
  by (auto simp: bind_def fun_eq_iff split: prod.split outcome.split)

lemma awaiting_do [simp]: "awaiting others N (Do m) n = bind m (\<lambda>f. awaiting others N f n)"
  by (simp add: bind_map)

lemma poll_do [simp]: "poll_future (Do m) = bind m poll_future"
  by (simp add: bind_map)

lemma poll_await [simp]: "poll_future (Await p) = bind p (\<lambda>r. case r of Same \<Rightarrow> ret (Await p) | Later f \<Rightarrow> ret f | Next f \<Rightarrow> poll_future f)"
proof -
  have "(\<lambda>r. case map_resumption (\<lambda>f. (f, poll_future f)) r of Same \<Rightarrow> ret (Await p) | Later (f, _) \<Rightarrow> ret f | Next (_, go) \<Rightarrow> go)
      = (\<lambda>r. case r of Same \<Rightarrow> ret (Await p) | Later f \<Rightarrow> ret f | Next f \<Rightarrow> poll_future f)"
    by (simp add: fun_eq_iff split: resumption.split)
  then show ?thesis by (simp add: bind_map)
qed

declare awaiting.simps(2) [simp del] poll_future.simps(2,3) [simp del]

lemma awaiting_await [simp]:
  "awaiting others N (Await p) 0 = lift Unfinished"
  "awaiting others N (Await p) (Suc n) = bind p (\<lambda>r. case r of
       Same \<Rightarrow> bind (modify others) (\<lambda>_. awaiting others N (Await p) n)
     | Later f \<Rightarrow> bind (modify others) (\<lambda>_. awaiting others N f n)
     | Next f \<Rightarrow> awaiting others N f N)"
proof -
  show "awaiting others N (Await p) 0 = lift Unfinished" by simp
  show "awaiting others N (Await p) (Suc n) = bind p (\<lambda>r. case r of
       Same \<Rightarrow> bind (modify others) (\<lambda>_. awaiting others N (Await p) n)
     | Later f \<Rightarrow> bind (modify others) (\<lambda>_. awaiting others N f n)
     | Next f \<Rightarrow> awaiting others N f N)"
    unfolding awaiting.simps(3) retry.simps(2) bind_map
    by (rule arg_cong [where f = "bind p"]) (simp add: fun_eq_iff split: resumption.split)
qed

declare awaiting.simps(3) [simp del]

lemma run_done [simp]: "run_future X (Done x) = ret x"
  by (simp add: run_future_def)

lemma run_sync [simp]: "run_future X (sync m k) = bind m (\<lambda>x. run_future X (k x))"
  by (simp add: run_future_def sync_def bind_assoc)


section \<open>The operations as futures\<close>

text \<open>\<open>RequestHandle { ptr, poll_fn }.await\<close>, by task \<open>t\<close>; the chain of cases on a status pointer.\<close>

definition await_then ::
  "('u, 'wk) env \<Rightarrow> nat \<Rightarrow> (handle \<Rightarrow> (('u, 'wk, 's, 'c) world, 'a poll) prog) \<Rightarrow> handle \<Rightarrow>
   ('a \<Rightarrow> (('u, 'wk, 's, 'c) world, 'b) future) \<Rightarrow> (('u, 'wk, 's, 'c) world, 'b) future" where
  "await_then E t poll_fn ptr k = Await (bind (request_poll E poll_fn ptr t) (\<lambda>r. case r of
       Ready x \<Rightarrow> bind (request_drop E ptr) (\<lambda>_. ret (Next (k x)))
     | Pending \<Rightarrow> ret Same))"

definition on_ptr ::
  "('u, 'wk) env \<Rightarrow> handle \<Rightarrow> ('w, 'a) future \<Rightarrow> ('w, 'a) future \<Rightarrow> ('w, 'a) future \<Rightarrow> ('w, 'a) future" where
  "on_ptr E status at_once in_progress failed =
     (if status = 0 then at_once
      else sync (lift (UCS_PTR_IS_PTR (prof E) (binds E) status)) (\<lambda>is_ptr. if is_ptr then in_progress else failed))"

text \<open>What the sends share: the code of the contract \<open>nb_operation\<close>.\<close>

definition nb_future ::
  "('u, 'wk) env \<Rightarrow> nat \<Rightarrow> Endpoint \<Rightarrow> (handle \<Rightarrow> ffi_call) \<Rightarrow> 'a outcome \<Rightarrow>
   (handle \<Rightarrow> (('u, 'wk, 's, 'c) world, ('a, Error) result) prog) \<Rightarrow>
   (('a, Error) result \<Rightarrow> (('u, 'wk, 's, 'c) world, 'b) future) \<Rightarrow> (('u, 'wk, 's, 'c) world, 'b) future" where
  "nb_future E t e call amount fail k =
     sync (get_handle E e) (\<lambda>res. case res of
       Inl err \<Rightarrow> k (Err err)
     | Inr h \<Rightarrow> sync (ffi E (call h)) (\<lambda>r. sync (lift amount) (\<lambda>x.
         on_ptr E (ptr_of r)
           (k (Ok x))
           (await_then E t (poll_normal E) (ptr_of r) (\<lambda>result. case result of Inl err \<Rightarrow> k (Err err) | Inr _ \<Rightarrow> k (Ok x)))
           (sync (fail (ptr_of r)) k))))"

definition stream_send_future ::
  "('u, 'wk) env \<Rightarrow> nat \<Rightarrow> Endpoint \<Rightarrow> slice \<Rightarrow>
   ((usize, Error) result \<Rightarrow> (('u, 'wk, 's, 'c) world, 'b) future) \<Rightarrow> (('u, 'wk, 's, 'c) world, 'b) future" where
  "stream_send_future E t e buf =
     nb_future E t e (\<lambda>h. Ucp_stream_send_nb h (Bytes (as_ptr buf)) (slice_len buf) (ucp_dt_make_contig (binds E) 1))
       (Ret (slice_len buf)) (ptr_error E)"

definition tag_send_future ::
  "('u, 'wk) env \<Rightarrow> nat \<Rightarrow> Endpoint \<Rightarrow> u64 \<Rightarrow> slice \<Rightarrow>
   ((usize, Error) result \<Rightarrow> (('u, 'wk, 's, 'c) world, 'b) future) \<Rightarrow> (('u, 'wk, 's, 'c) world, 'b) future" where
  "tag_send_future E t e tag buf =
     nb_future E t e (\<lambda>h. Ucp_tag_send_nb h (Bytes (as_ptr buf)) (slice_len buf) (ucp_dt_make_contig (binds E) 1) tag)
       (Ret (slice_len buf)) (ptr_error E)"

definition am_send_future ::
  "('u, 'wk) env \<Rightarrow> nat \<Rightarrow> Endpoint \<Rightarrow> u32 \<Rightarrow> slice \<Rightarrow> slice \<Rightarrow> bool \<Rightarrow> AmProto option \<Rightarrow>
   ((unit, Error) result \<Rightarrow> (('u, 'wk, 's, 'c) world, 'b) future) \<Rightarrow> (('u, 'wk, 's, 'c) world, 'b) future" where
  "am_send_future E t e i header data again proto =
     nb_future E t e (\<lambda>h. Ucp_am_send_nbx h i header (fst (am_buffer [data])) (snd (am_buffer [data]))
         (am_send_param (binds E) [data] again proto))
       (Ret ()) (ptr_error E)"

text \<open>The receives.\<close>

definition stream_recv_future ::
  "('u, 'wk) env \<Rightarrow> nat \<Rightarrow> Endpoint \<Rightarrow> slice \<Rightarrow>
   ((usize, Error) result \<Rightarrow> (('u, 'wk, 's, 'c) world, 'b) future) \<Rightarrow> (('u, 'wk, 's, 'c) world, 'b) future" where
  "stream_recv_future E t e buf k =
     sync (get_handle E e) (\<lambda>res. case res of
       Inl err \<Rightarrow> k (Err err)
     | Inr h \<Rightarrow> sync (ffi E (Ucp_stream_recv_nb h (Bytes (as_ptr buf)) (slice_len buf) (ucp_dt_make_contig (binds E) 1))) (\<lambda>r.
         on_ptr E (ptr_of r)
           (sync (lift (assume_init (out_len r))) (\<lambda>len. k (Ok len)))
           (await_then E t (poll_stream E) (ptr_of r) (\<lambda>len. k (Ok len)))
           (sync (ptr_error E (ptr_of r)) k)))"

definition tag_recv_future ::
  "('u, 'wk) env \<Rightarrow> nat \<Rightarrow> nat \<Rightarrow> u64 \<Rightarrow> slice \<Rightarrow>
   ((usize, Error) result \<Rightarrow> (('u, 'wk, 's, 'c) world, 'b) future) \<Rightarrow> (('u, 'wk, 's, 'c) world, 'b) future" where
  "tag_recv_future E t wk tag buf k =
     sync (worker_call E wk (\<lambda>h. Ucp_tag_recv_nb h (Bytes (as_ptr buf)) (slice_len buf)
             (ucp_dt_make_contig (binds E) 1) tag (- 1))) (\<lambda>r.
     sync (lift (from_ptr (prof E) (binds E) (ptr_of r))) (\<lambda>res. case res of
       Inl err \<Rightarrow> k (Err err)
     | Inr _ \<Rightarrow> await_then E t (poll_tag E) (ptr_of r) (\<lambda>result. k (map_sum id snd result))))"

text \<open>Connecting and accepting; the next connection of a listener.\<close>

definition first_message ::
  "('u, 'wk) env \<Rightarrow> nat \<Rightarrow> ep_params \<Rightarrow>
   (Endpoint \<Rightarrow> ((usize, Error) result \<Rightarrow> (('u, 'wk, 's, 'c) world, 'b) future) \<Rightarrow> (('u, 'wk, 's, 'c) world, 'b) future) \<Rightarrow>
   ((Endpoint, Error) result \<Rightarrow> (('u, 'wk, 's, 'c) world, 'b) future) \<Rightarrow> (('u, 'wk, 's, 'c) world, 'b) future" where
  "first_message E wk params m k =
     sync (endpoint_create E wk params) (\<lambda>res. case res of
       Inl err \<Rightarrow> k (Err err)
     | Inr endpoint \<Rightarrow> m endpoint (\<lambda>result. case result of
           Inl err \<Rightarrow> sync (endpoint_drop E endpoint) (\<lambda>_. k (Err err))
         | Inr _ \<Rightarrow> k (Ok endpoint)))"

definition connect_future ::
  "('u, 'wk) env \<Rightarrow> nat \<Rightarrow> nat \<Rightarrow> u8 list \<Rightarrow> handle \<Rightarrow>
   ((Endpoint, Error) result \<Rightarrow> (('u, 'wk, 's, 'c) world, 'b) future) \<Rightarrow> (('u, 'wk, 's, 'c) world, 'b) future" where
  "connect_future E t wk addr buf =
     first_message E wk (socket_params (binds E) addr)
       (\<lambda>endpoint. stream_send_future E t endpoint \<lparr>as_ptr = buf, contents = [0, 1, 2, 3]\<rparr>)"

definition accept_future ::
  "('u, 'wk) env \<Rightarrow> nat \<Rightarrow> nat \<Rightarrow> ConnectionRequest \<Rightarrow> slice \<Rightarrow>
   ((Endpoint, Error) result \<Rightarrow> (('u, 'wk, 's, 'c) world, 'b) future) \<Rightarrow> (('u, 'wk, 's, 'c) world, 'b) future" where
  "accept_future E t wk connection buf =
     first_message E wk (accept_params (binds E) connection) (\<lambda>endpoint. stream_recv_future E t endpoint buf)"

definition next_future ::
  "'c channel_ops \<Rightarrow> Listener \<Rightarrow> (ConnectionRequest \<Rightarrow> (('u, 'wk, 's, 'c) world, 'b) future) \<Rightarrow>
   (('u, 'wk, 's, 'c) world, 'b) future" where
  "next_future C l k = Await (
     bind (on_channels (rc_get (l_channel l))) (\<lambda>c. case ch_recv C c of (r, c') \<Rightarrow>
       bind (on_channels (rc_update (l_channel l) (\<lambda>_. c'))) (\<lambda>_. case r of
           Some conn \<Rightarrow> ret (Next (k conn))
         | None \<Rightarrow> ret Same)))"

section \<open>Polling them is awaiting them\<close>

lemma bind_cong: "(\<And>x. f x = g x) \<Longrightarrow> bind m f = bind m g"
  by presburger

lemma run_await_then [simp]:
  "run_future X (await_then E (x_task X) f p k) = bind (await_ptr E X f p) (\<lambda>x. run_future X (k x))"
proof -
  have "awaiting (x_others X) (x_polls X) (await_then E (x_task X) f p k) n =
      bind (await_request E f p (x_task X) (x_others X) n) (\<lambda>x. run_future X (k x))" for n
  proof (induction n)
    case 0
    then show ?case by (simp add: await_then_def bind_def lift_def fun_eq_iff)
  next
    case (Suc n)
    show ?case
      unfolding await_then_def awaiting_await await_request.simps bind_assoc
      unfolding await_then_def [symmetric] Suc.IH
      by (rule bind_cong) (simp add: bind_assoc run_future_def split: poll.split)
  qed
  then show ?thesis by (simp add: run_future_def await_ptr_def)
qed

lemma run_next: "run_future X (next_future C l k) = bind (listener_next C (x_others X) l (x_polls X)) (\<lambda>c. run_future X (k c))"
proof -
  have "awaiting (x_others X) (x_polls X) (next_future C l k) n =
      bind (listener_next C (x_others X) l n) (\<lambda>c. run_future X (k c))" for n
  proof (induction n)
    case 0
    then show ?case by (simp add: next_future_def bind_def lift_def fun_eq_iff)
  next
    case (Suc n)
    show ?case
      unfolding next_future_def awaiting_await listener_next.simps bind_assoc
      unfolding next_future_def [symmetric] Suc.IH
    proof (rule bind_cong)
      fix c
      obtain r c' where "ch_recv C c = (r, c')" by fastforce
      then show "bind (case ch_recv C c of (r, c') \<Rightarrow> bind (on_channels (rc_update (l_channel l) (\<lambda>_. c')))
              (\<lambda>_. case r of None \<Rightarrow> ret Same | Some conn \<Rightarrow> ret (Next (k conn))))
            (\<lambda>r. case r of Same \<Rightarrow> bind (modify (x_others X)) (\<lambda>_. bind (listener_next C (x_others X) l n) (\<lambda>c. run_future X (k c)))
              | Later f \<Rightarrow> bind (modify (x_others X)) (\<lambda>_. awaiting (x_others X) (x_polls X) f n)
              | Next f \<Rightarrow> awaiting (x_others X) (x_polls X) f (x_polls X))
          = bind (case ch_recv C c of (r, c') \<Rightarrow> bind (on_channels (rc_update (l_channel l) (\<lambda>_. c')))
              (\<lambda>_. case r of None \<Rightarrow> bind (modify (x_others X)) (\<lambda>_. listener_next C (x_others X) l n) | Some conn \<Rightarrow> ret conn))
            (\<lambda>c. run_future X (k c))"
        by (cases r) (simp_all add: bind_assoc run_future_def)
    qed
  qed
  then show ?thesis by (simp add: run_future_def)
qed

lemma run_on_ptr [simp]: "run_future X (on_ptr E p a b c) = on_status_ptr E p (run_future X a) (run_future X b) (run_future X c)"
  by (auto simp: on_ptr_def on_status_ptr_def if_distrib [of "run_future X"])

lemma bind_sum: "bind (case r of Inl x \<Rightarrow> f x | Inr y \<Rightarrow> g y) k = (case r of Inl x \<Rightarrow> bind (f x) k | Inr y \<Rightarrow> bind (g y) k)"
  and run_sum: "run_future X (case r of Inl x \<Rightarrow> u x | Inr y \<Rightarrow> v y) = (case r of Inl x \<Rightarrow> run_future X (u x) | Inr y \<Rightarrow> run_future X (v y))"
  by (simp_all split: sum.split)

lemma bind_unfinished: "bind (lift Unfinished) f = lift Unfinished"
  and bind_fault: "bind (lift (Fault x)) f = lift (Fault x)"
  by (simp_all add: bind_def lift_def fun_eq_iff)

lemmas run_defs = try_bind_def bind_assoc bind_on_status_ptr bind_sum run_sum

lemma run_nb:
  assumes "nb_operation E op call amount fail"
  shows "run_future X (nb_future E (x_task X) e call amount fail k) = bind (op X e) (\<lambda>r. run_future X (k r))"
  unfolding nb_operation.op_eq [OF assms]
  by (simp add: nb_future_def run_defs cong: sum.case_cong)

lemma run_sends [simp]:
  "run_future X (stream_send_future E (x_task X) e buf k) = bind (stream_send E X e buf) (\<lambda>r. run_future X (k r))"
  "run_future X (tag_send_future E (x_task X) e tag buf k) = bind (tag_send E X e tag buf) (\<lambda>r. run_future X (k r))"
  unfolding stream_send_future_def tag_send_future_def
  by (rule run_nb [OF stream_send.nb_operation_axioms] run_nb [OF tag_send.nb_operation_axioms])+

lemma run_am_send [simp]:
  "run_future X (am_send_future E (x_task X) e i header data again proto k)
     = bind (am_send E X e i header data again proto) (\<lambda>r. run_future X (k r))"
  unfolding am_send_future_def am_send_def by (rule run_nb [OF am_send.nb_operation_axioms])

lemma run_recvs [simp]:
  "run_future X (stream_recv_future E (x_task X) e buf k) = bind (stream_recv E X e buf) (\<lambda>r. run_future X (k r))"
  "run_future X (tag_recv_future E (x_task X) wk tag buf k) = bind (tag_recv E X wk tag buf) (\<lambda>r. run_future X (k r))"
  by (simp_all add: stream_recv_future_def stream_recv_def tag_recv_future_def tag_recv_def tag_recv_mask_def run_defs cong: sum.case_cong)

lemma run_first_message:
  assumes "\<And>e k. run_future X (m e k) = bind (m' e) (\<lambda>r. run_future X (k r))"
  shows "run_future X (first_message E wk params m k) =
    bind (try_bind (endpoint_create E wk params) (\<lambda>e. bind (m' e) (\<lambda>res. case res of
      Inl err \<Rightarrow> bind (endpoint_drop E e) (\<lambda>_. ret (Err err)) | Inr _ \<Rightarrow> ret (Ok e)))) (\<lambda>r. run_future X (k r))"
  by (simp add: first_message_def run_defs assms cong: sum.case_cong)

lemma run_connecting [simp]:
  "run_future X (connect_future E (x_task X) wk addr buf k) =
     bind (worker_connect_socket E X wk addr buf) (\<lambda>r. run_future X (k r))"
  "run_future X (accept_future E (x_task X) wk conn buffer k) =
     bind (worker_accept E X wk conn buffer) (\<lambda>r. run_future X (k r))"
  by (simp_all add: connect_future_def accept_future_def worker_connect_socket_def worker_accept_def
      connect_socket_def accept_def run_first_message)

section \<open>Active messages\<close>

text \<open>\<^verbatim>\<open>AmStream::wait_msg\<close>: suspended, it goes on only when its notification has come.\<close>

definition wait_turn_future ::
  "('q, 'n) am_ops \<Rightarrow> nat \<Rightarrow> AmStream \<Rightarrow> (AmMsg option \<Rightarrow> (('u, 'wk, 'q, 'n, 'c) am_world, 'b) future) \<Rightarrow> bool \<Rightarrow>
   (('u, 'wk, 'q, 'n, 'c) am_world, 'b) future resumption \<Rightarrow> (('u, 'wk, 'q, 'n, 'c) am_world, (('u, 'wk, 'q, 'n, 'c) am_world, 'b) future resumption) prog" where
  "wait_turn_future A t s k suspended parked =
     bind (on_streams (rc_get (s_inner s))) (\<lambda>i.
       if suspended \<and> n_pending (notify_ops A) t (notify i) then ret parked
       else case wait_turn A t 2 i of (r, i') \<Rightarrow>
         bind (on_streams (rc_update (s_inner s) (\<lambda>_. i'))) (\<lambda>_. case r of
             None \<Rightarrow> lift Unfinished
           | Some (Returned m) \<Rightarrow> ret (Next (k (map_option (\<lambda>m. \<lparr>m_worker = s_worker s, msg = m\<rparr>) m)))
           | Some Parked \<Rightarrow> ret parked))"

definition wait_suspended ::
  "('q, 'n) am_ops \<Rightarrow> nat \<Rightarrow> AmStream \<Rightarrow> (AmMsg option \<Rightarrow> (('u, 'wk, 'q, 'n, 'c) am_world, 'b) future) \<Rightarrow>
   (('u, 'wk, 'q, 'n, 'c) am_world, 'b) future" where
  "wait_suspended A t s k = Await (wait_turn_future A t s k True Same)"

definition wait_msg_future ::
  "('q, 'n) am_ops \<Rightarrow> nat \<Rightarrow> AmStream \<Rightarrow> (AmMsg option \<Rightarrow> (('u, 'wk, 'q, 'n, 'c) am_world, 'b) future) \<Rightarrow>
   (('u, 'wk, 'q, 'n, 'c) am_world, 'b) future" where
  "wait_msg_future A t s k = Await (wait_turn_future A t s k False (Later (wait_suspended A t s k)))"

definition am_send_raw_future ::
  "('u, 'wk) env \<Rightarrow> nat \<Rightarrow> handle \<Rightarrow> u32 \<Rightarrow> slice \<Rightarrow> slice list \<Rightarrow> bool \<Rightarrow> AmProto option \<Rightarrow>
   ((unit, Error) result \<Rightarrow> (('u, 'wk, 's, 'c) world, 'b) future) \<Rightarrow> (('u, 'wk, 's, 'c) world, 'b) future" where
  "am_send_raw_future E t ep i header data again proto k =
     sync (ffi E (Ucp_am_send_nbx ep i header (fst (am_buffer data)) (snd (am_buffer data)) (am_send_param (binds E) data again proto))) (\<lambda>r.
       on_ptr E (ptr_of r)
         (k (Ok ()))
         (await_then E t (poll_normal E) (ptr_of r) k)
         (sync (ptr_error E (ptr_of r)) k))"

definition reply_future ::
  "('u, 'wk) env \<Rightarrow> nat \<Rightarrow> AmMsg \<Rightarrow> u32 \<Rightarrow> slice \<Rightarrow> slice \<Rightarrow> bool \<Rightarrow> AmProto option \<Rightarrow>
   ((unit, Error) result \<Rightarrow> (('u, 'wk, 's, 'c) world, 'b) future) \<Rightarrow> (('u, 'wk, 's, 'c) world, 'b) future" where
  "reply_future E t m i header data again proto k =
     (if \<not> need_reply (binds E) m then sync (lift (Fault (Panic Assertion_failed))) k
      else am_send_raw_future E t (reply_ep (msg m)) i header [data] again proto k)"

definition recv_vectored_future ::
  "('u, 'wk) env \<Rightarrow> nat \<Rightarrow> AmMsg \<Rightarrow> slice list \<Rightarrow>
   ((usize, Error) result \<times> slice list \<times> AmMsg \<Rightarrow> (('u, 'wk, 's, 'c) world, 'b) future) \<Rightarrow> (('u, 'wk, 's, 'c) world, 'b) future" where
  "recv_vectored_future E t m iov k = (case msg_data (msg m) of
       Some (Eager data) \<Rightarrow> sync (lift (copy_data_to_iov (prof E) data iov)) (\<lambda>(res, iov'). k (res, iov', take_data m))
     | Some (Data data) \<Rightarrow> sync (lift (copy_data_to_iov (prof E) (contents data) iov)) (\<lambda>(res, iov'). case res of
           Inl err \<Rightarrow> k (Err err, iov', take_data m)
         | Inr n \<Rightarrow> sync (drop_msg E m (Data data)) (\<lambda>_. k (Ok n, iov', take_data m)))
     | Some (Rndv desc) \<Rightarrow>
         sync (worker_call E (m_worker m) (\<lambda>h. Ucp_am_recv_data_nbx h (as_ptr desc) (fst (am_buffer iov)) (snd (am_buffer iov))
             (am_recv_param (binds E) iov))) (\<lambda>r.
           on_ptr E (ptr_of r)
             (k (Ok (slice_len desc), iov, take_data m))
             (await_then E t (poll_recv E) (ptr_of r) (\<lambda>_. k (Ok (slice_len desc), iov, take_data m)))
             (sync (ptr_error E (ptr_of r)) (\<lambda>res. k (res, iov, take_data m))))
     | None \<Rightarrow> k (Ok 0, iov, take_data m))"

definition recv_single_future ::
  "('u, 'wk) env \<Rightarrow> nat \<Rightarrow> AmMsg \<Rightarrow> slice \<Rightarrow>
   ((usize, Error) result \<times> slice list \<times> AmMsg \<Rightarrow> (('u, 'wk, 's, 'c) world, 'b) future) \<Rightarrow> (('u, 'wk, 's, 'c) world, 'b) future" where
  "recv_single_future E t m buf k =
     (if \<not> contains_data m then k (Ok 0, [buf], m) else recv_vectored_future E t m [buf] k)"

definition recv_data_future ::
  "('u, 'wk) env \<Rightarrow> nat \<Rightarrow> AmMsg \<Rightarrow> slice \<Rightarrow>
   ((u8 list, Error) result \<times> AmMsg \<Rightarrow> (('u, 'wk, 's, 'c) world, 'b) future) \<Rightarrow> (('u, 'wk, 's, 'c) world, 'b) future" where
  "recv_data_future E t m buf k = (case msg_data (msg m) of
       None \<Rightarrow> k (Ok [], m)
     | Some (Eager vec) \<Rightarrow> k (Ok vec, take_data m)
     | Some (Data data) \<Rightarrow> sync (drop_msg E m (Data data)) (\<lambda>_. k (Ok (contents data), take_data m))
     | Some (Rndv desc) \<Rightarrow> recv_single_future E t m buf (\<lambda>(res, iov, m'). case res of
           Inl err \<Rightarrow> k (Err err, m')
         | Inr recv_size \<Rightarrow> k (Ok (take (unat recv_size) (contents buf)), m')))"

lemma wait_turn_awaited:
  assumes "F parked = bind (modify (x_others X)) (\<lambda>_. bind (wait_msg A t (x_others X) s True n) (\<lambda>m. run_future X (k m)))"
    and "\<And>f. F (Next f) = run_future X f"
  shows "bind (wait_turn_future A t s k suspended parked) F =
    bind (wait_msg A t (x_others X) s suspended (Suc n)) (\<lambda>m. run_future X (k m))"
  unfolding wait_turn_future_def wait_msg.simps bind_assoc
proof (rule bind_cong)
  fix i
  obtain r i' where "wait_turn A t 2 i = (r, i')" by fastforce
  then show "bind (if suspended \<and> n_pending (notify_ops A) t (notify i) then ret parked
        else case wait_turn A t 2 i of (r, i') \<Rightarrow>
          bind (on_streams (rc_update (s_inner s) (\<lambda>_. i'))) (\<lambda>_. case r of
           None \<Rightarrow> lift Unfinished
         | Some (Returned m) \<Rightarrow> ret (Next (k (map_option (\<lambda>m. \<lparr>m_worker = s_worker s, msg = m\<rparr>) m)))
         | Some Parked \<Rightarrow> ret parked)) F
    = bind (if suspended \<and> n_pending (notify_ops A) t (notify i) then
          bind (modify (x_others X)) (\<lambda>_. wait_msg A t (x_others X) s True n)
        else case wait_turn A t 2 i of (r, i') \<Rightarrow>
          bind (on_streams (rc_update (s_inner s) (\<lambda>_. i'))) (\<lambda>_. case r of
           None \<Rightarrow> lift Unfinished
         | Some (Returned m) \<Rightarrow> ret (map_option (\<lambda>m. \<lparr>m_worker = s_worker s, msg = m\<rparr>) m)
         | Some Parked \<Rightarrow> bind (modify (x_others X)) (\<lambda>_. wait_msg A t (x_others X) s True n)))
      (\<lambda>m. run_future X (k m))"
    by (auto simp: assms bind_assoc bind_unfinished split: option.split AmStream.turn.split)
qed

lemma run_wait_suspended:
  "awaiting (x_others X) (x_polls X) (wait_suspended A (x_task X) s k) n =
   bind (wait_msg A (x_task X) (x_others X) s True n) (\<lambda>m. run_future X (k m))"
proof (induction n)
  case 0
  then show ?case by (simp add: wait_suspended_def bind_unfinished)
next
  case (Suc n)
  show ?case
    unfolding wait_suspended_def awaiting_await
    unfolding wait_suspended_def [symmetric]
    by (rule wait_turn_awaited) (simp_all add: Suc.IH run_future_def)
qed

lemma run_wait_msg [simp]:
  "run_future X (wait_msg_future A (x_task X) s k) =
   bind (wait_msg A (x_task X) (x_others X) s False (x_polls X)) (\<lambda>m. run_future X (k m))"
proof (cases "x_polls X")
  case 0
  then show ?thesis by (simp add: run_future_def wait_msg_future_def bind_unfinished)
next
  case (Suc n)
  have "run_future X (wait_msg_future A (x_task X) s k) = awaiting (x_others X) (x_polls X) (wait_msg_future A (x_task X) s k) (Suc n)"
    by (simp add: run_future_def Suc)
  also have "\<dots> = bind (wait_msg A (x_task X) (x_others X) s False (Suc n)) (\<lambda>m. run_future X (k m))"
    unfolding wait_msg_future_def awaiting_await
    by (rule wait_turn_awaited) (simp_all add: run_wait_suspended run_future_def)
  finally show ?thesis unfolding Suc .
qed

lemma run_am_send_raw: "run_future X (am_send_raw_future E (x_task X) ep i header data again proto k) =
    bind (am_send_raw E X ep i header data again proto) (\<lambda>r. run_future X (k r))"
  by (simp add: am_send_raw_future_def am_send_raw_def run_defs case_prod_beta)

lemma run_reply [simp]: "run_future X (reply_future E (x_task X) m i header data again proto k) =
    bind (am_reply E X m i header data again proto) (\<lambda>r. run_future X (k r))"
  by (simp add: reply_future_def am_reply_def reply_vectorized_def run_am_send_raw)

lemma run_recv_vectored: "run_future X (recv_vectored_future E (x_task X) m iov k) =
    bind (recv_data_vectored E X m iov) (\<lambda>r. run_future X (k r))"
  by (simp add: recv_vectored_future_def recv_data_vectored_def run_defs case_prod_beta Let_def
      split: option.split AmData.split cong: sum.case_cong)

lemma run_recv_data [simp]:
  "run_future X (recv_single_future E (x_task X) m buf k) = bind (recv_data_single E X m buf) (\<lambda>r. run_future X (k r))"
  "run_future X (recv_data_future E (x_task X) m buf k') = bind (recv_data E X m buf) (\<lambda>r. run_future X (k' r))"
proof -
  show single: "run_future X (recv_single_future E (x_task X) m buf k) = bind (recv_data_single E X m buf) (\<lambda>r. run_future X (k r))" for k
    by (simp add: recv_single_future_def recv_data_single_def run_recv_vectored)
  show "run_future X (recv_data_future E (x_task X) m buf k') = bind (recv_data E X m buf) (\<lambda>r. run_future X (k' r))"
    by (simp add: recv_data_future_def recv_data_def run_defs case_prod_beta single
      split: option.split AmData.split cong: sum.case_cong)
qed


end
