(* ===== verification/Interleaving.thy ===== *)
theory Interleaving
  imports Async
begin

text \<open>
  Interleaved futures and the heap: what two futures that one task drives may do to the counted references of each
  other and of the code around them. Nothing: every operation, as a future, keeps what others hold.
\<close>


section \<open>Futures that share the heap\<close>

text \<open>
  While two futures run, each owns references of its own (\<open>S\<close>), and the surrounding code has the rest (\<open>F\<close>), which both may
  borrow. A future is safe when its polls keep whatever references others hold (\<open>T\<close>): the rely-guarantee
  condition of interleaving, in terms of the ownership of counted references. \<open>Q\<close> holds of the result and the references that
  the future has when it is done.
\<close>

definition with_refs :: "refs \<Rightarrow> refs \<Rightarrow> refs" where
  "with_refs R S = \<lparr>r_contexts = (\<lambda>a. r_contexts R a + r_contexts S a), r_workers = (\<lambda>a. r_workers R a + r_workers S a),
     r_endpoints = (\<lambda>a. r_endpoints R a + r_endpoints S a), r_streams = (\<lambda>a. r_streams R a + r_streams S a)\<rparr>"

lemma with_refs_simps [simp]:
  "r_contexts (with_refs R S) a = r_contexts R a + r_contexts S a" "r_workers (with_refs R S) a = r_workers R a + r_workers S a"
  "r_endpoints (with_refs R S) a = r_endpoints R a + r_endpoints S a" "r_streams (with_refs R S) a = r_streams R a + r_streams S a"
  by (simp_all add: with_refs_def)

lemma refs_ext:
  "r_contexts R = r_contexts S \<Longrightarrow> r_workers R = r_workers S \<Longrightarrow> r_endpoints R = r_endpoints S \<Longrightarrow> r_streams R = r_streams S \<Longrightarrow>
   R = (S :: refs)"
  by (cases R; cases S) simp

lemma with_refs_ac: "with_refs (with_refs R S) T = with_refs R (with_refs S T)" "with_refs R S = with_refs S R"
    "with_refs R (with_refs S T) = with_refs S (with_refs R T)"
  by (rule refs_ext; simp add: fun_eq_iff)+

lemma with_no_refs [simp]: "with_refs R no_refs = R" "with_refs no_refs R = R"
  by (rule refs_ext; simp add: fun_eq_iff no_refs_def)+

definition kept_by :: "('u, 'wk) env \<Rightarrow> refs \<Rightarrow> (nat \<Rightarrow> nat) \<Rightarrow> refs \<Rightarrow> (refs \<Rightarrow> bool) \<Rightarrow> ('u, 'wk, 's, 'c) world \<Rightarrow> bool" where
  "kept_by E F L T P v \<longleftrightarrow> (\<exists>S'. holds E (with_refs F (with_refs S' T)) L v \<and> P S')"

primrec future_safe ::
  "('u, 'wk) env \<Rightarrow> refs \<Rightarrow> (nat \<Rightarrow> nat) \<Rightarrow> ('a \<Rightarrow> refs \<Rightarrow> bool) \<Rightarrow> (('u, 'wk, 's, 'c) world, 'a) future \<Rightarrow> refs \<Rightarrow> bool" where
  "future_safe E F L Q (Done x) = (\<lambda>S. Q x S)"
| "future_safe E F L Q (Do m) = (\<lambda>S. \<forall>T w. holds E (with_refs F (with_refs S T)) L w \<longrightarrow>
     safely (\<lambda>w. map_prod (map_outcome (future_safe E F L Q)) (\<lambda>v. v) (m w)) w (\<lambda>safe. kept_by E F L T safe))"
| "future_safe E F L Q (Await p) = (\<lambda>S. \<forall>T w. holds E (with_refs F (with_refs S T)) L w \<longrightarrow>
     safely (\<lambda>w. map_prod (map_outcome (map_resumption (future_safe E F L Q))) (\<lambda>v. v) (p w)) w (\<lambda>r. case r of
         Same \<Rightarrow> holds E (with_refs F (with_refs S T)) L
       | Later safe \<Rightarrow> kept_by E F L T safe
       | Next safe \<Rightarrow> kept_by E F L T safe))"

lemma safely_map: "safely (\<lambda>w. map_prod (map_outcome h) (\<lambda>v. v) (m w)) w P \<longleftrightarrow> safely m w (\<lambda>x. P (h x))"
  by (simp add: safely_def split: prod.split outcome.split)

lemma future_safe_do: "future_safe E F L Q (Do m) S \<longleftrightarrow> (\<forall>T w. holds E (with_refs F (with_refs S T)) L w \<longrightarrow>
     safely m w (\<lambda>f. kept_by E F L T (future_safe E F L Q f)))"
  by (simp add: safely_map)

lemma case_map_resumption:
  "(case map_resumption h r of Same \<Rightarrow> u | Later g \<Rightarrow> x g | Next g \<Rightarrow> y g) = (case r of Same \<Rightarrow> u | Later f \<Rightarrow> x (h f) | Next f \<Rightarrow> y (h f))"
  by (simp split: resumption.split)

lemma future_safe_await: "future_safe E F L Q (Await p) S \<longleftrightarrow> (\<forall>T w. holds E (with_refs F (with_refs S T)) L w \<longrightarrow>
     safely p w (\<lambda>r. case r of
         Same \<Rightarrow> holds E (with_refs F (with_refs S T)) L
       | Later f \<Rightarrow> kept_by E F L T (future_safe E F L Q f)
       | Next f \<Rightarrow> kept_by E F L T (future_safe E F L Q f)))"
  by (simp add: safely_map case_map_resumption)

declare future_safe.simps(2,3) [simp del]

lemma safely_strong: "safely m w P \<Longrightarrow> (\<And>x v. m w = (Ret x, v) \<Longrightarrow> P x v \<Longrightarrow> Q x v) \<Longrightarrow> safely m w Q"
  by (auto simp: safely_def split: prod.splits outcome.splits)

text \<open>A poll of a safe future leaves a safe future.\<close>

lemma safely_poll_future:
  fixes w :: "('u, 'wk, 's, 'c) world"
  assumes "future_safe E F L Q f S" "holds E (with_refs F (with_refs S T)) L w"
  shows "safely (poll_future f) w (\<lambda>f'. kept_by E F L T (future_safe E F L Q f'))"
  using assms
proof (induction f arbitrary: S w)
  case (Done x)
  then show ?case by (auto simp: kept_by_def)
next
  case (Do m)
  show ?case
    unfolding poll_do safely_bind_iff
  proof (rule safely_strong)
    show "safely m w (\<lambda>f. kept_by E F L T (future_safe E F L Q f))"
      using Do.prems by (simp add: future_safe_do)
  next
    fix f v assume run: "m w = (Ret f, v)" and "kept_by E F L T (future_safe E F L Q f) v"
    then obtain S' where "holds E (with_refs F (with_refs S' T)) L v" "future_safe E F L Q f S'"
      by (auto simp: kept_by_def)
    then show "safely (poll_future f) v (\<lambda>f'. kept_by E F L T (future_safe E F L Q f'))"
      using Do.IH [of "m w" "Ret f" f S'] run by (simp add: range_eqI [of _ _ w])
  qed
next
  case (Await p)
  show ?case
    unfolding poll_await safely_bind_iff
  proof (rule safely_strong)
    show "safely p w (\<lambda>r. case r of Same \<Rightarrow> holds E (with_refs F (with_refs S T)) L
       | Later f \<Rightarrow> kept_by E F L T (future_safe E F L Q f) | Next f \<Rightarrow> kept_by E F L T (future_safe E F L Q f))"
      using Await.prems by (simp add: future_safe_await)
  next
    fix r v
    assume run: "p w = (Ret r, v)" and r: "(case r of Same \<Rightarrow> holds E (with_refs F (with_refs S T)) L
       | Later f \<Rightarrow> kept_by E F L T (future_safe E F L Q f) | Next f \<Rightarrow> kept_by E F L T (future_safe E F L Q f)) v"
    show "safely (case r of Same \<Rightarrow> ret (Await p) | Later f \<Rightarrow> ret f | Next f \<Rightarrow> poll_future f) v
        (\<lambda>f'. kept_by E F L T (future_safe E F L Q f'))"
    proof (cases r)
      case Same
      then show ?thesis using r Await.prems(1) by (auto simp: kept_by_def)
    next
      case (Later f)
      then show ?thesis using r by simp
    next
      case (Next f)
      then obtain S' where "holds E (with_refs F (with_refs S' T)) L v" "future_safe E F L Q f S'"
        using r by (auto simp: kept_by_def)
      then show ?thesis
        using Await.IH [of "p w" "Ret r" r f S'] run Next by (simp add: range_eqI [of _ _ w])
    qed
  qed
qed

text \<open>Two futures, joined.\<close>

lemma safely_poll_both:
  fixes w :: "('u, 'wk, 's, 'c) world" and f :: "(('u, 'wk, 's, 'c) world, 'a) future" and g :: "(('u, 'wk, 's, 'c) world, 'b) future"
  assumes "future_safe E F L P f S" "future_safe E F L Q g T" "holds E (with_refs F (with_refs S T)) L w"
  shows "safely (poll_both turn f g) w (\<lambda>(f', g') v. \<exists>S T. future_safe E F L P f' S \<and> future_safe E F L Q g' T
    \<and> holds E (with_refs F (with_refs S T)) L v)"
  using assms
proof (induction turn f g arbitrary: S T w rule: poll_both.induct)
  case (2 turn f g)
  show ?case
    unfolding poll_both.simps
  proof (rule safely_bind [OF safely_poll_future [OF "2.prems"(1,3)]])
    fix f' :: "(('u, 'wk, 's, 'c) world, 'a) future" and v :: "('u, 'wk, 's, 'c) world" assume "kept_by E F L T (future_safe E F L P f') v"
    then obtain S' where S': "holds E (with_refs F (with_refs S' T)) L v" "future_safe E F L P f' S'"
      by (auto simp: kept_by_def)
    show "safely (poll_both turn f' g) v (\<lambda>(f', g') v. \<exists>S T. future_safe E F L P f' S \<and> future_safe E F L Q g' T
        \<and> holds E (with_refs F (with_refs S T)) L v)"
      by (rule "2.IH" [OF S'(2) "2.prems"(2) S'(1)])
  qed
next
  case (3 turn f g)
  have w: "holds E (with_refs F (with_refs T S)) L w" using "3.prems"(3) unfolding with_refs_ac(2) [of T S] .
  show ?case
    unfolding poll_both.simps
  proof (rule safely_bind [OF safely_poll_future [OF "3.prems"(2) w]])
    fix g' :: "(('u, 'wk, 's, 'c) world, 'b) future" and v :: "('u, 'wk, 's, 'c) world" assume "kept_by E F L S (future_safe E F L Q g') v"
    then obtain T' where T': "holds E (with_refs F (with_refs S T')) L v" "future_safe E F L Q g' T'"
      unfolding kept_by_def with_refs_ac(2) [of _ S] by blast
    show "safely (poll_both turn f g') v (\<lambda>(f', g') v. \<exists>S T. future_safe E F L P f' S \<and> future_safe E F L Q g' T
        \<and> holds E (with_refs F (with_refs S T)) L v)"
      by (rule "3.IH" [OF "3.prems"(1) T'(2,1)])
  qed
qed auto

lemma safely_join_rounds:
  fixes w :: "('u, 'wk, 's, 'c) world" and f :: "(('u, 'wk, 's, 'c) world, 'a) future" and g :: "(('u, 'wk, 's, 'c) world, 'b) future"
  assumes others: "\<And>w R L. holds E R L w \<Longrightarrow> holds E R L (others w)"
    and "future_safe E F L P f S" "future_safe E F L Q g T" "holds E (with_refs F (with_refs S T)) L w"
  shows "safely (join_rounds others schedule n f g) w (\<lambda>(x, y) v. \<exists>S T. P x S \<and> Q y T \<and> holds E (with_refs F (with_refs S T)) L v)"
  using assms(2-)
proof (induction n arbitrary: f g S T w)
  case 0
  then show ?case by (simp add: safely_lift)
next
  case (Suc n)
  show ?case
    unfolding join_rounds.simps
  proof (rule safely_bind [OF safely_poll_both [OF Suc.prems]], clarify)
    fix f' :: "(('u, 'wk, 's, 'c) world, 'a) future" and g' :: "(('u, 'wk, 's, 'c) world, 'b) future" and S' T'
      and v :: "('u, 'wk, 's, 'c) world"
    assume rest: "future_safe E F L P f' S'" "future_safe E F L Q g' T'" "holds E (with_refs F (with_refs S' T')) L v"
    show "safely (case joined f' g' of Some r \<Rightarrow> ret r | None \<Rightarrow> bind (modify others) (\<lambda>_. join_rounds others schedule n f' g')) v
        (\<lambda>(x, y) v. \<exists>S T. P x S \<and> Q y T \<and> holds E (with_refs F (with_refs S T)) L v)"
    proof (cases "joined f' g'")
      case None
      have "holds E (with_refs F (with_refs S' T')) L (others v)" using others rest(3) .
      from Suc.IH [OF rest(1,2) this] None show ?thesis by (simp add: safely_bind_iff)
    next
      case (Some r)
      then obtain x y where "f' = Done x" "g' = Done y" "r = (x, y)"
        by (cases "(f', g')" rule: joined.cases) auto
      with rest Some show ?thesis by auto
    qed
  qed
qed

lemma safely_join:
  fixes w :: "('u, 'wk, 's, 'c) world"
  assumes "steady E X" "holds E F L w" "future_safe E F L P f no_refs" "future_safe E F L Q g no_refs"
  shows "safely (join X schedule f g) w (\<lambda>(x, y) v. \<exists>S T. P x S \<and> Q y T \<and> holds E (with_refs F (with_refs S T)) L v)"
  unfolding join_def by (rule safely_join_rounds [OF _ assms(3,4)]) (use assms(1,2) in \<open>auto simp: steady_def\<close>)

section \<open>The operations are safe futures\<close>

lemma future_sync:
  assumes "\<And>T w. holds E (with_refs F (with_refs S T)) L (w :: ('u, 'wk, 's, 'c) world) \<Longrightarrow>
      safely m w (\<lambda>x v. holds E (with_refs F (with_refs (S' x) T)) L v \<and> G x)"
    and "\<And>x. G x \<Longrightarrow> future_safe E F L Q (k x) (S' x)"
  shows "future_safe E F L Q (sync m k) S"
  unfolding sync_def future_safe_do
proof (intro allI impI)
  fix T and w :: "('u, 'wk, 's, 'c) world" assume w: "holds E (with_refs F (with_refs S T)) L w"
  show "safely (bind m (\<lambda>x. ret (k x))) w (\<lambda>f. kept_by E F L T (future_safe E F L Q f))"
    by (rule safely_bind [OF assms(1) [OF w]]) (use assms(2) in \<open>auto simp: kept_by_def\<close>)
qed

lemma future_await_then:
  assumes "calm_test (f p :: (('u, 'wk, 's, 'c) world, 'a poll) prog)" "p \<in> handed_out E" "\<And>x. future_safe E F L Q (k x) S"
  shows "future_safe E F L Q (await_then E t f p k) S"
  unfolding await_then_def future_safe_await
proof (intro allI impI)
  fix T and w :: "('u, 'wk, 's, 'c) world" assume w: "holds E (with_refs F (with_refs S T)) L w"
  show "safely (bind (request_poll E f p t) (\<lambda>r. case r of
       Ready x \<Rightarrow> bind (request_drop E p) (\<lambda>_. ret (Next (k x))) | Pending \<Rightarrow> ret Same)) w
     (\<lambda>r. case r of Same \<Rightarrow> holds E (with_refs F (with_refs S T)) L
       | Later f \<Rightarrow> kept_by E F L T (future_safe E F L Q f) | Next f \<Rightarrow> kept_by E F L T (future_safe E F L Q f))"
    by (rule safely_bind [OF safely_poll [where f = f, OF assms(1) w assms(2)]])
      (use assms(3) in \<open>auto simp: request_drop_def safely_bind_iff safely_def [of "ffi _ _"] ffi_after kept_by_def split: poll.split\<close>)
qed

context ucx_library
begin

lemma future_on_ptr:
  assumes ptr: "ptr = ptr_of (fst (ucx E c u))"
    and "ptr = 0 \<Longrightarrow> future_safe E F L Q (a :: (('u, 'wk, 's, 'c) world, 'b) future) S" "ptr \<in> handed_out E \<Longrightarrow> future_safe E F L Q b S"
    and "UCS_PTR_IS_ERR (binds E) ptr \<Longrightarrow> future_safe E F L Q d S"
  shows "future_safe E F L Q (on_ptr E ptr a b d) S"
proof (cases "ptr = 0")
  case True
  then show ?thesis using assms(2) by (simp add: on_ptr_def)
next
  case False
  let ?G = "\<lambda>is_ptr. is_ptr = (\<not> UCS_PTR_IS_ERR (binds E) ptr)"
  have "future_safe E F L Q (sync (lift (UCS_PTR_IS_PTR (prof E) (binds E) ptr)) (\<lambda>is_ptr. if is_ptr then b else d)) S"
  proof (rule future_sync [where S' = "\<lambda>_. S" and G = ?G])
    fix T and w :: "('u, 'wk, 's, 'c) world" assume w: "holds E (with_refs F (with_refs S T)) L w"
    then show "safely (lift (UCS_PTR_IS_PTR (prof E) (binds E) ptr)) w (\<lambda>x v. holds E (with_refs F (with_refs S T)) L v \<and> ?G x)"
      using trichotomy [of ptr "prof E"] False by (simp add: safely_lift split: if_splits)
  next
    fix x assume "?G x"
    moreover have "\<not> UCS_PTR_IS_ERR (binds E) ptr \<Longrightarrow> ptr \<in> handed_out E"
      using ptr False by (auto simp: handed_out_def)
    ultimately show "future_safe E F L Q (if x then b else d) S" using assms(3,4) by auto
  qed
  with False show ?thesis by (simp add: on_ptr_def)
qed

lemma future_ptr_error:
  assumes "\<And>res. future_safe E F L Q (k res :: (('u, 'wk, 's, 'c) world, 'b) future) S"
  shows "future_safe E F L Q (sync (ptr_error E (ptr_of (fst (ucx E c u)))) k) S"
  by (rule future_sync [where S' = "\<lambda>_. S" and G = "\<lambda>_. True"]) (use safely_ptr_error assms in auto)

lemma future_call:
  assumes "\<And>r u. r = fst (ucx E c u) \<Longrightarrow> future_safe E F L Q (k r :: (('u, 'wk, 's, 'c) world, 'b) future) S"
  shows "future_safe E F L Q (sync (ffi E c) k) S"
  by (rule future_sync [where S' = "\<lambda>_. S" and G = "\<lambda>r. \<exists>u. r = fst (ucx E c u)"])
    (use assms in \<open>auto intro: safely_mono [OF safely_ffi]\<close>)

lemma future_get_handle:
  assumes "0 < r_endpoints (with_refs F S) (ep_inner e)" "\<And>res. future_safe E F L Q (k res :: (('u, 'wk, 's, 'c) world, 'b) future) S"
  shows "future_safe E F L Q (sync (get_handle E e) k) S"
proof (rule future_sync [where S' = "\<lambda>_. S" and G = "\<lambda>_. True"])
  fix T and w :: "('u, 'wk, 's, 'c) world" assume w: "holds E (with_refs F (with_refs S T)) L w"
  show "safely (get_handle E e) w (\<lambda>x v. holds E (with_refs F (with_refs S T)) L v \<and> True)"
    by (rule safely_mono [OF safely_get_handle [OF w]]) (use assms(1) w in auto)
qed (use assms(2) in simp)

lemma future_lift:
  assumes "\<And>x. out = Ret x \<Longrightarrow> future_safe E F L Q (k x :: (('u, 'wk, 's, 'c) world, 'b) future) S" "\<And>f. out = Fault f \<Longrightarrow> \<not> memory_fault f"
  shows "future_safe E F L Q (sync (lift out) k) S"
  by (rule future_sync [where S' = "\<lambda>_. S" and G = "\<lambda>x. out = Ret x"])
    (use assms in \<open>auto simp: safely_lift split: outcome.split\<close>)

lemma future_result:
  assumes "\<And>res. future_safe E F L Q (k res :: (('u, 'wk, 's, 'c) world, 'b) future) S"
  shows "future_safe E F L Q (case res of Inl err \<Rightarrow> k (Err err) | Inr _ \<Rightarrow> k (Ok x)) S"
  using assms by (simp split: sum.split)

lemma future_nb:
  assumes "0 < r_endpoints (with_refs F S) (ep_inner e)" "\<And>res. future_safe E F L Q (k res :: (('u, 'wk, 's, 'c) world, 'b) future) S"
  shows "future_safe E F L Q (nb_future E t e call (Ret x) (ptr_error E) k) S"
  unfolding nb_future_def
proof (rule future_get_handle [OF assms(1)])
  fix res :: "(handle, Error) result"
  show "future_safe E F L Q (case res of Inl err \<Rightarrow> k (Err err)
     | Inr h \<Rightarrow> sync (ffi E (call h)) (\<lambda>r. sync (lift (Ret x)) (\<lambda>x. on_ptr E (ptr_of r) (k (Ok x))
         (await_then E t (poll_normal E) (ptr_of r) (\<lambda>result. case result of Inl err \<Rightarrow> k (Err err) | Inr _ \<Rightarrow> k (Ok x)))
         (sync (ptr_error E (ptr_of r)) k)))) S"
  proof (cases res)
    case (Inr h)
    show ?thesis
      unfolding Inr sum.case
    proof (rule future_call, rule future_lift)
      fix r u y assume r: "r = fst (ucx E (call h) u)"
      show "future_safe E F L Q (on_ptr E (ptr_of r) (k (Ok y))
         (await_then E t (poll_normal E) (ptr_of r) (\<lambda>result. case result of Inl err \<Rightarrow> k (Err err) | Inr _ \<Rightarrow> k (Ok y)))
         (sync (ptr_error E (ptr_of r)) k)) S"
        unfolding r by (rule future_on_ptr [OF refl])
          (use assms(2) in \<open>auto intro!: future_await_then calm_tests future_ptr_error future_result\<close>)
    qed simp
  qed (use assms(2) in simp)
qed

lemma future_sends:
  assumes "0 < r_endpoints (with_refs F S) (ep_inner e)"
    and "\<And>res. future_safe E F L Q (k res :: (('u, 'wk, 's, 'c) world, 'b) future) S"
  shows "future_safe E F L Q (stream_send_future E t e buf k) S" "future_safe E F L Q (tag_send_future E t e tag buf k) S"
  unfolding stream_send_future_def tag_send_future_def by (rule future_nb [OF assms])+

lemma future_am_send:
  assumes "0 < r_endpoints (with_refs F S) (ep_inner e)"
    and "\<And>res. future_safe E F L Q (k res :: (('u, 'wk, 's, 'c) world, 'b) future) S"
  shows "future_safe E F L Q (am_send_future E t e i header data again proto k) S"
  unfolding am_send_future_def by (rule future_nb [OF assms])

lemma future_stream_recv:
  assumes "0 < r_endpoints (with_refs F S) (ep_inner e)"
    and "\<And>res. future_safe E F L Q (k res :: (('u, 'wk, 's, 'c) world, 'b) future) S"
  shows "future_safe E F L Q (stream_recv_future E t e buf k) S"
  unfolding stream_recv_future_def
proof (rule future_get_handle [OF assms(1)])
  fix res :: "(handle, Error) result"
  let ?c = "\<lambda>h. Ucp_stream_recv_nb h (Bytes (as_ptr buf)) (slice_len buf) (ucp_dt_make_contig (binds E) 1)"
  show "future_safe E F L Q (case res of Inl err \<Rightarrow> k (Err err)
     | Inr h \<Rightarrow> sync (ffi E (?c h)) (\<lambda>r. on_ptr E (ptr_of r) (sync (lift (assume_init (out_len r))) (\<lambda>len. k (Ok len)))
           (await_then E t (poll_stream E) (ptr_of r) (\<lambda>len. k (Ok len))) (sync (ptr_error E (ptr_of r)) k))) S"
  proof (cases res)
    case (Inr h)
    show ?thesis
      unfolding Inr sum.case
    proof (rule future_call)
      fix r u assume r: "r = fst (ucx E (?c h) u)"
      have init: "future_safe E F L Q (sync (lift (assume_init (out_len r))) (\<lambda>len. k (Ok len))) S"
        by (rule future_lift) (use assms(2) in \<open>auto split: option.splits elim!: assume_init.elims\<close>)
      show "future_safe E F L Q (on_ptr E (ptr_of r) (sync (lift (assume_init (out_len r))) (\<lambda>len. k (Ok len)))
           (await_then E t (poll_stream E) (ptr_of r) (\<lambda>len. k (Ok len))) (sync (ptr_error E (ptr_of r)) k)) S"
        by (rule future_on_ptr [where c = "?c h" and u = u])
          (use assms(2) init r in \<open>auto intro!: future_await_then calm_tests future_ptr_error\<close>)
    qed
  qed (use assms(2) in simp)
qed

lemma future_worker_call:
  assumes "0 < r_workers (with_refs F S) wk"
    and "\<And>r h u. r = fst (ucx E (call h) u) \<Longrightarrow> future_safe E F L Q (k r :: (('u, 'wk, 's, 'c) world, 'b) future) S"
  shows "future_safe E F L Q (sync (worker_call E wk call) k) S"
proof (rule future_sync [where S' = "\<lambda>_. S" and G = "\<lambda>r. \<exists>h u. r = fst (ucx E (call h) u)"])
  fix T and w :: "('u, 'wk, 's, 'c) world" assume w: "holds E (with_refs F (with_refs S T)) L w"
  have "0 < worker_refs w (with_refs F (with_refs S T)) wk" using assms(1) by (intro held_worker) auto
  then show "safely (worker_call E wk call) w (\<lambda>r v. holds E (with_refs F (with_refs S T)) L v \<and> (\<exists>h u. r = fst (ucx E (call h) u)))"
    by (rule safely_mono [OF safely_worker_call [OF w]]) auto
qed (use assms(2) in auto)

lemma future_tag_recv:
  assumes "0 < r_workers (with_refs F S) wk" "tag_requests E"
    and "\<And>res. future_safe E F L Q (k res :: (('u, 'wk, 's, 'c) world, 'b) future) S"
  shows "future_safe E F L Q (tag_recv_future E t wk tag buf k) S"
  unfolding tag_recv_future_def
proof (rule future_worker_call [OF assms(1)])
  fix r h u
  let ?c = "Ucp_tag_recv_nb h (Bytes (as_ptr buf)) (slice_len buf) (ucp_dt_make_contig (binds E) 1) tag (- 1)"
  assume r: "r = fst (ucx E ?c u)"
  have ready: "ptr_of r \<in> handed_out E" if "\<not> UCS_PTR_IS_ERR (binds E) (ptr_of r)"
    using that assms(2) r by (auto simp: handed_out_def tag_requests_def)
  have wait: "future_safe E F L Q (await_then E t (poll_tag E) (ptr_of r) (\<lambda>result. k (map_sum id snd result))) S"
    if "ptr_of r \<in> handed_out E"
    using that assms(3) by (intro future_await_then calm_tests)
  show "future_safe E F L Q (sync (lift (from_ptr (prof E) (binds E) (ptr_of r))) (\<lambda>res. case res of Inl err \<Rightarrow> k (Err err)
     | Inr _ \<Rightarrow> await_then E t (poll_tag E) (ptr_of r) (\<lambda>result. k (map_sum id snd result)))) S"
    by (rule future_lift) (use assms(3) wait ready r from_returned [of "prof E" ?c u] in \<open>auto split: if_splits\<close>)
qed

end

lemma with_endpoint:
  "with_refs F (with_refs (S\<lparr>r_endpoints := inc a (r_endpoints S)\<rparr>) T) =
   (with_refs F (with_refs S T))\<lparr>r_endpoints := inc a (r_endpoints (with_refs F (with_refs S T)))\<rparr>"
  by (rule refs_ext) (auto simp: fun_eq_iff)

context ucx_library
begin

lemma future_endpoint_drop:
  assumes "future_safe E F L Q (k ()) (S :: refs)"
  shows "future_safe E F L Q (sync (endpoint_drop E e) (k :: unit \<Rightarrow> (('u, 'wk, 'q, 'n, 'c) full_world, 'b) future))
    (S\<lparr>r_endpoints := inc (ep_inner e) (r_endpoints S)\<rparr>)"
proof (rule future_sync [where S' = "\<lambda>_. S" and G = "\<lambda>_. True"])
  fix T and w :: "('u, 'wk, 'q, 'n, 'c) full_world"
  assume "holds E (with_refs F (with_refs (S\<lparr>r_endpoints := inc (ep_inner e) (r_endpoints S)\<rparr>) T)) L w"
  then have w: "holds E ((with_refs F (with_refs S T))\<lparr>r_endpoints := inc (ep_inner e) (r_endpoints (with_refs F (with_refs S T)))\<rparr>) L w"
    unfolding with_endpoint .
  show "safely (endpoint_drop E e) w (\<lambda>_ v. holds E (with_refs F (with_refs S T)) L v \<and> True)"
    by (rule safely_mono [OF safely_endpoint_drop [OF w]]) (simp_all del: with_refs_simps)
qed (use assms in simp)

lemma future_first_message:
  fixes k :: "(Endpoint, Error) result \<Rightarrow> (('u, 'wk, 'q, 'n, 'c) full_world, 'b) future"
  assumes held: "0 < r_workers (with_refs F S) wk"
    and m: "\<And>e S k'. 0 < r_endpoints (with_refs F S) (ep_inner e) \<Longrightarrow> (\<And>res. future_safe E F L Q (k' res) S) \<Longrightarrow>
      future_safe E F L Q (m e k') S"
    and k: "\<And>err. future_safe E F L Q (k (Err err)) S"
      "\<And>e. future_safe E F L Q (k (Ok e)) (S\<lparr>r_endpoints := inc (ep_inner e) (r_endpoints S)\<rparr>)"
  shows "future_safe E F L Q (first_message E wk params m k) S"
  unfolding first_message_def
proof (rule future_sync [where G = "\<lambda>_. True"
      and S' = "\<lambda>res. case res of Inl _ \<Rightarrow> S | Inr e \<Rightarrow> S\<lparr>r_endpoints := inc (ep_inner e) (r_endpoints S)\<rparr>"])
  fix T and w :: "('u, 'wk, 'q, 'n, 'c) full_world" assume w: "holds E (with_refs F (with_refs S T)) L w"
  show "safely (endpoint_create E wk params) w (\<lambda>res v. holds E (with_refs F (with_refs (case res of Inl _ \<Rightarrow> S
      | Inr e \<Rightarrow> S\<lparr>r_endpoints := inc (ep_inner e) (r_endpoints S)\<rparr>) T)) L v \<and> True)"
    by (rule safely_mono [OF safely_endpoint_create [OF w]]) (use held in \<open>auto simp: with_endpoint split: sum.splits\<close>)
next
  fix res :: "(Endpoint, Error) result"
  show "future_safe E F L Q (case res of Inl err \<Rightarrow> k (Err err)
     | Inr e \<Rightarrow> m e (\<lambda>result. case result of Inl err \<Rightarrow> sync (endpoint_drop E e) (\<lambda>_. k (Err err)) | Inr _ \<Rightarrow> k (Ok e)))
     (case res of Inl _ \<Rightarrow> S | Inr e \<Rightarrow> S\<lparr>r_endpoints := inc (ep_inner e) (r_endpoints S)\<rparr>)"
  proof (cases res)
    case (Inr e)
    show ?thesis
      unfolding Inr sum.case by (rule m) (use k in \<open>auto intro: future_endpoint_drop split: sum.split\<close>)
  qed (use k(1) in simp)
qed

lemma future_connecting:
  fixes k :: "(Endpoint, Error) result \<Rightarrow> (('u, 'wk, 'q, 'n, 'c) full_world, 'b) future"
  assumes "0 < r_workers (with_refs F S) wk" "\<And>err. future_safe E F L Q (k (Err err)) S"
    and "\<And>e. future_safe E F L Q (k (Ok e)) (S\<lparr>r_endpoints := inc (ep_inner e) (r_endpoints S)\<rparr>)"
  shows "future_safe E F L Q (connect_future E t wk addr p k) S" "future_safe E F L Q (accept_future E t wk conn buf k) S"
  unfolding connect_future_def accept_future_def
  by (rule future_first_message [OF assms(1) _ assms(2,3)], erule future_sends, assumption)
    (rule future_first_message [OF assms(1) _ assms(2,3)], erule future_stream_recv, assumption)

end

lemma future_next:
  fixes k :: "ConnectionRequest \<Rightarrow> (('u, 'wk, 'q, 'n, 'c) full_world, 'b) future"
  assumes "0 < L (l_channel l)" "\<And>c. future_safe E F L Q (k c) S"
  shows "future_safe E F L Q (next_future C l k) S"
  unfolding next_future_def future_safe_await
proof (intro allI impI)
  fix T and w :: "('u, 'wk, 'q, 'n, 'c) full_world"
  let ?R = "with_refs F (with_refs S T)"
  assume w: "holds E ?R L w"
  then have chan: "channels_ok w L" by (simp add: holds_def)
  obtain b where b: "cells (channels w) (l_channel l) = Some b" "0 < strong b"
    using channel_held [OF chan assms(1)] .
  obtain r c' where recv: "ch_recv C (val b) = (r, c')" by fastforce
  note update = channel_update [OF chan b, of "\<lambda>_. c'"]
  let ?v = "w\<lparr>channels := put_cell (l_channel l) (b\<lparr>val := c'\<rparr>) (channels w)\<rparr>"
  have v: "holds E ?R L ?v"
    using w update(2) by (simp add: holds_def requests_ready_def maps_ok_def)
  have get: "on_channels (rc_get (l_channel l)) w = (Ret (val b), w)"
    using b by (simp add: on_channels_def rc_on_cell)
  have run: "bind (on_channels (rc_get (l_channel l))) (\<lambda>c. case ch_recv C c of (r, c') \<Rightarrow>
       bind (on_channels (rc_update (l_channel l) (\<lambda>_. c'))) (\<lambda>_. case r of Some conn \<Rightarrow> ret (Next (k conn)) | None \<Rightarrow> ret Same)) w
     = (case r of Some conn \<Rightarrow> ret (Next (k conn)) | None \<Rightarrow> ret Same) ?v"
    using update(1) by (simp add: bind_def get recv)
  have "safely (case r of Some conn \<Rightarrow> ret (Next (k conn)) | None \<Rightarrow> ret Same) ?v (\<lambda>r. case r of Same \<Rightarrow> holds E ?R L
       | Later f \<Rightarrow> kept_by E F L T (future_safe E F L Q f) | Next f \<Rightarrow> kept_by E F L T (future_safe E F L Q f))"
    using v assms(2) by (auto simp: kept_by_def split: option.split)
  then show "safely (bind (on_channels (rc_get (l_channel l))) (\<lambda>c. case ch_recv C c of (r, c') \<Rightarrow>
       bind (on_channels (rc_update (l_channel l) (\<lambda>_. c'))) (\<lambda>_. case r of Some conn \<Rightarrow> ret (Next (k conn)) | None \<Rightarrow> ret Same))) w
     (\<lambda>r. case r of Same \<Rightarrow> holds E ?R L
       | Later f \<Rightarrow> kept_by E F L T (future_safe E F L Q f) | Next f \<Rightarrow> kept_by E F L T (future_safe E F L Q f))"
    unfolding safely_def run .
qed

lemma calm_poll_recv: "calm_test (poll_recv E p)"
  unfolding calm_test_def
  by (simp, simp add: poll_recv_def safely_bind_iff)

lemma usize_sum_fault: "usize_sum p n xs = Fault f \<Longrightarrow> \<not> memory_fault f"
  by (induction xs arbitrary: n) (auto simp: usize_add_def split: if_splits)

lemma copy_no_memory_fault: "copy_data_to_iov p data iov = Fault f \<Longrightarrow> \<not> memory_fault f"
  by (cases "usize_sum p 0 (map slice_len iov)")
    (auto simp: copy_data_to_iov_def split: if_splits prod.splits dest: usize_sum_fault)

context ucx_library
begin

lemma future_reply:
  assumes "\<And>res. future_safe E F L Q (k res :: (('u, 'wk, 's, 'c) world, 'b) future) S"
  shows "future_safe E F L Q (reply_future E t m i header data again proto k) S"
proof (cases "need_reply (binds E) m")
  case True
  let ?c = "Ucp_am_send_nbx (reply_ep (msg m)) i header (fst (am_buffer [data])) (snd (am_buffer [data])) (am_send_param (binds E) [data] again proto)"
  show ?thesis
    unfolding reply_future_def am_send_raw_future_def
  proof (simp add: True, rule future_call)
    fix r u assume r: "r = fst (ucx E ?c u)"
    show "future_safe E F L Q (on_ptr E (ptr_of r) (k (Ok ())) (await_then E t (poll_normal E) (ptr_of r) k)
       (sync (ptr_error E (ptr_of r)) k)) S"
      unfolding r by (rule future_on_ptr [OF refl]) (use assms in \<open>auto intro!: future_await_then calm_tests future_ptr_error\<close>)
  qed
next
  case False
  then show ?thesis unfolding reply_future_def by (auto intro: future_lift)
qed

lemma future_drop_msg:
  assumes "0 < r_workers (with_refs F S) (m_worker m)" "future_safe E F L Q (k () :: (('u, 'wk, 's, 'c) world, 'b) future) S"
  shows "future_safe E F L Q (sync (drop_msg E m d) k) S"
proof (rule future_sync [where S' = "\<lambda>_. S" and G = "\<lambda>_. True"])
  fix T and w :: "('u, 'wk, 's, 'c) world" assume w: "holds E (with_refs F (with_refs S T)) L w"
  have held: "0 < worker_refs w (with_refs F (with_refs S T)) (m_worker m)" using assms(1) by (intro held_worker) auto
  show "safely (drop_msg E m d) w (\<lambda>_ v. holds E (with_refs F (with_refs S T)) L v \<and> True)"
    by (cases "descriptor d") (auto simp: drop_msg_def safely_bind_iff w intro: safely_mono [OF safely_worker_call [OF w held]])
qed (use assms(2) in simp)

lemma future_recv_vectored:
  assumes held: "0 < r_workers (with_refs F S) (m_worker m)"
    and k: "\<And>res iov m'. m_worker m' = m_worker m \<Longrightarrow> future_safe E F L Q (k (res, iov, m') :: (('u, 'wk, 's, 'c) world, 'b) future) S"
  shows "future_safe E F L Q (recv_vectored_future E t m iov k) S"
proof (cases "msg_data (msg m)")
  case None
  then show ?thesis using k by (simp add: recv_vectored_future_def take_data_def)
next
  case (Some d)
  show ?thesis
  proof (cases d)
    case (Eager data)
    have "future_safe E F L Q (sync (lift (copy_data_to_iov (prof E) data iov)) (\<lambda>(res, iov'). k (res, iov', take_data m))) S"
      by (rule future_lift) (use k copy_no_memory_fault in \<open>auto simp: take_data_def\<close>)
    with Some Eager show ?thesis by (simp add: recv_vectored_future_def)
  next
    case (Data data)
    have "future_safe E F L Q (sync (lift (copy_data_to_iov (prof E) (contents data) iov)) (\<lambda>(res, iov'). case res of
           Inl err \<Rightarrow> k (Err err, iov', take_data m)
         | Inr n \<Rightarrow> sync (drop_msg E m (Data data)) (\<lambda>_. k (Ok n, iov', take_data m)))) S"
      by (rule future_lift)
        (use k copy_no_memory_fault in \<open>auto simp: take_data_def split: sum.split intro!: future_drop_msg [OF held]\<close>)
    with Some Data show ?thesis by (simp add: recv_vectored_future_def)
  next
    case (Rndv desc)
    have taken: "future_safe E F L Q (k (res, iov, take_data m)) S" for res using k by (simp add: take_data_def)
    show ?thesis
      unfolding recv_vectored_future_def Some Rndv option.case AmData.case
    proof (rule future_worker_call [OF held])
      fix r h u
      assume "r = fst (ucx E (Ucp_am_recv_data_nbx h (as_ptr desc) (fst (am_buffer iov)) (snd (am_buffer iov)) (am_recv_param (binds E) iov)) u)"
      then show "future_safe E F L Q (on_ptr E (ptr_of r) (k (Ok (slice_len desc), iov, take_data m))
             (await_then E t (poll_recv E) (ptr_of r) (\<lambda>_. k (Ok (slice_len desc), iov, take_data m)))
             (sync (ptr_error E (ptr_of r)) (\<lambda>res. k (res, iov, take_data m)))) S"
        using taken by (auto intro!: future_on_ptr [OF refl] future_await_then calm_poll_recv future_ptr_error)
    qed
  qed
qed

lemma future_recv_single:
  assumes "0 < r_workers (with_refs F S) (m_worker m)"
    and "\<And>res iov m'. m_worker m' = m_worker m \<Longrightarrow> future_safe E F L Q (k (res, iov, m') :: (('u, 'wk, 's, 'c) world, 'b) future) S"
  shows "future_safe E F L Q (recv_single_future E t m buf k) S"
  using assms by (simp add: recv_single_future_def future_recv_vectored)

lemma future_recv_data:
  assumes held: "0 < r_workers (with_refs F S) (m_worker m)"
    and k: "\<And>res m'. m_worker m' = m_worker m \<Longrightarrow> future_safe E F L Q (k (res, m') :: (('u, 'wk, 's, 'c) world, 'b) future) S"
  shows "future_safe E F L Q (recv_data_future E t m buf k) S"
  using k unfolding recv_data_future_def
  by (auto simp: take_data_def split: option.split AmData.split sum.split intro!: future_drop_msg [OF held] future_recv_single [OF held])

end

text \<open>A poll of \<^verbatim>\<open>wait_msg\<close> reads the state that the stream shares with its callback, and writes it back.\<close>

lemma holds_stream_write:
  fixes w :: "('u, 'wk, 'q, 'n, 'c) full_world"
  assumes w: "holds E R L w" and held: "0 < r_streams R a"
  obtains c where "on_streams (rc_get a) w = (Ret c, w)"
    "\<And>v. \<exists>w'. on_streams (rc_update a (\<lambda>_. v)) w = (Ret (), w') \<and> holds E R L w'"
proof -
  have own: "owns w R" and ref: "0 < stream_refs w R a"
    using w held by (simp_all add: holds_def stream_refs_def)
  obtain c where "cells (streams w) a = Some c" and get: "on_streams (rc_get a) w = (Ret (val c), w)" and update:
    "\<And>v. \<exists>w'. on_streams (rc_update a (\<lambda>_. v)) w = (Ret (), w') \<and> owns w' R \<and> workers w' = workers w \<and> channels w' = channels w"
    by (rule stream_write_owned [OF own ref]) (rule that)
  have "reqs w' = reqs w" if "on_streams m w = (r, w')" for m :: "('q, 'n) AmStreamInner heap \<Rightarrow> 'z outcome \<times> ('q, 'n) AmStreamInner heap" and r w'
    using that by (auto simp: on_streams_def split: prod.splits)
  then have "\<exists>w'. on_streams (rc_update a (\<lambda>_. v)) w = (Ret (), w') \<and> holds E R L w'" for v
    using update [of v] w by (fastforce simp: holds_def channels_ok_def requests_ready_def maps_ok_def)
  with get that show ?thesis by blast
qed

lemma safely_turn:
  fixes k :: "AmMsg option \<Rightarrow> (('u, 'wk, 'q, 'n, 'c) full_world, 'b) future"
  assumes held: "0 < r_streams (with_refs F S) (s_inner s)"
    and k: "\<And>m. (\<forall>m'. m = Some m' \<longrightarrow> m_worker m' = s_worker s) \<Longrightarrow> future_safe E F L Q (k m) S"
    and w: "holds E (with_refs F (with_refs S T)) L w"
    and parked: "\<And>v. holds E (with_refs F (with_refs S T)) L v \<Longrightarrow> P parked v"
    and go_on: "\<And>f v. future_safe E F L Q f S \<Longrightarrow> holds E (with_refs F (with_refs S T)) L v \<Longrightarrow> P (Next f) v"
  shows "safely (wait_turn_future A t s k suspended parked) w P"
proof -
  let ?R = "with_refs F (with_refs S T)"
  have "0 < r_streams ?R (s_inner s)" using held by auto
  with w obtain i where get: "on_streams (rc_get (s_inner s)) w = (Ret i, w)" and
    update: "\<And>v. \<exists>w'. on_streams (rc_update (s_inner s) (\<lambda>_. v)) w = (Ret (), w') \<and> holds E ?R L w'"
    by (rule holds_stream_write) (rule that)
  obtain r i' where turn: "wait_turn A t 2 i = (r, i')" by fastforce
  obtain w1 where w1: "on_streams (rc_update (s_inner s) (\<lambda>_. i')) w = (Ret (), w1)" "holds E ?R L w1"
    using update [of i'] by blast
  have run: "wait_turn_future A t s k suspended parked w =
    (if suspended \<and> n_pending (notify_ops A) t (notify i) then (Ret parked, w)
     else (case r of None \<Rightarrow> lift Unfinished
       | Some (Returned m) \<Rightarrow> ret (Next (k (map_option (\<lambda>m. \<lparr>m_worker = s_worker s, msg = m\<rparr>) m)))
       | Some Parked \<Rightarrow> ret parked) w1)"
    by (simp add: wait_turn_future_def bind_def get turn w1(1) ret_def)
  have "safely (case r of None \<Rightarrow> lift Unfinished
       | Some (Returned m) \<Rightarrow> ret (Next (k (map_option (\<lambda>m. \<lparr>m_worker = s_worker s, msg = m\<rparr>) m)))
       | Some Parked \<Rightarrow> ret parked) w1 P"
    using w1(2) parked by (auto simp: safely_lift intro!: go_on k split: option.split AmStream.turn.split)
  then show ?thesis
    using parked w unfolding run safely_def by auto
qed

lemma future_wait_msg:
  fixes k :: "AmMsg option \<Rightarrow> (('u, 'wk, 'q, 'n, 'c) full_world, 'b) future"
  assumes held: "0 < r_streams (with_refs F S) (s_inner s)"
    and k: "\<And>m. (\<forall>m'. m = Some m' \<longrightarrow> m_worker m' = s_worker s) \<Longrightarrow> future_safe E F L Q (k m) S"
  shows "future_safe E F L Q (wait_msg_future A t s k) S"
proof -
  have "future_safe E F L Q (wait_suspended A t s k) S"
    unfolding wait_suspended_def future_safe_await
    by (intro allI impI, rule safely_turn [OF held k]) (auto simp: kept_by_def)
  then show ?thesis
    unfolding wait_msg_future_def future_safe_await
    by (intro allI impI, intro safely_turn [OF held k]) (auto simp: kept_by_def)
qed

context ucx_library
begin

lemma safely_am_stream:
  fixes w :: "('u, 'wk, 'q, 'n, 'c) full_world"
  assumes w: "holds E R L w" "0 < r_workers R k"
  shows "safely (unwrapped (am_stream E A k i)) w
    (\<lambda>s v. s_worker s = k \<and> holds E (R\<lparr>r_streams := inc (s_inner s) (r_streams R)\<rparr>) L v)"
proof (rule safely_unwrapped)
  have own: "owns w R" and maps: "maps_ok w" using w(1) by (simp_all add: holds_def)
  obtain b where "cells (workers w) k = Some b"
    using countsD [OF owns_parts(4) [OF own] held_worker [OF w(2)]] by blast
  then have ok: "map_ok k w" by (rule maps_ok_at [OF maps])
  show "safely (am_stream E A k i) w (\<lambda>res v. \<forall>s. res = Ok s \<longrightarrow>
      s_worker s = k \<and> holds E (R\<lparr>r_streams := inc (s_inner s) (r_streams R)\<rparr>) L v)"
    by (rule safely_owned [OF am_stream_owned [OF ucx_library_axioms own held_worker [OF w(2)] ok] w(1),
          where S = "\<lambda>res. case res of Inl _ \<Rightarrow> R | Inr s \<Rightarrow> R\<lparr>r_streams := inc (s_inner s) (r_streams R)\<rparr>"])
      (auto simp: am_stream_frames kept initialised.am_stream_kept simp del: not_None_eq split: sum.splits)
qed

lemma safely_stream_drop:
  fixes w :: "('u, 'wk, 'q, 'n, 'c) full_world"
  assumes w: "holds E R L w" "0 < r_streams R (s_inner s)"
  shows "safely (am_stream_drop s) w (\<lambda>_. holds E (R\<lparr>r_streams := dec (s_inner s) (r_streams R)\<rparr>) L)"
proof -
  have own: "owns w R" using w(1) by (simp add: holds_def)
  show ?thesis
    unfolding am_stream_drop_def
    by (rule safely_bind, rule safely_owned [OF stream_drop_owned [OF own w(2)] w(1)])
      (auto simp: kept simp del: not_None_eq)
qed

lemma safely_msg_drop:
  assumes w: "holds E R L w" "0 < r_workers R (m_worker m)"
  shows "safely (am_msg_drop E m) w (\<lambda>_. holds E R L)"
  using safely_mono [OF safely_worker_call [OF w(1) held_worker [OF w(2)]]] w(1)
  by (auto simp: am_msg_drop_def drop_msg_def safely_bind_iff split: option.split)

end

end
