(* ===== verification/Examples.thy ===== *)
theory Examples
  imports Clients
begin

text \<open>
  The programs \<^verbatim>\<open>stream.rs\<close>, \<^verbatim>\<open>tag.rs\<close> and \<^verbatim>\<open>rma.rs\<close> of \<^verbatim>\<open>examples/\<close>: a client and a server each, composed
  of the operations of the crate, with what they leave behind when they return.
\<close>

section \<open>What the examples share\<close>

text \<open>
  \<^verbatim>\<open>Context::new().unwrap()\<close> and \<^verbatim>\<open>create_worker().unwrap()\<close>, then \<^verbatim>\<open>spawn_local(worker.clone().polling())\<close>
  (or \<^verbatim>\<open>event_poll\<close>): the spawned future owns a reference to the worker. What the task does is the
  activity of the executor between two polls.
\<close>

definition new_worker ::
  "('u, 'addr) host \<Rightarrow> ('u, 'wk) env \<Rightarrow> (('u, 'wk, 's, 'c) world, nat \<times> nat) prog" where
  "new_worker H E =
     bind (unwrapped (context_new E (am_feature H))) (\<lambda>ctx.
     bind (unwrapped (create_worker E ctx)) (\<lambda>wk. ret (ctx, wk)))"

definition start_worker ::
  "('u, 'addr) host \<Rightarrow> ('u, 'wk) env \<Rightarrow> (('u, 'wk, 's, 'c) world, nat \<times> nat) prog" where
  "start_worker H E = bind (new_worker H E) (\<lambda>(ctx, wk). bind (worker_clone wk) (\<lambda>_. ret (ctx, wk)))"

definition connect_to ::
  "('u, 'addr) host \<Rightarrow> ('u, 'wk) env \<Rightarrow> ('u, 'wk, 's, 'c) world executor \<Rightarrow> nat \<Rightarrow> string \<Rightarrow>
   (('u, 'wk, 's, 'c) world, Endpoint) prog" where
  "connect_to H E X wk server_addr =
     bind (parsed H server_addr) (\<lambda>addr. unwrapped (worker_connect_socket E X wk addr (local_buf H 0)))"

text \<open>A listener on the address, its own address asked for, and the first connection accepted.\<close>

definition listen_at ::
  "('u, 'addr) host \<Rightarrow> ('u, 'wk) env \<Rightarrow> 'c channel_ops \<Rightarrow> nat \<Rightarrow> string \<Rightarrow> (('u, 'wk, 's, 'c) world, Listener) prog" where
  "listen_at H E C wk at =
     bind (parsed H at) (\<lambda>addr.
     bind (unwrapped (create_listener E C wk addr)) (\<lambda>listener. ret listener))"

definition accept_next ::
  "('u, 'addr) host \<Rightarrow> ('u, 'wk) env \<Rightarrow> 'c channel_ops \<Rightarrow> ('u, 'wk, 's, 'c) world executor \<Rightarrow> nat \<Rightarrow> Listener \<Rightarrow>
   (('u, 'wk, 's, 'c) world, Endpoint) prog" where
  "accept_next H E C X wk listener =
     bind (unwrapped (listener_socket_addr E (as_socket H) listener)) (\<lambda>_.
     bind (listener_next C (x_others X) listener (x_polls X)) (\<lambda>connection.
       unwrapped (worker_accept E X wk connection (uninit (local_buf H 0) 4))))"

text \<open>The variables of a client go out of scope in reverse order; the spawned task keeps its reference.\<close>

definition leave_client ::
  "('u, 'wk) env \<Rightarrow> Endpoint \<Rightarrow> nat \<Rightarrow> nat \<Rightarrow> (('u, 'wk, 's, 'c) world, nat) prog" where
  "leave_client E endpoint wk ctx =
     bind (endpoint_drop E endpoint) (\<lambda>_.
     bind (worker_drop E wk) (\<lambda>_.
     bind (context_drop E ctx) (\<lambda>_. ret wk)))"

definition leave_server ::
  "('u, 'wk) env \<Rightarrow> Endpoint \<Rightarrow> Listener \<Rightarrow> nat \<Rightarrow> nat \<Rightarrow> (('u, 'wk, 's, 'c) world, nat) prog" where
  "leave_server E endpoint listener wk ctx =
     bind (endpoint_drop E endpoint) (\<lambda>_.
     bind (listener_drop E listener) (\<lambda>_.
     bind (worker_drop E wk) (\<lambda>_.
     bind (context_drop E ctx) (\<lambda>_. ret wk))))"

text \<open>Texts and the pattern \<^verbatim>\<open>(0..n).map(|x| x as u8)\<close> as bytes.\<close>

definition bytes_of :: "string \<Rightarrow> u8 list" where
  "bytes_of s = map of_char s"

definition pattern :: "nat \<Rightarrow> u8 list" where
  "pattern n = map word_of_nat [0..<n]"

section \<open>\<^verbatim>\<open>examples/stream.rs\<close>\<close>

definition stream_client ::
  "('u, 'addr) host \<Rightarrow> ('u, 'wk) env \<Rightarrow> ('u, 'wk, 's, 'c) world executor \<Rightarrow> string \<Rightarrow>
   (('u, 'wk, 's, 'c) world, nat) prog" where
  "stream_client H E X server_addr =
     bind (start_worker H E) (\<lambda>(ctx, wk).
     bind (connect_to H E X wk server_addr) (\<lambda>endpoint.
     bind (endpoint_print E endpoint) (\<lambda>_.
     bind (unwrapped (stream_send E X endpoint \<lparr>as_ptr = local_buf H 1, contents = bytes_of ''Hello!''\<rparr>)) (\<lambda>_.
       leave_client E endpoint wk ctx))))"

definition stream_server ::
  "('u, 'addr) host \<Rightarrow> ('u, 'wk) env \<Rightarrow> 'c channel_ops \<Rightarrow> ('u, 'wk, 's, 'c) world executor \<Rightarrow>
   (('u, 'wk, 's, 'c) world, nat) prog" where
  "stream_server H E C X =
     bind (start_worker H E) (\<lambda>(ctx, wk).
     bind (listen_at H E C wk ''0.0.0.0:10000'') (\<lambda>listener.
     bind (accept_next H E C X wk listener) (\<lambda>endpoint.
     bind (endpoint_print E endpoint) (\<lambda>_.
     bind (unwrapped (stream_recv E X endpoint (uninit (local_buf H 1) 10))) (\<lambda>len.
     bind (read_prefix H (uninit (local_buf H 1) 10) len) (\<lambda>_.
       leave_server E endpoint listener wk ctx))))))"

section \<open>\<^verbatim>\<open>examples/tag.rs\<close>\<close>

definition HELLO :: string where
  "HELLO = ''Hello!''"

text \<open>\<^verbatim>\<open>str::from_utf8\<close>: well-formed UTF-8, that is, no overlong form, no surrogate, at most U+10FFFF.\<close>

definition continuation :: "u8 \<Rightarrow> bool" where
  "continuation b \<longleftrightarrow> 0x80 \<le> b \<and> b \<le> 0xBF"

definition three_bytes :: "u8 \<Rightarrow> u8 \<Rightarrow> u8 \<Rightarrow> bool" where
  "three_bytes b c d \<longleftrightarrow> continuation d \<and>
     (b = 0xE0 \<and> 0xA0 \<le> c \<and> c \<le> 0xBF \<or> 0xE1 \<le> b \<and> b \<le> 0xEC \<and> continuation c
      \<or> b = 0xED \<and> 0x80 \<le> c \<and> c \<le> 0x9F \<or> 0xEE \<le> b \<and> b \<le> 0xEF \<and> continuation c)"

definition four_bytes :: "u8 \<Rightarrow> u8 \<Rightarrow> u8 \<Rightarrow> u8 \<Rightarrow> bool" where
  "four_bytes b c d e \<longleftrightarrow> continuation d \<and> continuation e \<and>
     (b = 0xF0 \<and> 0x90 \<le> c \<and> c \<le> 0xBF \<or> 0xF1 \<le> b \<and> b \<le> 0xF3 \<and> continuation c
      \<or> b = 0xF4 \<and> 0x80 \<le> c \<and> c \<le> 0x8F)"

fun utf8_valid :: "u8 list \<Rightarrow> bool" where
  "utf8_valid [] = True"
| "utf8_valid [b] = (b < 0x80)"
| "utf8_valid [b, c] = (if b < 0x80 then utf8_valid [c]
     else 0xC2 \<le> b \<and> b \<le> 0xDF \<and> continuation c)"
| "utf8_valid [b, c, d] = (if b < 0x80 then utf8_valid [c, d]
     else if 0xC2 \<le> b \<and> b \<le> 0xDF then continuation c \<and> utf8_valid [d]
     else three_bytes b c d)"
| "utf8_valid (b # c # d # e # bs) = (if b < 0x80 then utf8_valid (c # d # e # bs)
     else if 0xC2 \<le> b \<and> b \<le> 0xDF then continuation c \<and> utf8_valid (d # e # bs)
     else if b \<le> 0xEF then three_bytes b c d \<and> utf8_valid (e # bs)
     else four_bytes b c d e \<and> utf8_valid bs)"

definition from_utf8 :: "u8 list \<Rightarrow> u8 list outcome" where
  "from_utf8 bs = (if utf8_valid bs then Ret bs else Fault (Panic Unwrap_on_err))"

definition tag_client ::
  "('u, 'addr) host \<Rightarrow> ('u, 'wk) env \<Rightarrow> ('u, 'wk, 's, 'c) world executor \<Rightarrow> string \<Rightarrow>
   (('u, 'wk, 's, 'c) world, nat) prog" where
  "tag_client H E X server_addr =
     bind (start_worker H E) (\<lambda>(ctx, wk).
     bind (connect_to H E X wk server_addr) (\<lambda>endpoint.
     bind (unwrapped (tag_send E X endpoint 100 \<lparr>as_ptr = local_buf H 1, contents = bytes_of HELLO\<rparr>)) (\<lambda>_.
     bind (unwrapped (tag_send E X endpoint 101 \<lparr>as_ptr = local_buf H 2, contents = pattern 0x1000\<rparr>)) (\<lambda>_.
       leave_client E endpoint wk ctx))))"

definition tag_server ::
  "('u, 'addr) host \<Rightarrow> ('u, 'wk) env \<Rightarrow> 'c channel_ops \<Rightarrow> ('u, 'wk, 's, 'c) world executor \<Rightarrow>
   (('u, 'wk, 's, 'c) world, nat) prog" where
  "tag_server H E C X =
     bind (start_worker H E) (\<lambda>(ctx, wk).
     bind (listen_at H E C wk ''0.0.0.0:10000'') (\<lambda>listener.
     bind (accept_next H E C X wk listener) (\<lambda>endpoint.
     let buf = uninit (local_buf H 1) 0x1005 in
     bind (unwrapped (tag_recv E X wk 100 buf)) (\<lambda>len.
     bind (read_prefix H buf len) (\<lambda>bytes.
     bind (lift (from_utf8 bytes)) (\<lambda>msg.
     bind (assert_that (msg = bytes_of HELLO)) (\<lambda>_.
     bind (unwrapped (tag_recv E X wk 101 buf)) (\<lambda>len.
     bind (read_prefix H buf len) (\<lambda>msg.
     bind (assert_that (msg = pattern 0x1000)) (\<lambda>_.
       leave_server E endpoint listener wk ctx))))))))))"

section \<open>\<^verbatim>\<open>examples/rma.rs\<close>\<close>

text \<open>A buffer of the program with what the library has written into it.\<close>

definition as_written :: "('u, 'addr) host \<Rightarrow> slice \<Rightarrow> (('u, 'wk, 's, 'c) world, slice) prog" where
  "as_written H buf w = (Ret (buf\<lparr>contents := map (\<lambda>i. case memory H (lib w) (as_ptr buf + word_of_nat i) of
       Some b \<Rightarrow> b | None \<Rightarrow> contents buf ! i) [0..<length (contents buf)]\<rparr>), w)"

definition rma_client ::
  "('u, 'addr) host \<Rightarrow> ('u, 'wk) env \<Rightarrow> ('u, 'wk, 's, 'c) world executor \<Rightarrow> string \<Rightarrow>
   (('u, 'wk, 's, 'c) world, nat) prog" where
  "rma_client H E X server_addr =
     bind (start_worker H E) (\<lambda>(ctx, wk).
     bind (connect_to H E X wk server_addr) (\<lambda>endpoint.
     bind (endpoint_print E endpoint) (\<lambda>_.
     let buf = \<lparr>as_ptr = local_buf H 1, contents = pattern 0x1000\<rparr> in
     bind (memory_register E ctx buf) (\<lambda>mem.
     bind (unwrapped (stream_send E X endpoint
             \<lparr>as_ptr = local_buf H 2, contents = to_ne_bytes (as_ptr buf)\<rparr>)) (\<lambda>_.
     bind (memory_pack E mem) (\<lambda>packed.
     bind (as_written H (uninit (fst (rkey_buffer_as_ref packed)) (unat (snd (rkey_buffer_as_ref packed))))) (\<lambda>key.
     bind (unwrapped (stream_send E X endpoint key)) (\<lambda>_.
     bind (rkey_buffer_drop E packed) (\<lambda>_.
     bind (unwrapped (stream_recv E X endpoint (uninit (local_buf H 3) 1))) (\<lambda>_.
     bind (memory_drop E mem) (\<lambda>_.
       leave_client E endpoint wk ctx)))))))))))"

text \<open>The first part of the server: the address that the client sends. The array is read as a whole.\<close>

definition rma_recv_vaddr ::
  "('u, 'addr) host \<Rightarrow> ('u, 'wk) env \<Rightarrow> ('u, 'wk, 's, 'c) world executor \<Rightarrow> Endpoint \<Rightarrow>
   (('u, 'wk, 's, 'c) world, u64) prog" where
  "rma_recv_vaddr H E X endpoint =
     bind (unwrapped (stream_recv E X endpoint (uninit (local_buf H 1) 8))) (\<lambda>len.
     bind (assert_that (len = 8)) (\<lambda>_.
     bind (read_bytes H (local_buf H 1) 8) (\<lambda>vaddr_buf.
       ret (from_ne_bytes vaddr_buf))))"

definition rma_server ::
  "('u, 'addr) host \<Rightarrow> ('u, 'wk) env \<Rightarrow> 'c channel_ops \<Rightarrow> ('u, 'wk, 's, 'c) world executor \<Rightarrow>
   (('u, 'wk, 's, 'c) world, nat) prog" where
  "rma_server H E C X =
     bind (new_worker H E) (\<lambda>(ctx, wk).
     bind (listen_at H E C wk ''0.0.0.0:10000'') (\<lambda>listener.
     bind (worker_clone wk) (\<lambda>_.
     bind (accept_next H E C X wk listener) (\<lambda>endpoint.
     bind (endpoint_print E endpoint) (\<lambda>_.
     bind (rma_recv_vaddr H E X endpoint) (\<lambda>vaddr.
     let rkey_buf = uninit (local_buf H 2) 100 in
     bind (unwrapped (stream_recv E X endpoint rkey_buf)) (\<lambda>len.
     bind (read_prefix H rkey_buf len) (\<lambda>packed.
     bind (rkey_unpack E endpoint \<lparr>as_ptr = local_buf H 2, contents = packed\<rparr>) (\<lambda>rkey.
     let buf = \<lparr>as_ptr = local_buf H 3, contents = replicate 0x1000 0\<rparr> in
     bind (unwrapped (get E X endpoint buf vaddr rkey)) (\<lambda>_.
     bind (as_written H buf) (\<lambda>read.
     bind (assert_that (contents read = pattern 0x1000)) (\<lambda>_.
     bind (unwrapped (stream_send E X endpoint \<lparr>as_ptr = local_buf H 4, contents = [0]\<rparr>)) (\<lambda>_.
     bind (rkey_drop E rkey) (\<lambda>_.
       leave_server E endpoint listener wk ctx))))))))))))))"

section \<open>\<^verbatim>\<open>main\<close>\<close>

text \<open>
  With an address among the arguments the program is the client, otherwise the server. When it is
  done the set of local tasks is dropped, and with it the spawned future and its worker.
\<close>

datatype example = Stream_example | Tag_example | Rma_example

definition example_main ::
  "(string \<Rightarrow> (('u, 'wk, 's, 'c) world, nat) prog) \<Rightarrow> (('u, 'wk, 's, 'c) world, nat) prog \<Rightarrow>
   ('u, 'wk) env \<Rightarrow> string option \<Rightarrow> (('u, 'wk, 's, 'c) world, unit) prog" where
  "example_main client server E arg =
     bind (case arg of Some server_addr \<Rightarrow> client server_addr | None \<Rightarrow> server) (\<lambda>wk. worker_drop E wk)"

fun run_example ::
  "example \<Rightarrow> ('u, 'addr) host \<Rightarrow> ('u, 'wk) env \<Rightarrow> 'c channel_ops \<Rightarrow> ('u, 'wk, 's, 'c) world executor \<Rightarrow>
   string option \<Rightarrow> (('u, 'wk, 's, 'c) world, unit) prog" where
  "run_example Stream_example H E C X arg = example_main (stream_client H E X) (stream_server H E C X) E arg"
| "run_example Tag_example H E C X arg = example_main (tag_client H E X) (tag_server H E C X) E arg"
| "run_example Rma_example H E C X arg = example_main (rma_client H E X) (rma_server H E C X) E arg"

section \<open>Rules\<close>

lemma refs_eqI: "r_contexts S = f \<Longrightarrow> r_workers S = g \<Longrightarrow> r_endpoints S = h \<Longrightarrow> r_streams S = r_streams R \<Longrightarrow>
    (S :: refs) = R\<lparr>r_contexts := f, r_workers := g, r_endpoints := h\<rparr>"
  by (cases S; cases R) simp

context ucx_library
begin

lemma new_worker_step:
  fixes w :: "('u, 'wk, 'q, 'n, 'c) full_world"
  assumes "holds E R L w"
    and "\<And>c k v. holds E (R\<lparr>r_contexts := inc c (r_contexts R), r_workers := inc k (r_workers R)\<rparr>) L v \<Longrightarrow> safely (f (c, k)) v Q"
  shows "safely (bind (new_worker H E) f) w Q"
  unfolding new_worker_def bind_assoc
  by (rule safely_bind, rule safely_context_new [OF assms(1)], rule safely_bind, erule safely_worker_new, simp) (simp add: assms(2))

lemma start_worker_step:
  fixes w :: "('u, 'wk, 'q, 'n, 'c) full_world"
  assumes "holds E R L w"
    and "\<And>c k v. holds E (R\<lparr>r_contexts := inc c (r_contexts R),
        r_workers := (r_workers R)(k := Suc (Suc (r_workers R k)))\<rparr>) L v \<Longrightarrow> safely (f (c, k)) v Q"
  shows "safely (bind (start_worker H E) f) w Q"
  unfolding start_worker_def bind_assoc
  by (rule new_worker_step [OF assms(1)]) (simp add: bind_assoc, rule safely_bind, erule safely_worker_clone, simp, simp add: assms(2))

end

context ucx_library
begin

lemma connect_to_step:
  fixes w :: "('u, 'wk, 'q, 'n, 'c) full_world"
  assumes "steady E X" "holds E R L w" "0 < r_workers R k"
    and "\<And>e v. holds E (R\<lparr>r_endpoints := inc (ep_inner e) (r_endpoints R)\<rparr>) L v \<Longrightarrow> safely (f e) v Q"
  shows "safely (bind (connect_to H E X k addr) f) w Q"
  unfolding connect_to_def bind_assoc
  by (rule safely_bind [where P = "\<lambda>_ v. v = w"], simp)
    (auto intro!: safely_bind [OF safely_connect [OF assms(1-3)]] assms(4))

lemma listen_at_step:
  fixes w :: "('u, 'wk, 'q, 'n, 'c) full_world"
  assumes "holds E R L w" "0 < r_workers R k"
    and "\<And>l v. holds E R (inc (l_channel l) L) v \<Longrightarrow> safely (f l) v Q"
  shows "safely (bind (listen_at H E C k addr) f) w Q"
  unfolding listen_at_def bind_assoc
  by (rule safely_bind [where P = "\<lambda>_ v. v = w"], simp)
    (auto intro!: safely_bind [OF safely_create_listener [OF assms(1,2)]] assms(3))

lemma accept_next_step:
  fixes w :: "('u, 'wk, 'q, 'n, 'c) full_world"
  assumes X: "steady E X" and w: "holds E R L w" and held: "0 < r_workers R k" "0 < L (l_channel l)"
    and cont: "\<And>e v. holds E (R\<lparr>r_endpoints := inc (ep_inner e) (r_endpoints R)\<rparr>) L v \<Longrightarrow> safely (f e) v Q"
  shows "safely (bind (accept_next H E C X k l) f) w Q"
  unfolding accept_next_def bind_assoc
  by (rule safely_bind [OF safely_queries(1) [OF w]], rule safely_bind, erule safely_listener_next [OF X], rule held,
      rule safely_bind, erule safely_accept [OF X], rule held, erule cont)

lemma safely_leave_client:
  fixes w :: "('u, 'wk, 'q, 'n, 'c) full_world"
  assumes "holds E S L w" "r_contexts S = inc c (r_contexts R)" "r_workers S = (r_workers R)(k := Suc (Suc (r_workers R k)))"
    and "r_endpoints S = inc (ep_inner e) (r_endpoints R)" "r_streams S = r_streams R"
  shows "safely (leave_client E e k c) w (\<lambda>k v. holds E (R\<lparr>r_workers := inc k (r_workers R)\<rparr>) L v)"
proof -
  have own: "holds E (R\<lparr>r_contexts := inc c (r_contexts R), r_workers := (r_workers R)(k := Suc (Suc (r_workers R k))),
      r_endpoints := inc (ep_inner e) (r_endpoints R)\<rparr>) L w"
    using assms(1) unfolding refs_eqI [OF assms(2-5)] .
  show ?thesis
    unfolding leave_client_def
    by (rule safely_bind, rule safely_endpoint_drop [OF own], simp, rule safely_bind, erule safely_worker_drop, simp,
        rule safely_bind, erule safely_context_drop) simp_all
qed

lemma safely_leave_server:
  fixes w :: "('u, 'wk, 'q, 'n, 'c) full_world"
  assumes "holds E S (inc (l_channel l) L) w" "r_contexts S = inc c (r_contexts R)"
    and "r_workers S = (r_workers R)(k := Suc (Suc (r_workers R k)))"
    and "r_endpoints S = inc (ep_inner e) (r_endpoints R)" "r_streams S = r_streams R"
  shows "safely (leave_server E e l k c) w (\<lambda>k v. holds E (R\<lparr>r_workers := inc k (r_workers R)\<rparr>) L v)"
proof -
  have own: "holds E (R\<lparr>r_contexts := inc c (r_contexts R), r_workers := (r_workers R)(k := Suc (Suc (r_workers R k))),
      r_endpoints := inc (ep_inner e) (r_endpoints R)\<rparr>) (inc (l_channel l) L) w"
    using assms(1) unfolding refs_eqI [OF assms(2-5)] .
  show ?thesis
    unfolding leave_server_def
    by (rule safely_bind, rule safely_endpoint_drop [OF own], simp, rule safely_bind, erule safely_listener_drop, simp,
        rule safely_bind, erule safely_worker_drop, simp, rule safely_bind, erule safely_context_drop) simp_all
qed

end


lemma safely_unwrapped_const: "safely m w (\<lambda>_. P) \<Longrightarrow> safely (unwrapped m) w (\<lambda>_. P)"
  by (rule safely_unwrapped) (auto intro: safely_mono)

context ucx_library
begin

lemmas data_steps =
  safely_bind [OF safely_unwrapped_const, OF safely_sends(1)] safely_bind [OF safely_unwrapped_const, OF safely_sends(2)]
  safely_bind [OF safely_unwrapped_const, OF safely_sends(3)] safely_bind [OF safely_unwrapped_const, OF safely_stream_recv]

lemma safely_prefix_step:
  assumes "holds E R L w" "\<And>bs. holds E R L w \<Longrightarrow> length bs = unat len \<Longrightarrow> safely (f bs) w Q"
  shows "safely (bind (read_prefix H buf len) f) w Q"
  by (rule safely_bind [OF safely_prefix]) (use assms in auto)

lemma safely_stream_client:
  fixes w :: "('u, 'wk, 'q, 'n, 'c) full_world"
  assumes X: "steady E X" and w: "holds E R L w"
  shows "safely (stream_client H E X addr) w (\<lambda>k. holds E (R\<lparr>r_workers := inc k (r_workers R)\<rparr>) L)"
  unfolding stream_client_def
  by (rule start_worker_step [OF w])
    (simp, (erule connect_to_step [OF X] safely_bind [OF safely_endpoint_print] data_steps [OF X] safely_leave_client | simp)+)

lemma safely_stream_server:
  fixes w :: "('u, 'wk, 'q, 'n, 'c) full_world"
  assumes X: "steady E X" and w: "holds E R L w"
  shows "safely (stream_server H E C X) w (\<lambda>k. holds E (R\<lparr>r_workers := inc k (r_workers R)\<rparr>) L)"
  unfolding stream_server_def
  by (rule start_worker_step [OF w])
    (simp, (erule listen_at_step accept_next_step [OF X] safely_bind [OF safely_endpoint_print] data_steps [OF X]
       safely_prefix_step safely_leave_server | simp)+)

end

lemma safely_as_written [simp]: "safely (as_written H buf) w Q \<longleftrightarrow>
  Q (buf\<lparr>contents := map (\<lambda>i. case memory H (lib w) (as_ptr buf + word_of_nat i) of
       Some b \<Rightarrow> b | None \<Rightarrow> contents buf ! i) [0..<length (contents buf)]\<rparr>) w"
  by (simp add: safely_def as_written_def)

lemma safely_from_utf8 [simp]: "safely (lift (from_utf8 bs)) w Q \<longleftrightarrow> (utf8_valid bs \<longrightarrow> Q bs w)"
  by (simp add: safely_lift from_utf8_def)

context ucx_library
begin

lemma safely_tag_client:
  fixes w :: "('u, 'wk, 'q, 'n, 'c) full_world"
  assumes X: "steady E X" and w: "holds E R L w"
  shows "safely (tag_client H E X addr) w (\<lambda>k. holds E (R\<lparr>r_workers := inc k (r_workers R)\<rparr>) L)"
  unfolding tag_client_def
  by (rule start_worker_step [OF w])
    (simp, (erule connect_to_step [OF X] data_steps [OF X] safely_leave_client | simp)+)

lemma tag_recv_step:
  fixes w :: "('u, 'wk, 'q, 'n, 'c) full_world"
  assumes "steady E X" "tag_requests E" "holds E R L w" "0 < r_workers R k"
    and "\<And>x v. holds E R L v \<Longrightarrow> safely (f x) v Q"
  shows "safely (bind (unwrapped (tag_recv E X k tag buf)) f) w Q"
  by (rule safely_bind [OF safely_unwrapped_const, OF safely_tag_recv [OF assms(1,3) held_worker [OF assms(4)] assms(2)]])
    (rule assms(5))

lemma assert_step:
  assumes "holds E R L w" "holds E R L w \<Longrightarrow> b \<Longrightarrow> safely (f ()) w Q"
  shows "safely (bind (assert_that b) f) w Q"
  using assms by (simp add: safely_bind_iff)

lemma utf8_step:
  assumes "holds E R L w" "holds E R L w \<Longrightarrow> safely (f bs) w Q"
  shows "safely (bind (lift (from_utf8 bs)) f) w Q"
  using assms by (simp add: safely_bind_iff)

lemma as_written_step:
  assumes "holds E R L w" "\<And>b. holds E R L w \<Longrightarrow> safely (f b) w Q"
  shows "safely (bind (as_written H buf) f) w Q"
  using assms by (simp add: safely_bind_iff)

lemma read_step:
  assumes "holds E R L w" "\<And>bs. holds E R L w \<Longrightarrow> length bs = n \<Longrightarrow> safely (f bs) w Q"
  shows "safely (bind (read_bytes H a n) f) w Q"
  by (rule safely_bind [OF safely_read]) (use assms in auto)

lemma safely_tag_server:
  fixes w :: "('u, 'wk, 'q, 'n, 'c) full_world"
  assumes X: "steady E X" and tag: "tag_requests E" and w: "holds E R L w"
  shows "safely (tag_server H E C X) w (\<lambda>k. holds E (R\<lparr>r_workers := inc k (r_workers R)\<rparr>) L)"
  unfolding tag_server_def Let_def
  by (rule start_worker_step [OF w])
    (simp, (erule listen_at_step accept_next_step [OF X] tag_recv_step [OF X tag] safely_prefix_step assert_step utf8_step
       safely_leave_server | simp)+)

lemma register_step:
  fixes w :: "('u, 'wk, 'q, 'n, 'c) full_world"
  assumes "holds E R L w" "0 < r_contexts R c"
    and "\<And>m v. mh_context m = c \<Longrightarrow> holds E (R\<lparr>r_contexts := inc c (r_contexts R)\<rparr>) L v \<Longrightarrow> safely (f m) v Q"
  shows "safely (bind (memory_register E c region) f) w Q"
  by (rule safely_bind [OF safely_memory_register [OF assms(1,2)]]) (use assms(3) in auto)

lemma safely_rma_client:
  fixes w :: "('u, 'wk, 'q, 'n, 'c) full_world"
  assumes X: "steady E X" and w: "holds E R L w"
  shows "safely (rma_client H E X addr) w (\<lambda>k. holds E (R\<lparr>r_workers := inc k (r_workers R)\<rparr>) L)"
  unfolding rma_client_def Let_def
  by (rule start_worker_step [OF w])
    (simp, (erule connect_to_step [OF X] safely_bind [OF safely_endpoint_print] data_steps [OF X] register_step
      as_written_step safely_bind [OF safely_memory_pack] safely_bind [OF safely_queries(5)] safely_bind [OF safely_memory_drop]
      safely_leave_client | simp)+)

lemma safely_rma_server:
  fixes w :: "('u, 'wk, 'q, 'n, 'c) full_world"
  assumes X: "steady E X" and w: "holds E R L w"
  shows "safely (rma_server H E C X) w (\<lambda>k. holds E (R\<lparr>r_workers := inc k (r_workers R)\<rparr>) L)"
  unfolding rma_server_def rma_recv_vaddr_def Let_def bind_assoc
  by (rule new_worker_step [OF w])
    (simp, (erule listen_at_step safely_bind [OF safely_worker_clone] accept_next_step [OF X] safely_bind [OF safely_endpoint_print] data_steps [OF X]
      safely_prefix_step assert_step read_step as_written_step safely_bind [OF safely_queries(3)] safely_bind [OF safely_queries(4)]
      safely_leave_server | simp)+)

lemma safely_example:
  fixes w :: "('u, 'wk, 'q, 'n, 'c) full_world"
  assumes X: "steady E X" and tag: "tag_requests E" and w: "holds E R L w"
  shows "safely (run_example ex H E C X arg) w (\<lambda>_. holds E R L)"
proof -
  have main: "safely (example_main client server E arg) w (\<lambda>_. holds E R L)"
    if "\<And>addr. safely (client addr) w (\<lambda>k. holds E (R\<lparr>r_workers := inc k (r_workers R)\<rparr>) L)"
      and "safely server w (\<lambda>k. holds E (R\<lparr>r_workers := inc k (r_workers R)\<rparr>) L)" for client server
    unfolding example_main_def
  proof (rule safely_bind)
    show "safely (case arg of Some server_addr \<Rightarrow> client server_addr | None \<Rightarrow> server) w
        (\<lambda>k. holds E (R\<lparr>r_workers := inc k (r_workers R)\<rparr>) L)"
      using that by (simp split: option.split)
  next
    fix k and v :: "('u, 'wk, 'q, 'n, 'c) full_world"
    assume "holds E (R\<lparr>r_workers := inc k (r_workers R)\<rparr>) L v"
    then show "safely (worker_drop E k) v (\<lambda>_. holds E R L)"
      by (rule safely_mono [OF safely_worker_drop]) simp_all
  qed
  show ?thesis
    by (cases ex) (simp_all add: main safely_stream_client [OF X w] safely_stream_server [OF X w]
      safely_tag_client [OF X w] safely_tag_server [OF X tag w] safely_rma_client [OF X w] safely_rma_server [OF X w])
qed

end

end
