(* ===== verification/Sessions.thy ===== *)
theory Sessions
  imports Examples
begin

text \<open>
  What the programs of \<open>Examples\<close> do: the calls that a client makes from its start to its end when every
  call succeeds, what client and server leave behind in general, and the address that travels from the
  client of \<^verbatim>\<open>rma.rs\<close> to its server.
\<close>

section \<open>A library that succeeds at once\<close>

text \<open>Every call succeeds, and no request has to be waited for but those of tag receives, which always are requests.\<close>

fun is_tag_recv :: "ffi_call \<Rightarrow> bool" where
  "is_tag_recv (Ucp_tag_recv_nb h b n d t m) = True"
| "is_tag_recv _ = False"

locale smooth_library = ucx_library E for E :: "('u, 'wk) env" +
  assumes smooth: "status_of (fst (ucx E c u)) = UCS_OK" "\<not> is_tag_recv c \<Longrightarrow> ptr_of (fst (ucx E c u)) = 0"

text \<open>An instance; all receives that are done at once report \<open>n\<close> bytes.\<close>

definition ideal_env :: "profile \<Rightarrow> usize \<Rightarrow> (unit, nat option) env" where
  "ideal_env p n = \<lparr>prof = p, binds = ucx_abi,
     ucx = (\<lambda>c u. (if is_tag_recv c then ok_reply\<lparr>ptr_of := 64\<rparr> else ok_reply\<lparr>out_len := Some n\<rparr>, u)), waker_ops = option_waker\<rparr>"

interpretation ideal: smooth_library "ideal_env p n"
proof -
  have "status_abi (binds (ideal_env p n))"
    using lawful.status_abi_axioms by (simp add: ideal_env_def)
  moreover have "writes_outputs (ideal_env p n)" "valid_pointers (ideal_env p n)"
    by (auto simp: writes_outputs_def valid_pointers_def ideal_env_def ok_reply_def)
  ultimately show "smooth_library (ideal_env p n)"
    by (simp add: smooth_library_def ucx_library_def ucx_library_axioms_def smooth_library_axioms_def)
      (simp add: ideal_env_def ok_reply_def)
qed

text \<open>The heaps of a client: one allocation of each kind, at address 0.\<close>

definition one_cell :: "nat \<Rightarrow> nat \<Rightarrow> 'a \<Rightarrow> 'a heap" where
  "one_cell s k v = \<lparr>cells = (if s = 0 \<and> k = 0 then Map.empty else [0 \<mapsto> \<lparr>strong = s, weak = k, val = v\<rparr>]), next_addr = 1\<rparr>"

lemma does_cell [simp]:
  "does (rc_new v) empty_heap Q0 \<longleftrightarrow> Q0 0 (one_cell 1 0 v)"
  "does (rc_get 0) (one_cell (Suc s) k v) Q1 \<longleftrightarrow> Q1 v (one_cell (Suc s) k v)"
  "does (rc_clone 0) (one_cell (Suc s) k v) Q2 \<longleftrightarrow> Q2 () (one_cell (Suc (Suc s)) k v)"
  "does (rc_update 0 f) (one_cell (Suc s) k v) Q2 \<longleftrightarrow> Q2 () (one_cell (Suc s) k (f v))"
  "does (rc_drop 0) (one_cell (Suc s) k v) Q3 \<longleftrightarrow> Q3 (if s = 0 then Some v else None) (one_cell s k v)"
  "does (rc_downgrade 0) (one_cell (Suc s) k v) Q2 \<longleftrightarrow> Q2 () (one_cell (Suc s) (Suc k) v)"
  "does (weak_drop 0) (one_cell s (Suc k) v) Q2 \<longleftrightarrow> Q2 () (one_cell s k v)"
  by (auto simp: does_def rc_defs one_cell_def put_cell_def empty_heap_def)

lemma get_status_fresh: "inners w = one_cell 1 1 (inner_new 0) \<Longrightarrow> get_status E e w = (Ret (Ok ()), w)" if "ep_inner e = 0"
  using that by (simp add: get_status_def inner_reads one_cell_def inner_new_def from_status_def)

text \<open>What a client has after it has connected, \<open>n\<close> regions of memory registered.\<close>

definition connected :: "handle \<Rightarrow> handle \<Rightarrow> nat \<Rightarrow> ('u, 'wk, 's, 'c) world \<Rightarrow> bool" where
  "connected ctx wk n w \<longleftrightarrow> contexts w = one_cell (Suc (Suc n)) 0 \<lparr>c_handle = ctx\<rparr>
     \<and> workers w = one_cell 3 0 \<lparr>w_handle = wk, w_context = 0, am_streams = []\<rparr>
     \<and> inners w = one_cell 1 1 (inner_new 0)"

definition nothing_yet :: "('u, 'wk, 's, 'c) world \<Rightarrow> bool" where
  "nothing_yet w \<longleftrightarrow> contexts w = empty_heap \<and> workers w = empty_heap \<and> inners w = empty_heap"

definition all_gone :: "('u, 'wk, 's, 'c) world \<Rightarrow> bool" where
  "all_gone w \<longleftrightarrow> cells (contexts w) = Map.empty \<and> cells (workers w) = Map.empty \<and> cells (inners w) = Map.empty"

lemma does_unwrapped [simp]:
  fixes m :: "('w, 'c + 'b) prog"
  shows "does (unwrapped m) w Q \<longleftrightarrow> does m w (\<lambda>res v. \<exists>x. res = Ok x \<and> Q x v)"
proof -
  have "does (lift (unwrap res)) v Q \<longleftrightarrow> (\<exists>x. res = Ok x \<and> Q x v)" for res :: "'c + 'b" and v
    by (cases res) (simp_all add: does_lift)
  then show ?thesis by (simp add: unwrapped_def)
qed

lemma does_assume_init [simp]: "does (lift (assume_init x)) w Q \<longleftrightarrow> (\<exists>y. x = Some y \<and> Q y w)"
  by (cases x) (auto simp: does_lift)

text \<open>The out parameters of a call, which has written them.\<close>

definition word_out :: "('u, 'wk) env \<Rightarrow> ffi_call \<Rightarrow> 'u \<Rightarrow> u64" where
  "word_out E c u = the (out_word (fst (ucx E c u)))"

definition len_out :: "('u, 'wk) env \<Rightarrow> ffi_call \<Rightarrow> 'u \<Rightarrow> usize" where
  "len_out E c u = the (out_len (fst (ucx E c u)))"

definition startup_calls :: "('u, 'wk) env \<Rightarrow> bool \<Rightarrow> handle \<Rightarrow> handle \<Rightarrow> ffi_call list" where
  "startup_calls E am cfg ctx = [Ucp_config_read,
     Ucp_init_version (num (binds E) UCP_API_MAJOR) (num (binds E) UCP_API_MINOR) (context_params (binds E) am) cfg,
     Ucp_config_release cfg,
     Ucp_worker_create ctx (num (binds E) UCP_WORKER_PARAM_FIELD_THREAD_MODE) (num (binds E) UCS_THREAD_MODE_SINGLE)]"

context smooth_library
begin

lemma out_written [simp]:
  "out_word (fst (ucx E c u)) = Some (word_out E c u)" "out_len (fst (ucx E c u)) = Some (len_out E c u)"
  using written [OF smooth(1)] by (auto simp: word_out_def len_out_def)

lemmas start_defs = start_worker_def new_worker_def context_new_def config_default_def context_new_with_config_def
  config_drop_def create_worker_def worker_new_def context_clone_def worker_clone_def

lemma start_smooth:
  assumes "nothing_yet w"
  shows "does (start_worker H E) w (\<lambda>(c, k) v. c = 0 \<and> k = 0 \<and> inners v = empty_heap
    \<and> (\<exists>cfg ctx wk. contexts v = one_cell 2 0 \<lparr>c_handle = ctx\<rparr>
       \<and> workers v = one_cell 2 0 \<lparr>w_handle = wk, w_context = 0, am_streams = []\<rparr>
       \<and> calls v = calls w @ startup_calls E (am_feature H) cfg ctx))"
  using assms by (auto simp: start_defs nothing_yet_def smooth does_lift numeral_2_eq_2 startup_calls_def)

lemma op_at_once:
  assumes "nb_operation E op call (Ret x) fail" "get_status E e w = (Ret (Ok ()), w)"
    and "\<not> is_tag_recv (call (ep_handle e))"
  shows "does (op X e) w (\<lambda>res v. res = Ok x \<and> v = after_call E (call (ep_handle e)) w)"
  using nb_operation.at_once [OF assms(1,2) refl, of X] smooth(2) [OF assms(3)]
  by (simp add: does_def after_call_def)

lemma send_at_once:
  assumes "get_status E e w = (Ret (Ok ()), w)"
  shows "does (stream_send E X e buf) w (\<lambda>res v. res = Ok (slice_len buf) \<and> v = after_call E (Ucp_stream_send_nb (ep_handle e)
      (Bytes (as_ptr buf)) (slice_len buf) (ucp_dt_make_contig (binds E) 1)) w)"
    and "does (tag_send E X e tag buf) w (\<lambda>res v. res = Ok (slice_len buf) \<and> v = after_call E (Ucp_tag_send_nb (ep_handle e)
      (Bytes (as_ptr buf)) (slice_len buf) (ucp_dt_make_contig (binds E) 1) tag) w)"
  using op_at_once [OF stream_send.nb_operation_axioms assms] op_at_once [OF tag_send.nb_operation_axioms assms] by simp_all

lemma recv_at_once:
  assumes "get_status E e w = (Ret (Ok ()), w)"
  shows "does (stream_recv E X e buf) w (\<lambda>res v. res = Ok (len_out E (Ucp_stream_recv_nb (ep_handle e)
      (Bytes (as_ptr buf)) (slice_len buf) (ucp_dt_make_contig (binds E) 1)) (lib w)) \<and> v = after_call E (Ucp_stream_recv_nb (ep_handle e)
      (Bytes (as_ptr buf)) (slice_len buf) (ucp_dt_make_contig (binds E) 1)) w)"
  using assms
  by (simp add: stream_recv_def get_handle_def get_status_def try_bind_def does_bind does_def [of "inner_check _ _"] on_status_ptr_def
      smooth after_call_def)

lemma connect_smooth:
  assumes "inners w = empty_heap" "contexts w = one_cell 2 0 \<lparr>c_handle = ctx\<rparr>"
    and "workers w = one_cell 2 0 \<lparr>w_handle = wk, w_context = 0, am_streams = []\<rparr>" "parse_socket H addr = Some a"
  shows "does (connect_to H E X 0 addr) w (\<lambda>e v. ep_inner e = 0 \<and> connected ctx wk 0 v
    \<and> (\<exists>params. sockaddr params = a \<and> calls v = calls w @ [Ucp_ep_create wk params,
        Ucp_stream_send_nb (ep_handle e) (Bytes (local_buf H 0)) 4 (ucp_dt_make_contig (binds E) 1)]))"
proof -
  have "does (endpoint_create E 0 (socket_params (binds E) a)) w (\<lambda>res v. \<exists>e. res = Ok e \<and> ep_inner e = 0 \<and> connected ctx wk 0 v
    \<and> (\<exists>params. sockaddr params = a \<and> calls v = calls w @ [Ucp_ep_create wk params]))"
    using assms by (auto simp: endpoint_create_def worker_clone_def worker_call_def smooth connected_def socket_params_def numeral_2_eq_2 numeral_3_eq_3)
  then show ?thesis
    by (auto simp: get_status_fresh connect_to_def parsed_def assms(4) worker_connect_socket_def connect_socket_def connected_def slice_len_def
        after_call_def elim!: does_mono intro!: does_mono [OF send_at_once(1)])
qed


lemma memory_at_once:
  assumes "connected ctx wk 0 w"
  shows "does (memory_register E 0 region) w (\<lambda>m v. mh_context m = 0 \<and> connected ctx wk 1 v
    \<and> calls v = calls w @ [Ucp_mem_map ctx (num (binds E) UCP_MEM_MAP_PARAM_FIELD_ADDRESS
        OR num (binds E) UCP_MEM_MAP_PARAM_FIELD_LENGTH) (as_ptr region) (slice_len region)])"
  using assms by (simp add: memory_register_def context_clone_def connected_def smooth assert_ok_def)

lemma pack_at_once:
  assumes "connected ctx wk n w" "mh_context m = 0"
  shows "does (memory_pack E m) w (\<lambda>b v. connected ctx wk n v \<and> calls v = calls w @ [Ucp_rkey_pack ctx (mh_handle m)])"
  using assms by (simp add: memory_pack_def connected_def smooth assert_ok_def)

lemma unmap_at_once:
  assumes "connected ctx wk 1 w" "mh_context m = 0"
  shows "does (memory_drop E m) w (\<lambda>_ v. connected ctx wk 0 v \<and> calls v = calls w @ [Ucp_mem_unmap ctx (mh_handle m)])"
  using assms by (simp add: memory_drop_def context_drop_def connected_def smooth)

lemma print_at_once:
  assumes "connected ctx wk n w" "ep_inner e = 0"
  shows "does (endpoint_print E e) w (\<lambda>_ v. connected ctx wk n v \<and> calls v = calls w @ [Ucp_ep_print_info (ep_handle e)])"
  using assms by (simp add: endpoint_print_def inner_is_closed_def connected_def inner_new_def)

lemma leave_at_once:
  assumes "connected ctx wk 0 w" "ep_inner e = 0"
  shows "does (bind (leave_client E e 0 0) (worker_drop E)) w (\<lambda>_ v. all_gone v
    \<and> calls v = calls w @ [Ucp_ep_close_nb (ep_handle e) CLOSE_MODE_FORCE, Ucp_worker_destroy wk, Ucp_cleanup ctx])"
proof -
  have null: "from_ptr (prof E) (binds E) 0 = Ret (Ok ())" using trichotomy [of 0 "prof E"] by (simp add: from_ptr_def)
  show ?thesis
    using assms by (simp add: leave_client_def endpoint_drop_def inner_is_closed_def inner_closed_def inner_set_status_def
        inner_drop_def worker_drop_def context_drop_def connected_def inner_new_def smooth null does_lift numeral_3_eq_3
        all_gone_def one_cell_def [of 0 0])
qed

end

text \<open>The calls of a client between connecting and closing.\<close>

definition send_call :: "('u, 'wk) env \<Rightarrow> handle \<Rightarrow> slice \<Rightarrow> ffi_call" where
  "send_call E ep buf = Ucp_stream_send_nb ep (Bytes (as_ptr buf)) (slice_len buf) (ucp_dt_make_contig (binds E) 1)"

definition tag_call :: "('u, 'wk) env \<Rightarrow> handle \<Rightarrow> u64 \<Rightarrow> slice \<Rightarrow> ffi_call" where
  "tag_call E ep tag buf = Ucp_tag_send_nb ep (Bytes (as_ptr buf)) (slice_len buf) (ucp_dt_make_contig (binds E) 1) tag"

fun client_calls :: "example \<Rightarrow> ('u, 'wk) env \<Rightarrow> ('u, 'addr) host \<Rightarrow> handle \<Rightarrow> handle \<Rightarrow> handle \<Rightarrow> slice \<Rightarrow> ffi_call list" where
  "client_calls Stream_example E H ctx ep mh key = [Ucp_ep_print_info ep,
     send_call E ep \<lparr>as_ptr = local_buf H 1, contents = bytes_of ''Hello!''\<rparr>]"
| "client_calls Tag_example E H ctx ep mh key = [
     tag_call E ep 100 \<lparr>as_ptr = local_buf H 1, contents = bytes_of HELLO\<rparr>,
     tag_call E ep 101 \<lparr>as_ptr = local_buf H 2, contents = pattern 0x1000\<rparr>]"
| "client_calls Rma_example E H ctx ep mh key = [Ucp_ep_print_info ep,
     Ucp_mem_map ctx (num (binds E) UCP_MEM_MAP_PARAM_FIELD_ADDRESS OR num (binds E) UCP_MEM_MAP_PARAM_FIELD_LENGTH)
       (local_buf H 1) 0x1000,
     send_call E ep \<lparr>as_ptr = local_buf H 2, contents = to_ne_bytes (local_buf H 1)\<rparr>,
     Ucp_rkey_pack ctx mh,
     send_call E ep key,
     Ucp_rkey_buffer_release (as_ptr key),
     Ucp_stream_recv_nb ep (Bytes (local_buf H 3)) 1 (ucp_dt_make_contig (binds E) 1),
     Ucp_mem_unmap ctx mh]"

fun run_client :: "example \<Rightarrow> ('u, 'addr) host \<Rightarrow> ('u, 'wk) env \<Rightarrow> ('u, 'wk, 's, 'c) world executor \<Rightarrow> string \<Rightarrow>
   (('u, 'wk, 's, 'c) world, nat) prog" where
  "run_client Stream_example H E X addr = stream_client H E X addr"
| "run_client Tag_example H E X addr = tag_client H E X addr"
| "run_client Rma_example H E X addr = rma_client H E X addr"

text \<open>The state between two operations of a client, and the calls that have been made.\<close>

definition at_work :: "handle \<Rightarrow> handle \<Rightarrow> nat \<Rightarrow> ffi_call list \<Rightarrow> ('u, 'wk, 's, 'c) world \<Rightarrow> bool" where
  "at_work ctx wk n log w \<longleftrightarrow> connected ctx wk n w \<and> calls w = log"

lemma at_work_call: "at_work ctx wk n log w \<Longrightarrow> at_work ctx wk n (log @ [c]) (after_call E c w)"
  by (simp add: at_work_def connected_def after_call_def)

lemma does_next: "does m w P \<Longrightarrow> (\<And>x v. P x v \<Longrightarrow> does (f x) v Q) \<Longrightarrow> does (bind m f) w Q"
  by (auto intro: does_mono)

context smooth_library
begin

lemma send_step:
  assumes "at_work ctx wk n log w" "ep_inner e = 0"
    and "\<And>x v. at_work ctx wk n (log @ [send_call E (ep_handle e) buf]) v \<Longrightarrow> does (f x) v Q"
  shows "does (bind (unwrapped (stream_send E X e buf)) f) w Q"
proof (rule does_next)
  show "does (unwrapped (stream_send E X e buf)) w (\<lambda>_. at_work ctx wk n (log @ [send_call E (ep_handle e) buf]))"
    using assms(1,2) at_work_call [OF assms(1), of "send_call E (ep_handle e) buf" E]
    by (auto simp: get_status_fresh at_work_def connected_def send_call_def intro!: does_mono [OF send_at_once(1)])
qed (rule assms(3))

lemma tag_step:
  assumes "at_work ctx wk n log w" "ep_inner e = 0"
    and "\<And>x v. at_work ctx wk n (log @ [tag_call E (ep_handle e) tag buf]) v \<Longrightarrow> does (f x) v Q"
  shows "does (bind (unwrapped (tag_send E X e tag buf)) f) w Q"
proof (rule does_next)
  show "does (unwrapped (tag_send E X e tag buf)) w (\<lambda>_. at_work ctx wk n (log @ [tag_call E (ep_handle e) tag buf]))"
    using assms(1,2) at_work_call [OF assms(1), of "tag_call E (ep_handle e) tag buf" E]
    by (auto simp: get_status_fresh at_work_def connected_def tag_call_def intro!: does_mono [OF send_at_once(2)])
qed (rule assms(3))

lemma recv_step:
  assumes "at_work ctx wk n log w" "ep_inner e = 0"
    and "\<And>x v. at_work ctx wk n (log @ [Ucp_stream_recv_nb (ep_handle e) (Bytes (as_ptr buf)) (slice_len buf)
        (ucp_dt_make_contig (binds E) 1)]) v \<Longrightarrow> does (f x) v Q"
  shows "does (bind (unwrapped (stream_recv E X e buf)) f) w Q"
proof (rule does_next)
  show "does (unwrapped (stream_recv E X e buf)) w (\<lambda>_. at_work ctx wk n (log @ [Ucp_stream_recv_nb (ep_handle e)
      (Bytes (as_ptr buf)) (slice_len buf) (ucp_dt_make_contig (binds E) 1)]))"
    using assms(1,2) at_work_call [OF assms(1)]
    by (auto simp: get_status_fresh at_work_def connected_def intro!: does_mono [OF recv_at_once(1)])
qed (rule assms(3))

lemma print_step:
  assumes "at_work ctx wk n log w" "ep_inner e = 0"
    and "\<And>x v. at_work ctx wk n (log @ [Ucp_ep_print_info (ep_handle e)]) v \<Longrightarrow> does (f x) v Q"
  shows "does (bind (endpoint_print E e) f) w Q"
  by (rule does_next [OF print_at_once]) (use assms in \<open>auto simp: at_work_def\<close>)


lemma register_at_work:
  assumes "at_work ctx wk 0 log w"
    and "\<And>m v. mh_context m = 0 \<Longrightarrow> at_work ctx wk 1 (log @ [Ucp_mem_map ctx (num (binds E) UCP_MEM_MAP_PARAM_FIELD_ADDRESS
        OR num (binds E) UCP_MEM_MAP_PARAM_FIELD_LENGTH) (as_ptr region) (slice_len region)]) v \<Longrightarrow> does (f m) v Q"
  shows "does (bind (memory_register E 0 region) f) w Q"
  by (rule does_next [OF memory_at_once]) (use assms in \<open>auto simp: at_work_def\<close>)

lemma pack_at_work:
  assumes "at_work ctx wk n log w" "mh_context m = 0"
    and "\<And>b v. at_work ctx wk n (log @ [Ucp_rkey_pack ctx (mh_handle m)]) v \<Longrightarrow> does (f b) v Q"
  shows "does (bind (memory_pack E m) f) w Q"
  by (rule does_next [OF pack_at_once]) (use assms in \<open>auto simp: at_work_def\<close>)

lemma written_at_work:
  assumes "at_work ctx wk n log w"
    and "\<And>s v. as_ptr s = as_ptr buf \<Longrightarrow> at_work ctx wk n log v \<Longrightarrow> does (f s) v Q"
  shows "does (bind (as_written H buf) f) w Q"
  using assms by (simp add: does_def as_written_def bind_def)

lemma release_at_work:
  assumes "at_work ctx wk n log w"
    and "\<And>x v. at_work ctx wk n (log @ [Ucp_rkey_buffer_release (rk_buf b)]) v \<Longrightarrow> does (f x) v Q"
  shows "does (bind (rkey_buffer_drop E b) f) w Q"
  using assms by (simp add: rkey_buffer_drop_def at_work_def connected_def)

lemma unmap_at_work:
  assumes "at_work ctx wk 1 log w" "mh_context m = 0"
    and "\<And>x v. at_work ctx wk 0 (log @ [Ucp_mem_unmap ctx (mh_handle m)]) v \<Longrightarrow> does (f x) v Q"
  shows "does (bind (memory_drop E m) f) w Q"
  by (rule does_next [OF unmap_at_once]) (use assms in \<open>auto simp: at_work_def\<close>)

lemma leave_at_work:
  assumes "at_work ctx wk 0 log w" "ep_inner e = 0"
    and "\<And>v. all_gone v \<Longrightarrow> calls v = log @ [Ucp_ep_close_nb (ep_handle e) CLOSE_MODE_FORCE, Ucp_worker_destroy wk, Ucp_cleanup ctx]
      \<Longrightarrow> Q () v"
  shows "does (bind (leave_client E e 0 0) (worker_drop E)) w Q"
  by (rule does_mono [OF leave_at_once]) (use assms in \<open>auto simp: at_work_def\<close>)

end

text \<open>The calls of a session whose data phase makes the calls \<open>d\<close>.\<close>

definition session_calls :: "('u, 'wk) env \<Rightarrow> ('u, 'addr) host \<Rightarrow> u8 list \<Rightarrow>
    (handle \<Rightarrow> handle \<Rightarrow> ffi_call list \<Rightarrow> bool) \<Rightarrow> ffi_call list \<Rightarrow> bool" where
  "session_calls E H a D cs \<longleftrightarrow> (\<exists>cfg ctx wk params ep d. D ctx ep d \<and> sockaddr params = a
     \<and> cs = startup_calls E (am_feature H) cfg ctx @
         [Ucp_ep_create wk params, Ucp_stream_send_nb ep (Bytes (local_buf H 0)) 4 (ucp_dt_make_contig (binds E) 1)] @ d @
         [Ucp_ep_close_nb ep CLOSE_MODE_FORCE, Ucp_worker_destroy wk, Ucp_cleanup ctx])"

context smooth_library
begin

text \<open>A client starts, connects, exchanges data and leaves.\<close>

lemma client_session:
  fixes w :: "('u, 'wk, 's, 'c) world"
  assumes "nothing_yet w" "parse_socket H addr = Some a"
    and body: "\<And>(e :: Endpoint) ctx wk log v. ep_inner e = 0 \<Longrightarrow> at_work ctx wk 0 log v \<Longrightarrow>
      does (bind (body 0 0 e) (worker_drop E)) v (\<lambda>_ v. all_gone v \<and> (\<exists>d. D ctx (ep_handle e) d
        \<and> calls v = log @ d @ [Ucp_ep_close_nb (ep_handle e) CLOSE_MODE_FORCE, Ucp_worker_destroy wk, Ucp_cleanup ctx]))"
  shows "does (bind (bind (start_worker H E) (\<lambda>(ctx, wk). bind (connect_to H E X wk addr) (body ctx wk))) (worker_drop E)) w
    (\<lambda>_ v. all_gone v \<and> (\<exists>cs. session_calls E H a D cs \<and> calls v = calls w @ cs))"
    (is "does _ w ?Q")
  unfolding bind_assoc
proof (rule does_next [OF start_smooth [OF assms(1)]], clarify)
  fix k and v :: "('u, 'wk, 's, 'c) world" and cfg ctx wk
  assume v: "inners v = empty_heap" "contexts v = one_cell 2 0 \<lparr>c_handle = ctx\<rparr>"
    "workers v = one_cell 2 0 \<lparr>w_handle = wk, w_context = 0, am_streams = []\<rparr>"
    "calls v = calls w @ startup_calls E (am_feature H) cfg ctx"
  show "does (bind (bind (connect_to H E X 0 addr) (body 0 0)) (worker_drop E)) v ?Q"
    unfolding bind_assoc
  proof (rule does_next [OF connect_smooth [OF v(1-3) assms(2)]], elim conjE exE)
    fix e :: Endpoint and u :: "('u, 'wk, 's, 'c) world" and params
    assume "ep_inner e = 0" "connected ctx wk 0 u" "sockaddr params = a"
      "calls u = calls v @ [Ucp_ep_create wk params, Ucp_stream_send_nb (ep_handle e) (Bytes (local_buf H 0)) 4 (ucp_dt_make_contig (binds E) 1)]"
    with v(4) body [of e ctx wk "calls u" u] show "does (bind (body 0 0 e) (worker_drop E)) u ?Q"
      by (fastforce simp: at_work_def session_calls_def elim: does_mono)
  qed
qed

end

section \<open>Properties\<close>

lemma pattern_length [simp]: "length (pattern n) = n" and bytes_length [simp]: "length (bytes_of s) = length s"
  by (simp_all add: pattern_def bytes_of_def)

lemma slice_len_eq: "slice_len \<lparr>as_ptr = p, contents = bs\<rparr> = word_of_nat (length bs)"
  by (simp add: slice_len_def)

lemmas uninit_simps = uninit_def slice_len_eq

context smooth_library
begin

lemma client_smooth:
  fixes w :: "('u, 'wk, 's, 'c) world"
  assumes "nothing_yet w" "parse_socket H addr = Some a"
  shows "does (bind (run_client ex H E X addr) (worker_drop E)) w (\<lambda>_ v. all_gone v \<and>
    (\<exists>cs. session_calls E H a (\<lambda>ctx ep d. \<exists>mh key. d = client_calls ex E H ctx ep mh key) cs \<and> calls v = calls w @ cs))"
proof (cases ex)
  case Stream_example
  show ?thesis
    unfolding Stream_example run_client.simps stream_client_def
    by (rule client_session [OF assms], unfold bind_assoc)
      (erule print_step, assumption, erule send_step, assumption, erule leave_at_work, assumption, simp)
next
  case Tag_example
  show ?thesis
    unfolding Tag_example run_client.simps tag_client_def
    by (rule client_session [OF assms], unfold bind_assoc)
      (erule tag_step, assumption, erule tag_step, assumption, erule leave_at_work, assumption, simp)
next
  case Rma_example
  have calls: "\<exists>d. (\<exists>mh key. d = client_calls Rma_example E H ctx ep mh key) \<and> v = log @ d @ rest"
    if "as_ptr s = kb" "v = ((((((((log @ [Ucp_ep_print_info ep]) @ [Ucp_mem_map ctx (num (binds E) UCP_MEM_MAP_PARAM_FIELD_ADDRESS
            OR num (binds E) UCP_MEM_MAP_PARAM_FIELD_LENGTH) (local_buf H 1) 0x1000]) @
          [send_call E ep \<lparr>as_ptr = local_buf H 2, contents = to_ne_bytes (local_buf H 1)\<rparr>]) @
          [Ucp_rkey_pack ctx mh]) @ [send_call E ep s]) @ [Ucp_rkey_buffer_release kb]) @
          [Ucp_stream_recv_nb ep (Bytes (local_buf H 3)) 1 (ucp_dt_make_contig (binds E) 1)]) @ [Ucp_mem_unmap ctx mh]) @ rest"
    for v log rest ctx ep mh s kb
    using that by (intro exI [where x = "client_calls Rma_example E H ctx ep mh s"]) auto
  show ?thesis
    unfolding Rma_example run_client.simps rma_client_def Let_def
    by (rule client_session [OF assms], unfold bind_assoc)
      (erule print_step, assumption, erule register_at_work, erule send_step, assumption, erule pack_at_work, assumption,
       erule written_at_work, erule send_step, assumption, erule release_at_work, erule recv_step, assumption,
       erule unmap_at_work, assumption, erule leave_at_work, assumption,
       rule conjI, assumption, erule calls, simp add: uninit_simps rkey_buffer_as_ref_def)
qed

end

text \<open>What flushes pending messages.\<close>

fun is_flush :: "ffi_call \<Rightarrow> bool" where
  "is_flush (Ucp_ep_flush_nb ep) = True"
| "is_flush (Ucp_worker_flush wk) = True"
| "is_flush (Ucp_ep_close_nb ep CLOSE_MODE_FLUSH) = True"
| "is_flush _ = False"

lemma session_never_flushes:
  assumes "session_calls E H a (\<lambda>ctx ep d. \<exists>mh key. d = client_calls ex E H ctx ep mh key) cs" "c \<in> set cs"
  shows "\<not> is_flush c"
  using assms by (cases ex) (auto simp: session_calls_def startup_calls_def send_call_def tag_call_def)


definition sample_host :: "(unit, unit) host" where
  "sample_host = \<lparr>parse_socket = (\<lambda>s. Some (bytes_of s)), as_socket = (\<lambda>_. Some ()), memory = (\<lambda>_ _. None),
     local_buf = (\<lambda>i. 4096 * word_of_nat (Suc i)), am_feature = False\<rparr>"

definition first_world :: "(unit, nat option, 's, 'c) world" where
  "first_world = \<lparr>lib = (), calls = [], reqs = [64 \<mapsto> None], scheduled = [], contexts = empty_heap, workers = empty_heap,
     inners = empty_heap, streams = empty_heap, channels = empty_heap\<rparr>"

lemma first_calls: "calls first_world = []"
  by (simp add: first_world_def)



lemma first_holds: "holds (ideal_env p n) no_refs (\<lambda>_. 0) (first_world :: (unit, nat option, 'q, 'n, 'c) full_world)"
  by (auto simp: holds_def owns_def refs_defs counts_def heap_fresh_def endpoints_ok_def refs_from_def first_world_def
      empty_heap_def channels_ok_def maps_ok_def requests_ready_def handed_out_def no_refs_def ideal_env_def ok_reply_def)


lemma those_Some: "those (map Some xs) = Some xs"
  by (induction xs) simp_all

text \<open>
  C23. The address of the client's memory survives the journey: if the eight bytes that the client sends are in
  the server's buffer when its receive returns, the server computes the same address. When the receive
  returns fewer bytes (a stream may deliver a part), the server panics instead of using what is there.
\<close>

theorem rma_address_arrives:
  assumes "stream_recv E X e (uninit (local_buf H 1) 8) w = (Ret (Ok n), v)"
  shows "(n = 8 \<and> (\<forall>i<8. memory H (lib v) (local_buf H 1 + word_of_nat i) = Some (to_ne_bytes p ! i))
      \<longrightarrow> rma_recv_vaddr H E X e w = (Ret p, v))
    \<and> (n \<noteq> 8 \<longrightarrow> rma_recv_vaddr H E X e w = (Fault (Panic Assertion_failed), v))"
proof -
  have recv: "unwrapped (stream_recv E X e (uninit (local_buf H 1) 8)) w = (Ret n, v)"
    using assms by (simp add: unwrapped_def bind_def ret_def)
  have "rma_recv_vaddr H E X e w = (Ret p, v)" if "n = 8"
    and "\<forall>i<8. memory H (lib v) (local_buf H 1 + word_of_nat i) = Some (to_ne_bytes p ! i)"
  proof -
    have "map (\<lambda>i. memory H (lib v) (local_buf H 1 + word_of_nat i)) [0..<8] = map Some (map ((!) (to_ne_bytes p)) [0..<8])"
      using that(2) by simp
    also have "map ((!) (to_ne_bytes p)) [0..<8] = to_ne_bytes p"
      using map_nth [of "to_ne_bytes p"] by simp
    finally have "those (map (\<lambda>i. memory H (lib v) (local_buf H 1 + word_of_nat i)) [0..<8]) = Some (to_ne_bytes p)"
      by (simp add: those_Some)
    then show ?thesis
      using that(1) recv by (simp add: rma_recv_vaddr_def bind_def assert_that_def read_bytes_def from_to_ne_bytes ret_def)
  qed
  moreover have "rma_recv_vaddr H E X e w = (Fault (Panic Assertion_failed), v)" if "n \<noteq> 8"
    using that recv by (simp add: rma_recv_vaddr_def bind_def assert_that_def lift_def)
  ultimately show ?thesis by blast
qed

definition byte_host :: "u64 \<Rightarrow> (unit, unit) host" where
  "byte_host p = sample_host\<lparr>memory := (\<lambda>_ a. Some (to_ne_bytes p ! unat (a - local_buf sample_host 1)))\<rparr>"

definition demo_connection :: "(unit, nat option, unit, unit) world" where
  "demo_connection = first_world\<lparr>inners := one_cell 1 1 (inner_new 0)\<rparr>"

theorem rma_address_arrives_witness:
  "\<exists>v. rma_recv_vaddr (byte_host 0x7f0012345678) (ideal_env Debug 8) \<lparr>x_task = 1, x_others = (\<lambda>w. w), x_polls = 1\<rparr>
     \<lparr>ep_handle = 5, ep_inner = 0\<rparr> demo_connection = (Ret 0x7f0012345678, v)"
proof -
  let ?w = "demo_connection"
  let ?X = "\<lparr>x_task = 1, x_others = (\<lambda>w. w), x_polls = 1\<rparr>" and ?e = "\<lparr>ep_handle = 5, ep_inner = 0\<rparr>"
  obtain v where "stream_recv (ideal_env Debug 8) ?X ?e (uninit (local_buf (byte_host 0x7f0012345678) 1) 8) ?w = (Ret (Ok 8), v)"
    using ideal.recv_at_once [of Debug 8 ?e ?w ?X] get_status_fresh [of ?e ?w] by (auto simp: does_def len_out_def ideal_env_def demo_connection_def)
  note arrives = rma_address_arrives [OF this, of "0x7f0012345678"]
  have "unat (word_of_nat i :: u64) = i" if "i < 8" for i :: nat
    using that by (simp add: unat_of_nat)
  then show ?thesis
    using arrives by (auto simp: byte_host_def)
qed

end
