(* ===== verification/Handshake.thy ===== *)
theory Handshake
  imports Clients
begin

text \<open>
  How two endpoints of a connection are closed: the assertions with which the tests of \<^verbatim>\<open>am.rs\<close>, \<^verbatim>\<open>rma.rs\<close> and
  \<^verbatim>\<open>tag.rs\<close> end, as a program, and when they hold.
\<close>

section \<open>The assertions\<close>

definition assert_rc :: "Endpoint \<Rightarrow> nat \<times> nat \<Rightarrow> (('u, 'wk, 's, 'c) world, unit) prog" where
  "assert_rc e expected = bind (get_rc e) (\<lambda>rc. assert_that (rc = expected))"

definition assert_close ::
  "('u, 'wk) env \<Rightarrow> ('u, 'wk, 's, 'c) world executor \<Rightarrow> Endpoint \<Rightarrow> bool \<Rightarrow> (unit, Error) result \<Rightarrow>
   (('u, 'wk, 's, 'c) world, unit) prog" where
  "assert_close E X e force expected = bind (endpoint_close E X e force) (\<lambda>result. assert_that (result = expected))"

definition closing_asserts ::
  "('u, 'wk) env \<Rightarrow> ('u, 'wk, 's, 'c) world executor \<Rightarrow> Endpoint \<Rightarrow> Endpoint \<Rightarrow> (('u, 'wk, 's, 'c) world, unit) prog" where
  "closing_asserts E X endpoint1 endpoint2 =
     bind (assert_rc endpoint1 (1, 1)) (\<lambda>_.
     bind (assert_rc endpoint2 (1, 1)) (\<lambda>_.
     bind (assert_close E X endpoint1 False (Ok ())) (\<lambda>_.
     bind (assert_close E X endpoint2 False (Err ConnectionReset)) (\<lambda>_.
     bind (assert_rc endpoint1 (1, 0)) (\<lambda>_.
     bind (assert_rc endpoint2 (1, 1)) (\<lambda>_.
     bind (assert_close E X endpoint2 True (Ok ())) (\<lambda>_.
       assert_rc endpoint2 (1, 0))))))))"

section \<open>Its steps\<close>

lemma assert_rc_holds:
  "cells (inners w) (ep_inner e) = Some b \<Longrightarrow> 0 < strong b \<Longrightarrow> assert_rc e (strong b, weak b) w = (Ret (), w)"
  by (simp add: assert_rc_def get_rc_def assert_that_def bind_def on_inners_def rc_counts_def lift_def ret_def)

lemma assert_close_holds:
  "endpoint_close E X e force w = (Ret expected, w') \<Longrightarrow> assert_close E X e force expected w = (Ret (), w')"
  by (simp add: assert_close_def assert_that_def bind_def lift_def ret_def)

text \<open>An endpoint as it is used, and the closed one.\<close>

abbreviation used :: "EndpointInner rcbox \<Rightarrow> bool" where
  "used b \<equiv> strong b = 1 \<and> weak b = 1 \<and> \<not> closed (val b)"

lemma get_status_cell:
  "cells (inners w) (ep_inner e) = Some b \<Longrightarrow> 0 < strong b \<Longrightarrow>
   get_status E e w = (from_status (prof E) (ep_status (val b)), w)"
  by (simp add: get_status_def inner_reads)

lemma from_status_ret: "from_status p s = Ret (Ok x) \<longleftrightarrow> s = UCS_OK"
  by (cases "s = UCS_OK") simp_all

text \<open>A close whose request becomes ready in poll \<open>k\<close>, and one that is complete at once.\<close>

lemma close_rounds_run:
  assumes "\<forall>i<k. poll_normal E ptr ((others ^^ i) w) = (Ret Pending, (others ^^ i) w)" "k < n"
    and "close_round E e ptr ((others ^^ k) w) = (Ret (Finished res), v)"
  shows "close_rounds E others e ptr n w = (Ret res, v)"
  using assms
proof (induction k arbitrary: w n)
  case 0
  then show ?case by (cases n) (simp_all add: bind_def ret_def)
next
  case (Suc k)
  obtain m where n: "n = Suc m" "k < m" using Suc.prems(2) by (metis Suc_lessE)
  have step: "(others ^^ Suc i) w = (others ^^ i) (others w)" for i
    by (simp add: funpow_swap1)
  have poll: "poll_normal E ptr w = (Ret Pending, w)"
    using Suc.prems(1) by (metis funpow_0 zero_less_Suc)
  have "close_rounds E others e ptr m (others w) = (Ret res, v)"
    using Suc.prems(1,3) n(2) step by (intro Suc.IH) (metis Suc_mono, simp_all)
  then show ?case by (simp add: n bind_def poll close_round_def ret_def modify_def)
qed

lemma close_after_wait:
  assumes cell: "cells (inners w) (ep_inner e) = Some b" "0 < strong b" "ep_status (val b) = UCS_OK"
    and u: "c = Ucp_ep_close_nb (ep_handle e) CLOSE_MODE_FLUSH" "ptr = ptr_of (fst (ucx E c (lib w)))"
    and ptr: "ptr \<noteq> 0" "UCS_PTR_IS_PTR (prof E) (binds E) ptr = Ret True"
    and polls: "\<forall>i<k. poll_normal E ptr ((x_others X ^^ i) (after_call E c w)) = (Ret Pending, (x_others X ^^ i) (after_call E c w))"
    and ready: "v = (x_others X ^^ k) (after_call E c w)" "poll_normal E ptr v = (Ret (Ready (Ok ())), v)" "k < x_polls X"
    and cell': "cells (inners v) (ep_inner e) = Some b'" "used b'"
  shows "endpoint_close E X e False w = (Ret (Ok ()),
    (after_call E (Ucp_request_free ptr) v)\<lparr>inners := put_cell (ep_inner e) (after_closed b') (inners v)\<rparr>)"
proof -
  let ?u = "after_call E (Ucp_request_free ptr) v"
  have first: "close_start E e False w = (Ret (Closing ptr), after_call E c w)"
    using get_status_cell [OF cell(1,2), of E] cell(3) u ptr
    by (simp add: close_start_def bind_def ret_def ffi_after on_status_ptr_def lift_def)
  have "inner_closed (ep_inner e) ?u = (Ret (), ?u\<lparr>inners := put_cell (ep_inner e) (after_closed b') (inners ?u)\<rparr>)"
    using cell' by (intro inner_closed_eq) (simp_all add: after_call_def)
  then have "close_round E e ptr v = (Ret (Finished (Ok ())),
      ?u\<lparr>inners := put_cell (ep_inner e) (after_closed b') (inners v)\<rparr>)"
    using ready(2) by (simp add: close_round_def request_drop_def bind_def ffi_after ret_def) (simp add: after_call_def)
  from close_rounds_run [OF polls ready(3) this [unfolded ready(1)]] show ?thesis
    by (simp add: endpoint_close_eq bind_def first ready(1))
qed

lemma close_at_once:
  assumes cell: "cells (inners w) (ep_inner e) = Some b" "used b" "force \<or> ep_status (val b) = UCS_OK"
    and c: "c = Ucp_ep_close_nb (ep_handle e) (if force then CLOSE_MODE_FORCE else CLOSE_MODE_FLUSH)"
    and "ptr_of (fst (ucx E c (lib w))) = 0"
  shows "endpoint_close E X e force w = (Ret (Ok ()),
    (after_call E c w)\<lparr>inners := put_cell (ep_inner e) (after_closed b) (inners w)\<rparr>)"
proof -
  let ?u = "after_call E c w"
  have "inner_closed (ep_inner e) ?u = (Ret (), ?u\<lparr>inners := put_cell (ep_inner e) (after_closed b) (inners ?u)\<rparr>)"
    using cell by (intro inner_closed_eq) (simp_all add: after_call_def)
  moreover have "endpoint_is_closed e w = (Ret False, w)" "get_status E e w = (from_status (prof E) (ep_status (val b)), w)"
    using cell by (simp_all add: endpoint_is_closed_def inner_reads get_status_cell)
  ultimately show ?thesis
    using assms(3-5) by (cases force)
      (simp_all add: endpoint_close_def try_bind_def bind_def ret_def ffi_after on_status_ptr_def, simp_all add: after_call_def)
qed

lemma close_refused:
  "cells (inners w) (ep_inner e) = Some b \<Longrightarrow> 0 < strong b \<Longrightarrow> ep_status (val b) = s \<Longrightarrow> s \<noteq> UCS_OK \<Longrightarrow>
   endpoint_close E X e False w = (Ret (Err (error_of_status s)), w)"
  by (simp add: endpoint_close_def try_bind_def bind_def ret_def get_status_cell)

section \<open>Closing is safe\<close>

context ucx_library
begin

lemma safely_close_rounds:
  fixes w :: "('u, 'wk, 'q, 'n, 'c) full_world"
  assumes X: "steady E X" and "holds E R L w" "0 < r_endpoints R (ep_inner e)"
  shows "safely (close_rounds E (x_others X) e ptr n) w (\<lambda>_. holds E R L)"
  using assms(2)
proof (induction n arbitrary: w)
  case 0
  then show ?case by (simp add: safely_lift)
next
  case (Suc n)
  have own: "owns w R" using Suc.prems by (simp add: holds_def)
  have round: "safely (close_round E e ptr) w (\<lambda>_. holds E R L)"
    by (rule safely_owned [OF close_round_owned [OF own assms(3), of ptr] Suc.prems, where S = "\<lambda>_. R"])
      (auto simp: chans.close_round_kept initialised.close_round_kept maps.close_round_kept simp del: not_None_eq)
  show ?case
    unfolding close_rounds.simps
  proof (rule safely_bind [OF round])
    fix s and v :: "('u, 'wk, 'q, 'n, 'c) full_world" assume v: "holds E R L v"
    then have "holds E R L (x_others X v)" using X by (simp add: steady_def)
    with v Suc.IH show "safely (case s of Finished result \<Rightarrow> ret result
        | Closing _ \<Rightarrow> bind (modify (x_others X)) (\<lambda>_. close_rounds E (x_others X) e ptr n)) v (\<lambda>_. holds E R L)"
      by (simp add: safely_bind_iff split: close_state.split)
  qed
qed

lemma safely_endpoint_close:
  fixes w :: "('u, 'wk, 'q, 'n, 'c) full_world"
  assumes X: "steady E X" and w: "holds E R L w" "0 < r_endpoints R (ep_inner e)"
  shows "safely (endpoint_close E X e force) w (\<lambda>_. holds E R L)"
proof -
  have own: "owns w R" using w(1) by (simp add: holds_def)
  have "safely (close_start E e force) w (\<lambda>_. holds E R L)"
    by (rule safely_owned [OF close_start_owned [OF own w(2), of force] w(1), where S = "\<lambda>_. R"])
      (auto simp: kept simp del: not_None_eq)
  then show ?thesis
    unfolding endpoint_close_eq
    by (rule safely_bind) (auto intro: safely_close_rounds [OF X _ w(2)] split: close_state.split)
qed

lemma safely_closing_asserts:
  fixes w :: "('u, 'wk, 'q, 'n, 'c) full_world"
  assumes X: "steady E X" and w: "holds E R L w" and held: "0 < r_endpoints R (ep_inner e1)" "0 < r_endpoints R (ep_inner e2)"
  shows "safely (closing_asserts E X e1 e2) w (\<lambda>_. holds E R L)"
proof -
  have close: "safely (assert_close E X e force res) v (\<lambda>_. holds E R L)"
    if "holds E R L v" "0 < r_endpoints R (ep_inner e)" for e force res and v :: "('u, 'wk, 'q, 'n, 'c) full_world"
    unfolding assert_close_def by (rule safely_bind [OF safely_endpoint_close [OF X that]]) simp
  have count: "safely (assert_rc e rc) v (\<lambda>_. holds E R L)"
    if v: "holds E R L v" "0 < r_endpoints R (ep_inner e)" for e rc and v :: "('u, 'wk, 'q, 'n, 'c) full_world"
  proof -
    have own: "owns v R" using v(1) by (simp add: holds_def)
    obtain b where "cells (inners v) (ep_inner e) = Some b" "0 < strong b"
      using own v(2) by (rule owned_inner)
    then show ?thesis
      using v(1) by (simp add: assert_rc_def get_rc_def safely_def assert_that_def bind_def on_inners_def rc_counts_def lift_def)
  qed
  show ?thesis
    unfolding closing_asserts_def by (rule safely_bind count close w held | assumption)+
qed

end

section \<open>Properties\<close>

text \<open>
  C29. The assertions with which the tests end: two endpoints, each with one owner. The first close has to wait, and by
  the time its request is complete the peer has been told (its error handler has run with a connection reset);
  then closing the other endpoint in the same mode is refused with that error and changes nothing,
  closing it by force succeeds, and the library's weak references go with exactly these two closes.
\<close>

theorem closing_asserts_hold:
  assumes own: "ucx_library E" "owns w R" "r_endpoints R (ep_inner e1) = 1" "r_endpoints R (ep_inner e2) = 1"
    "ep_inner e1 \<noteq> ep_inner e2" "get_status E e1 w = (Ret (Ok ()), w)"
    and still_open: "inner_is_closed (ep_inner e2) w = (Ret False, w)"
    and c: "c = Ucp_ep_close_nb (ep_handle e1) CLOSE_MODE_FLUSH" "ptr = ptr_of (fst (ucx E c (lib w)))"
    and ptr: "ptr \<noteq> 0" "UCS_PTR_IS_PTR (prof E) (binds E) ptr = Ret True"
    and polls: "\<forall>i<k. fst (poll_normal E ptr ((x_others X ^^ i) (after_call E c w))) = Ret Pending"
    and v: "v = (x_others X ^^ k) (after_call E c w)" "fst (poll_normal E ptr v) = Ret (Ready (Ok ()))" "k < x_polls X"
    and delivered: "inners v = inners (snd (err_handler E (ep_inner e2) (ep_handle e2) UCS_ERR_CONNECTION_RESET w))"
    and forced: "ptr_of (fst (ucx E (Ucp_ep_close_nb (ep_handle e2) CLOSE_MODE_FORCE) (lib (after_call E (Ucp_request_free ptr) v)))) = 0"
  shows "\<exists>w'. closing_asserts E X e1 e2 w = (Ret (), w')
    \<and> endpoint_is_closed e1 w' = (Ret True, w') \<and> endpoint_is_closed e2 w' = (Ret True, w')
    \<and> calls w' = calls v @ [Ucp_request_free ptr, Ucp_ep_close_nb (ep_handle e2) CLOSE_MODE_FORCE]"
proof -
  have "0 < r_endpoints R (ep_inner e1)" "0 < r_endpoints R (ep_inner e2)" using own(3,4) by simp_all
  note cells = owned_inner [OF own(2) this(1)] owned_inner [OF own(2) this(2)]
  obtain b1 where b1: "cells (inners w) (ep_inner e1) = Some b1" "used b1" "ep_status (val b1) = UCS_OK"
    by (rule cells(1)) (use own(3,6) in \<open>simp add: get_status_cell from_status_ret split: if_splits\<close>)
  obtain b2 where b2: "cells (inners w) (ep_inner e2) = Some b2" "used b2"
    by (rule cells(2)) (use own(4) still_open in \<open>simp add: inner_reads\<close>)
  let ?b2 = "b2\<lparr>val := (val b2)\<lparr>ep_status := UCS_ERR_CONNECTION_RESET\<rparr>\<rparr>"
  have inners_v: "inners v = put_cell (ep_inner e2) ?b2 (inners w)"
    using delivered ucx_library.err_handler_eq [OF own(1,2) b2(1)] b2(2) by simp
  have at_v: "cells (inners v) (ep_inner e1) = Some b1" "cells (inners v) (ep_inner e2) = Some ?b2"
    using b1 b2 own(5) by (simp_all add: inners_v)
  let ?x = "(after_call E (Ucp_request_free ptr) v)\<lparr>inners := put_cell (ep_inner e1) (after_closed b1) (inners v)\<rparr>"
  have "poll_normal E ptr u = (Ret r, u)" if "fst (poll_normal E ptr u) = Ret r" for r and u :: "('a, 'b, 'c, 'd) world"
    using that lib_test_pair [OF poll_tests(1), of E ptr u] by simp
  then have "endpoint_close E X e1 False w = (Ret (Ok ()), ?x)"
    using polls v(2) b1 by (intro close_after_wait [OF b1(1) _ b1(3) c ptr _ v(1) _ v(3) at_v(1)]) simp_all
  note first = assert_close_holds [OF this]
  have at_x: "cells (inners ?x) (ep_inner e1) = Some (after_closed b1)" "cells (inners ?x) (ep_inner e2) = Some ?b2"
    using b1 at_v(2) own(5) by (simp_all add: after_closed_def)
  note second = assert_close_holds [OF close_refused [OF at_x(2)], of UCS_ERR_CONNECTION_RESET E X]
  let ?c2 = "Ucp_ep_close_nb (ep_handle e2) CLOSE_MODE_FORCE"
  let ?y = "(after_call E ?c2 ?x)\<lparr>inners := put_cell (ep_inner e2) (after_closed ?b2) (inners ?x)\<rparr>"
  have "endpoint_close E X e2 True ?x = (Ret (Ok ()), ?y)"
    using forced b2 by (intro close_at_once [OF at_x(2)]) simp_all
  note third = assert_close_holds [OF this]
  have at_y: "cells (inners ?y) (ep_inner e1) = Some (after_closed b1)" "cells (inners ?y) (ep_inner e2) = Some (after_closed ?b2)"
    using b1 b2 own(5) at_x by (simp_all add: after_closed_def)
  have "closing_asserts E X e1 e2 w = (Ret (), ?y)"
    using b1 b2 assert_rc_holds [OF b1(1)] assert_rc_holds [OF b2(1)] first second assert_rc_holds [OF at_x(1)]
      assert_rc_holds [OF at_x(2)] third assert_rc_holds [OF at_y(2)]
    by (simp add: closing_asserts_def bind_def after_closed_def)
  moreover have "calls ?y = calls v @ [Ucp_request_free ptr, ?c2]" by (simp add: after_call_def)
  ultimately show ?thesis
    using at_y b1 b2 by (intro exI [of _ ?y]) (simp add: endpoint_is_closed_def inner_reads)
qed

text \<open>Two endpoints; the library waits once, and the activity in between delivers the error.\<close>

definition two_ends :: "(reply list, nat option, unit, unit) sys" where
  "two_ends = run (lawful_env Debug) [New_context False 0, New_worker 0, New_endpoint 0 zeroed_params, New_endpoint 0 zeroed_params]
     (empty_sys [])"

abbreviation other_endpoint :: Endpoint where
  "other_endpoint \<equiv> \<lparr>ep_handle = 0, ep_inner = 1\<rparr>"

definition waiting_once :: "reply list" where
  "waiting_once = [ok_reply\<lparr>ptr_of := 64\<rparr>, ok_reply\<lparr>status_of := UCS_INPROGRESS\<rparr>]"

definition peer_told :: "nat \<Rightarrow> (reply list, nat option, unit, unit) world executor" where
  "peer_told n = \<lparr>x_task = 1, x_others = (\<lambda>w.
     (snd (err_handler (lawful_env Debug) 1 0 UCS_ERR_CONNECTION_RESET w))\<lparr>lib := tl (lib w)\<rparr>), x_polls = n\<rparr>"

lemma two_ends_owns:
  "owns (mem two_ends) (refs_of two_ends)" "endpoint_vars two_ends = [other_endpoint, demo_endpoint]"
  "cells (inners (mem two_ends)) = [0 \<mapsto> \<lparr>strong = 1, weak = 1, val = inner_new 0\<rparr>, 1 \<mapsto> \<lparr>strong = 1, weak = 1, val = inner_new 0\<rparr>]"
proof -
  have "enabled_run (lawful_env Debug) [New_context False 0, New_worker 0, New_endpoint 0 zeroed_params, New_endpoint 0 zeroed_params]
      (empty_sys [] :: (reply list, nat option, unit, unit) sys)"
    by (simp add: empty_sys_def empty_heap_def machine_simps)
  with reachable.start have "reachable (lawful_env Debug) two_ends"
    unfolding two_ends_def by (rule run_reachable)
  then show "owns (mem two_ends) (refs_of two_ends)"
    using ucx_library.reachable_inv [OF lawful.ucx_library_axioms] by (auto simp: sys_inv_def)
qed (simp_all add: two_ends_def empty_sys_def empty_heap_def machine_simps numeral_2_eq_2)

theorem closing_asserts_hold_witness:
  "\<exists>w'. closing_asserts (lawful_env Debug) (peer_told 2) demo_endpoint other_endpoint
     (mem two_ends\<lparr>lib := waiting_once\<rparr>) = (Ret (), w')"
proof -
  let ?E = "lawful_env Debug" and ?w = "mem two_ends\<lparr>lib := waiting_once\<rparr>" and ?c = "Ucp_ep_close_nb 0 CLOSE_MODE_FLUSH"
  let ?v = "(x_others (peer_told 2) ^^ 1) (after_call ?E ?c ?w)"
  note simps = waiting_once_def two_ends_owns peer_told_def after_call_def machine_simps get_status_def inner_check_def
  have own: "owns ?w (refs_of two_ends)" using two_ends_owns(1) by simp
  have polls: "\<forall>i<1. fst (poll_normal ?E 64 ((x_others (peer_told 2) ^^ i) (after_call ?E ?c ?w))) = Ret Pending"
    "fst (poll_normal ?E 64 ?v) = Ret (Ready (Ok ()))"
    by (simp_all add: poll_normal_def simps)
  have told: "inners ?v = inners (snd (err_handler ?E (ep_inner other_endpoint) (ep_handle other_endpoint) UCS_ERR_CONNECTION_RESET ?w))"
    by (simp add: simps err_handler_def)
  have is_ptr: "64 \<noteq> (0 :: handle)" "UCS_PTR_IS_PTR (prof ?E) (binds ?E) 64 = Ret True"
    by (simp_all add: UCS_PTR_IS_PTR_def UCS_PTR_IS_ERR_def usize_sub_def err_last_def)
  have "\<exists>w'. closing_asserts ?E (peer_told 2) demo_endpoint other_endpoint ?w = (Ret (), w')
    \<and> endpoint_is_closed demo_endpoint w' = (Ret True, w') \<and> endpoint_is_closed other_endpoint w' = (Ret True, w')
    \<and> calls w' = calls ?v @ [Ucp_request_free 64, Ucp_ep_close_nb (ep_handle other_endpoint) CLOSE_MODE_FORCE]"
    by (rule closing_asserts_hold [OF lawful.ucx_library_axioms own, where c = ?c and k = 1, OF _ _ _ _ _ _ _ is_ptr polls(1) refl polls(2) _ told])
      (simp_all add: simps refs_of_simps)
  then show ?thesis by blast
qed

text \<open>
  The assertions depend on the wait: where both closes are complete at once, the peer has not been told in between,
  the second close succeeds, and the test panics.
\<close>

lemma closing_asserts_need_delivery:
  assumes own: "owns w R" "r_endpoints R (ep_inner e1) = 1" "r_endpoints R (ep_inner e2) = 1" "ep_inner e1 \<noteq> ep_inner e2"
    "get_status E e1 w = (Ret (Ok ()), w)" "get_status E e2 w = (Ret (Ok ()), w)"
    and at_once: "\<forall>h u. ptr_of (fst (ucx E (Ucp_ep_close_nb h CLOSE_MODE_FLUSH) u)) = 0"
  shows "fst (closing_asserts E X e1 e2 w) = Fault (Panic Assertion_failed)"
proof -
  have "0 < r_endpoints R (ep_inner e1)" "0 < r_endpoints R (ep_inner e2)" using own(2,3) by simp_all
  note cells = owned_inner [OF own(1) this(1)] owned_inner [OF own(1) this(2)]
  obtain b1 where b1: "cells (inners w) (ep_inner e1) = Some b1" "used b1" "ep_status (val b1) = UCS_OK"
    by (rule cells(1)) (use own(2,5) in \<open>simp add: get_status_cell from_status_ret split: if_splits\<close>)
  obtain b2 where b2: "cells (inners w) (ep_inner e2) = Some b2" "used b2" "ep_status (val b2) = UCS_OK"
    by (rule cells(2)) (use own(3,6) in \<open>simp add: get_status_cell from_status_ret split: if_splits\<close>)
  let ?c = "Ucp_ep_close_nb (ep_handle e1) CLOSE_MODE_FLUSH"
  let ?x = "(after_call E ?c w)\<lparr>inners := put_cell (ep_inner e1) (after_closed b1) (inners w)\<rparr>"
  have first: "endpoint_close E X e1 False w = (Ret (Ok ()), ?x)"
    using b1 at_once by (intro close_at_once [OF b1(1)]) simp_all
  have at_x: "cells (inners ?x) (ep_inner e2) = Some b2" using b1 b2(1) own(4) by (simp add: after_closed_def)
  have "fst (endpoint_close E X e2 False ?x) = Ret (Ok ())"
    using b2 at_once by (subst close_at_once [OF at_x _ _ refl]) auto
  then have "fst (assert_close E X e2 False (Err ConnectionReset) ?x) = Fault (Panic Assertion_failed)"
    by (auto simp: assert_close_def assert_that_def bind_def lift_def split: prod.splits)
  then show ?thesis
    using b1 b2 assert_rc_holds [OF b1(1)] assert_rc_holds [OF b2(1)] assert_close_holds [OF first]
    by (auto simp: closing_asserts_def bind_def split: prod.splits)
qed

end
