(* ===== verification/TestPrograms.thy ===== *)
theory TestPrograms
  imports Interleaving Sessions Handshake
begin

text \<open>
  The tests in the source files, as programs: \<^verbatim>\<open>accept\<close> of \<^verbatim>\<open>listener.rs\<close>, \<^verbatim>\<open>tag\<close> of \<^verbatim>\<open>tag.rs\<close>, \<^verbatim>\<open>put_get\<close> of \<^verbatim>\<open>rma.rs\<close>
  and \<^verbatim>\<open>am\<close> of \<^verbatim>\<open>am.rs\<close>. They run both ends of a connection in one thread: the futures of the two sides are joined, and a
  task for each worker polls it in between.
\<close>

section \<open>The setting\<close>

text \<open>
  Beyond the host of a client: the port of a socket address; what the program itself writes into a buffer whose bytes the
  library's state knows; which of two joined futures is polled in a turn of their task, and in which order; which of the two spawned tasks is dropped first.
\<close>

record ('u, 'addr) setting =
  th :: "('u, 'addr) host"
  port_of :: "'addr \<Rightarrow> u16"
  fill :: "handle \<Rightarrow> u8 list \<Rightarrow> 'u \<Rightarrow> 'u"
  schedule :: "nat \<Rightarrow> bool list"
  in_order :: bool

text \<open>\<^verbatim>\<open>SocketAddr::set_port\<close> on the bytes of the socket address: the port follows the family, in network order.\<close>

definition set_port :: "u16 \<Rightarrow> u8 list \<Rightarrow> u8 list" where
  "set_port port addr = take 2 addr @ [ucast (drop_bit 8 port), ucast port] @ drop 4 addr"

text \<open>The port that a listener on any port was given.\<close>

definition listen_port ::
  "('u, 'addr) setting \<Rightarrow> ('u, 'wk) env \<Rightarrow> Listener \<Rightarrow> (('u, 'wk, 's, 'c) world, u16) prog" where
  "listen_port T E listener = bind (unwrapped (listener_socket_addr E (as_socket (th T)) listener)) (\<lambda>own. ret (port_of T own))"

text \<open>
  \<^verbatim>\<open>spawn_thread!\<close>: the future runs to its end, then the set of local tasks is dropped, and with each spawned task the
  worker that it polls.
\<close>

definition spawn_thread ::
  "('u, 'wk) env \<Rightarrow> (('u, 'wk, 's, 'c) world, nat list) prog \<Rightarrow> (('u, 'wk, 's, 'c) world, unit) prog" where
  "spawn_thread E main = bind main (\<lambda>tasks. foldr (\<lambda>wk m. bind (worker_drop E wk) (\<lambda>_. m)) tasks (ret ()))"

section \<open>\<^verbatim>\<open>listener::tests::accept\<close>\<close>

text \<open>
  Two threads, and a oneshot channel for the port between them: \<open>can_send\<close>, whether its receiver still exists when the port is sent;
  \<open>received\<close>, the port, if the sender was not dropped without sending.
\<close>

definition accept_thread ::
  "('u, 'addr) setting \<Rightarrow> ('u, 'wk) env \<Rightarrow> 'c channel_ops \<Rightarrow> ('u, 'wk, 's, 'c) world executor \<Rightarrow> bool \<Rightarrow>
   (('u, 'wk, 's, 'c) world, nat list) prog" where
  "accept_thread T E C X can_send =
     bind (start_worker (th T) E) (\<lambda>(ctx, wk).
     bind (listen_at (th T) E C wk ''0.0.0.0:0'') (\<lambda>listener.
     bind (listen_port T E listener) (\<lambda>_.
     bind (lift (if can_send then Ret () else Fault (Panic Unwrap_on_err))) (\<lambda>_.
     bind (listener_next C (x_others X) listener (x_polls X)) (\<lambda>conn.
     bind (unwrapped (worker_accept E X wk conn (uninit (local_buf (th T) 0) 4))) (\<lambda>endpoint.
     bind (leave_server E endpoint listener wk ctx) (\<lambda>task. ret [task])))))))"

definition connect_thread ::
  "('u, 'addr) setting \<Rightarrow> ('u, 'wk) env \<Rightarrow> ('u, 'wk, 's, 'c) world executor \<Rightarrow> u16 option \<Rightarrow>
   (('u, 'wk, 's, 'c) world, nat list) prog" where
  "connect_thread T E X received =
     bind (start_worker (th T) E) (\<lambda>(ctx, wk).
     bind (parsed (th T) ''127.0.0.1:0'') (\<lambda>addr.
     bind (lift (case received of Some port \<Rightarrow> Ret port | None \<Rightarrow> Fault (Panic Unwrap_on_err))) (\<lambda>port.
     bind (unwrapped (worker_connect_socket E X wk (set_port port addr) (local_buf (th T) 0))) (\<lambda>endpoint.
     bind (leave_client E endpoint wk ctx) (\<lambda>task. ret [task])))))"

section \<open>Both ends in one thread\<close>

text \<open>What the other tests start with, and the variables that are left.\<close>

record ends =
  context1 :: nat
  worker1 :: nat
  context2 :: nat
  worker2 :: nat
  listener :: Listener
  endpoint1 :: Endpoint
  endpoint2 :: Endpoint

definition accepting ::
  "('u, 'addr) setting \<Rightarrow> ('u, 'wk) env \<Rightarrow> 'c channel_ops \<Rightarrow> ('u, 'wk, 's, 'c) world executor \<Rightarrow> nat \<Rightarrow> Listener \<Rightarrow>
   (('u, 'wk, 's, 'c) world, Endpoint) future" where
  "accepting T E C X wk l = next_future C l (\<lambda>conn1.
     accept_future E (x_task X) wk conn1 (uninit (local_buf (th T) 0) 4) (\<lambda>res. sync (lift (unwrap res)) Done))"

definition connecting ::
  "('u, 'addr) setting \<Rightarrow> ('u, 'wk) env \<Rightarrow> ('u, 'wk, 's, 'c) world executor \<Rightarrow> nat \<Rightarrow> u8 list \<Rightarrow>
   (('u, 'wk, 's, 'c) world, Endpoint) future" where
  "connecting T E X wk addr = connect_future E (x_task X) wk addr (local_buf (th T) 1) (\<lambda>res. sync (lift (unwrap res)) Done)"

definition connect_ends ::
  "('u, 'addr) setting \<Rightarrow> ('u, 'wk) env \<Rightarrow> 'c channel_ops \<Rightarrow> ('u, 'wk, 's, 'c) world executor \<Rightarrow>
   (('u, 'wk, 's, 'c) world, ends) prog" where
  "connect_ends T E C X =
     bind (new_worker (th T) E) (\<lambda>(ctx1, wk1).
     bind (new_worker (th T) E) (\<lambda>(ctx2, wk2).
     bind (worker_clone wk1) (\<lambda>_.
     bind (worker_clone wk2) (\<lambda>_.
     bind (listen_at (th T) E C wk1 ''0.0.0.0:0'') (\<lambda>l.
     bind (listen_port T E l) (\<lambda>port.
     bind (parsed (th T) ''127.0.0.1:0'') (\<lambda>addr.
     bind (join X (schedule T) (accepting T E C X wk1 l) (connecting T E X wk2 (set_port port addr))) (\<lambda>(e1, e2).
       ret \<lparr>context1 = ctx1, worker1 = wk1, context2 = ctx2, worker2 = wk2, listener = l, endpoint1 = e1, endpoint2 = e2\<rparr>))))))))"

text \<open>The variables go out of scope; the two tasks keep their workers.\<close>

definition leave_ends ::
  "('u, 'addr) setting \<Rightarrow> ('u, 'wk) env \<Rightarrow> ends \<Rightarrow> (('u, 'wk, 's, 'c) world, nat list) prog" where
  "leave_ends T E n =
     bind (endpoint_drop E (endpoint2 n)) (\<lambda>_.
     bind (endpoint_drop E (endpoint1 n)) (\<lambda>_.
     bind (listener_drop E (listener n)) (\<lambda>_.
     bind (worker_drop E (worker2 n)) (\<lambda>_.
     bind (context_drop E (context2 n)) (\<lambda>_.
     bind (worker_drop E (worker1 n)) (\<lambda>_.
     bind (context_drop E (context1 n)) (\<lambda>_.
       ret (if in_order T then [worker1 n, worker2 n] else [worker2 n, worker1 n]))))))))"

section \<open>\<^verbatim>\<open>tag::tests::tag\<close>\<close>

definition tag_sending ::
  "('u, 'addr) setting \<Rightarrow> ('u, 'wk) env \<Rightarrow> ('u, 'wk, 's, 'c) world executor \<Rightarrow> ends \<Rightarrow> nat \<Rightarrow>
   (('u, 'wk, 's, 'c) world, unit) future" where
  "tag_sending T E X n msg_size =
     tag_send_future E (x_task X) (endpoint2 n) 1 \<lparr>as_ptr = local_buf (th T) 2, contents = replicate msg_size 0\<rparr>
       (\<lambda>res. sync (lift (unwrap res)) (\<lambda>_. Done ()))"

definition tag_receiving ::
  "('u, 'addr) setting \<Rightarrow> ('u, 'wk) env \<Rightarrow> ('u, 'wk, 's, 'c) world executor \<Rightarrow> ends \<Rightarrow> nat \<Rightarrow>
   (('u, 'wk, 's, 'c) world, unit) future" where
  "tag_receiving T E X n msg_size =
     tag_recv_future E (x_task X) (worker1 n) 1 (uninit (local_buf (th T) 3) msg_size)
       (\<lambda>res. sync (lift (unwrap res)) (\<lambda>_. Done ()))"

definition tag_case ::
  "('u, 'addr) setting \<Rightarrow> ('u, 'wk) env \<Rightarrow> 'c channel_ops \<Rightarrow> ('u, 'wk, 's, 'c) world executor \<Rightarrow> nat \<Rightarrow>
   (('u, 'wk, 's, 'c) world, nat list) prog" where
  "tag_case T E C X msg_size =
     bind (connect_ends T E C X) (\<lambda>n.
     bind (join X (schedule T) (tag_sending T E X n msg_size) (tag_receiving T E X n msg_size)) (\<lambda>_.
     bind (closing_asserts E X (endpoint1 n) (endpoint2 n)) (\<lambda>_.
       leave_ends T E n)))"

text \<open>One program after the other; a panic ends the test.\<close>

definition each :: "'a list \<Rightarrow> ('a \<Rightarrow> ('w, unit) prog) \<Rightarrow> ('w, unit) prog" where
  "each xs f = foldr (\<lambda>x m. bind (f x) (\<lambda>_. m)) xs (ret ())"

definition tag_test ::
  "('u, 'addr) setting \<Rightarrow> ('u, 'wk) env \<Rightarrow> 'c channel_ops \<Rightarrow> ('u, 'wk, 's, 'c) world executor \<Rightarrow>
   (('u, 'wk, 's, 'c) world, unit) prog" where
  "tag_test T E C X = each [0..<20] (\<lambda>i. spawn_thread E (tag_case T E C X (4 * 2 ^ i)))"

section \<open>\<^verbatim>\<open>rma::tests::put_get\<close>\<close>

definition assert_same :: "('u, 'addr) setting \<Rightarrow> slice \<Rightarrow> slice \<Rightarrow> (('u, 'wk, 's, 'c) world, unit) prog" where
  "assert_same T a b =
     bind (as_written (th T) a) (\<lambda>a'. bind (as_written (th T) b) (\<lambda>b'. assert_that (contents a' = contents b')))"

definition put_get ::
  "('u, 'addr) setting \<Rightarrow> ('u, 'wk) env \<Rightarrow> 'c channel_ops \<Rightarrow> ('u, 'wk, 's, 'c) world executor \<Rightarrow>
   (('u, 'wk, 's, 'c) world, nat list) prog" where
  "put_get T E C X =
     bind (connect_ends T E C X) (\<lambda>n.
     let buf1 = \<lparr>as_ptr = local_buf (th T) 2, contents = replicate 0x1000 0\<rparr>;
         buf2 = \<lparr>as_ptr = local_buf (th T) 3, contents = pattern 0x1000\<rparr> in
     bind (memory_register E (context1 n) buf1) (\<lambda>mem1.
     bind (memory_pack E mem1) (\<lambda>rkey_buf.
     bind (rkey_unpack E (endpoint2 n) (uninit (fst (rkey_buffer_as_ref rkey_buf)) (unat (snd (rkey_buffer_as_ref rkey_buf))))) (\<lambda>rkey2.
     bind (unwrapped (put E X (endpoint2 n) buf2 (as_ptr buf1) rkey2)) (\<lambda>_.
     bind (unwrapped (endpoint_flush E X (endpoint1 n))) (\<lambda>_.
     bind (unwrapped (endpoint_flush E X (endpoint2 n))) (\<lambda>_.
     bind (assert_same T buf1 buf2) (\<lambda>_.
     bind (modify (\<lambda>w. w\<lparr>lib := fill T (as_ptr buf1) (replicate 0x1000 0) (lib w)\<rparr>)) (\<lambda>_.
     bind (unwrapped (get E X (endpoint2 n) buf2 (as_ptr buf1) rkey2)) (\<lambda>_.
     bind (assert_same T buf1 buf2) (\<lambda>_.
     bind (closing_asserts E X (endpoint1 n) (endpoint2 n)) (\<lambda>_.
     bind (rkey_drop E rkey2) (\<lambda>_.
     bind (rkey_buffer_drop E rkey_buf) (\<lambda>_.
     bind (memory_drop E mem1) (\<lambda>_.
       leave_ends T E n)))))))))))))))"

definition put_get_test ::
  "('u, 'addr) setting \<Rightarrow> ('u, 'wk) env \<Rightarrow> 'c channel_ops \<Rightarrow> ('u, 'wk, 's, 'c) world executor \<Rightarrow>
   (('u, 'wk, 's, 'c) world, unit) prog" where
  "put_get_test T E C X = spawn_thread E (put_get T E C X)"

section \<open>\<^verbatim>\<open>am::tests::am\<close>\<close>

text \<open>The bytes that were received: for a rendezvous message the library has written them into the buffer.\<close>

definition as_received :: "('u, 'addr) setting \<Rightarrow> AmMsg \<Rightarrow> slice \<Rightarrow> (('u, 'wk, 's, 'c) world, slice) prog" where
  "as_received T m buf = (case msg_data (msg m) of Some (Rndv _) \<Rightarrow> as_written (th T) buf | _ \<Rightarrow> ret buf)"

definition am_sending ::
  "('u, 'addr) setting \<Rightarrow> ('u, 'wk) env \<Rightarrow> ('u, 'wk, 'q, 'n, 'c) full_world executor \<Rightarrow> ends \<Rightarrow> AmProto option \<Rightarrow>
   slice \<Rightarrow> slice \<Rightarrow> (('u, 'wk, 'q, 'n, 'c) full_world, unit) future" where
  "am_sending T E X n proto header data =
     am_send_future E (x_task X) (endpoint2 n) 16 header data True proto
       (\<lambda>result. sync (assert_that (\<not> isl result)) (\<lambda>_. Done ()))"

definition am_receiving ::
  "('u, 'addr) setting \<Rightarrow> ('u, 'wk) env \<Rightarrow> ('q, 'n) am_ops \<Rightarrow> ('u, 'wk, 'q, 'n, 'c) full_world executor \<Rightarrow> AmStream \<Rightarrow>
   slice \<Rightarrow> slice \<Rightarrow> (('u, 'wk, 'q, 'n, 'c) full_world, AmMsg) future" where
  "am_receiving T E A X stream1 header data =
     wait_msg_future A (x_task X) stream1 (\<lambda>received.
     sync (lift (unwrap_option received)) (\<lambda>m.
     sync (assert_that (msg_header (msg m) = contents header)) (\<lambda>_.
     sync (assert_that (contains_data m)) (\<lambda>_.
     sync (assert_that (data_len m = length (contents data))) (\<lambda>_.
     recv_single_future E (x_task X) m \<lparr>as_ptr = local_buf (th T) 4, contents = replicate (data_len m) 0\<rparr> (\<lambda>(res, iov, m').
     sync (lift (unwrap res)) (\<lambda>recv_len.
     sync (assert_that (slice_len data = recv_len)) (\<lambda>_.
     sync (as_received T m (hd iov)) (\<lambda>recv_data.
     sync (assert_that (contents data = contents recv_data)) (\<lambda>_.
     sync (assert_that (\<not> contains_data m')) (\<lambda>_. Done m')))))))))))"

definition replying ::
  "('u, 'wk) env \<Rightarrow> ('u, 'wk, 'q, 'n, 'c) full_world executor \<Rightarrow> AmMsg \<Rightarrow> AmProto option \<Rightarrow> slice \<Rightarrow> slice \<Rightarrow>
   (('u, 'wk, 'q, 'n, 'c) full_world, unit) future" where
  "replying E X m proto header data =
     reply_future E (x_task X) m 12 header data False proto
       (\<lambda>result. sync (assert_that (\<not> isl result)) (\<lambda>_. Done ()))"

definition reply_receiving ::
  "('u, 'addr) setting \<Rightarrow> ('u, 'wk) env \<Rightarrow> ('q, 'n) am_ops \<Rightarrow> ('u, 'wk, 'q, 'n, 'c) full_world executor \<Rightarrow> AmStream \<Rightarrow>
   slice \<Rightarrow> slice \<Rightarrow> (('u, 'wk, 'q, 'n, 'c) full_world, unit) future" where
  "reply_receiving T E A X stream2 header data =
     wait_msg_future A (x_task X) stream2 (\<lambda>received.
     sync (lift (unwrap_option received)) (\<lambda>reply.
     sync (assert_that (msg_header (msg reply) = contents header)) (\<lambda>_.
     sync (assert_that (contains_data reply)) (\<lambda>_.
     sync (assert_that (data_len reply = length (contents data))) (\<lambda>_.
     recv_data_future E (x_task X) reply (uninit (local_buf (th T) 7) (data_len reply)) (\<lambda>(res, reply').
     sync (lift (unwrap res)) (\<lambda>bytes.
     sync (as_received T reply \<lparr>as_ptr = local_buf (th T) 7, contents = bytes\<rparr>) (\<lambda>recv_data.
     sync (assert_that (contents data = contents recv_data)) (\<lambda>_.
     sync (assert_that (\<not> contains_data reply')) (\<lambda>_.
     sync (am_msg_drop E reply') (\<lambda>_. Done ())))))))))))"

definition am_case ::
  "('u, 'addr) setting \<Rightarrow> ('u, 'wk) env \<Rightarrow> ('q, 'n) am_ops \<Rightarrow> 'c channel_ops \<Rightarrow> ('u, 'wk, 'q, 'n, 'c) full_world executor \<Rightarrow>
   nat \<Rightarrow> AmProto option \<Rightarrow> (('u, 'wk, 'q, 'n, 'c) full_world, nat list) prog" where
  "am_case T E A C X data_size proto =
     bind (connect_ends T E C X) (\<lambda>n.
     bind (unwrapped (am_stream E A (worker1 n) 16)) (\<lambda>stream1.
     bind (unwrapped (am_stream E A (worker2 n) 12)) (\<lambda>stream2.
     let header = \<lparr>as_ptr = local_buf (th T) 2, contents = [1, 2, 3, 4]\<rparr>;
         data = \<lparr>as_ptr = local_buf (th T) 3, contents = replicate data_size 1\<rparr> in
     bind (join X (schedule T) (am_sending T E X n proto header data) (am_receiving T E A X stream1 header data)) (\<lambda>(_, m).
     let header = \<lparr>as_ptr = local_buf (th T) 5, contents = [1, 3, 9, 10]\<rparr>;
         data = \<lparr>as_ptr = local_buf (th T) 6, contents = replicate data_size 2\<rparr> in
     bind (join X (schedule T) (replying E X m proto header data) (reply_receiving T E A X stream2 header data)) (\<lambda>_.
     bind (closing_asserts E X (endpoint1 n) (endpoint2 n)) (\<lambda>_.
     bind (am_msg_drop E m) (\<lambda>_.
     bind (am_stream_drop stream2) (\<lambda>_.
     bind (am_stream_drop stream1) (\<lambda>_.
       leave_ends T E n)))))))))"

definition am_test ::
  "('u, 'addr) setting \<Rightarrow> ('u, 'wk) env \<Rightarrow> ('q, 'n) am_ops \<Rightarrow> 'c channel_ops \<Rightarrow> ('u, 'wk, 'q, 'n, 'c) full_world executor \<Rightarrow>
   (('u, 'wk, 'q, 'n, 'c) full_world, unit) prog" where
  "am_test T E A C X = each [0..<20] (\<lambda>shift. each [None, Some Proto_Eager, Some Proto_Rndv] (\<lambda>p.
     spawn_thread E (am_case T E A C X (4 * 2 ^ shift) p)))"

section \<open>Starting and leaving\<close>

definition plus_context :: "nat \<Rightarrow> refs \<Rightarrow> refs" where
  "plus_context c R = R\<lparr>r_contexts := inc c (r_contexts R)\<rparr>"

definition plus_worker :: "nat \<Rightarrow> refs \<Rightarrow> refs" where
  "plus_worker k R = R\<lparr>r_workers := inc k (r_workers R)\<rparr>"

definition plus_endpoint :: "Endpoint \<Rightarrow> refs \<Rightarrow> refs" where
  "plus_endpoint e R = R\<lparr>r_endpoints := inc (ep_inner e) (r_endpoints R)\<rparr>"

definition tasks_refs :: "refs \<Rightarrow> ends \<Rightarrow> refs" where
  "tasks_refs R n = plus_worker (worker2 n) (plus_worker (worker1 n) R)"

definition ends_refs :: "refs \<Rightarrow> ends \<Rightarrow> refs" where
  "ends_refs R n = plus_endpoint (endpoint2 n) (plus_endpoint (endpoint1 n) (plus_worker (worker2 n)
     (plus_context (context2 n) (plus_worker (worker1 n) (plus_context (context1 n) (tasks_refs R n))))))"

lemmas plus_defs = plus_context_def plus_worker_def plus_endpoint_def ends_refs_def tasks_refs_def

lemma ends_refs_held [simp]:
  "0 < r_contexts (ends_refs R n) (context1 n)" "0 < r_workers (ends_refs R n) (worker1 n)"
  "0 < r_workers (ends_refs R n) (worker2 n)"
  "0 < r_endpoints (ends_refs R n) (ep_inner (endpoint1 n))" "0 < r_endpoints (ends_refs R n) (ep_inner (endpoint2 n))"
  by (auto simp: plus_defs)

context ucx_library
begin

lemma future_unwrap:
  assumes "\<And>x. res = Ok x \<Longrightarrow> future_safe E F L Q (k x :: (('u, 'wk, 's, 'c) world, 'b) future) S"
  shows "future_safe E F L Q (sync (lift (unwrap res)) k) S"
  by (rule future_lift) (use assms in \<open>cases res; auto\<close>)+

lemma future_assert:
  assumes "b \<Longrightarrow> future_safe E F L Q (k () :: (('u, 'wk, 's, 'c) world, 'b) future) S"
  shows "future_safe E F L Q (sync (assert_that b) k) S"
  unfolding assert_that_def by (rule future_lift) (use assms in \<open>auto split: if_splits\<close>)

lemma safely_listen_port:
  fixes w :: "('u, 'wk, 'q, 'n, 'c) full_world"
  assumes "holds E R L w"
  shows "safely (listen_port T E l) w (\<lambda>_. holds E R L)"
  unfolding listen_port_def by (rule safely_bind [OF safely_queries(1) [OF assms]]) simp

abbreviation one_endpoint :: "Endpoint \<Rightarrow> refs \<Rightarrow> bool" where
  "one_endpoint e S \<equiv> S = no_refs\<lparr>r_endpoints := inc (ep_inner e) (r_endpoints no_refs)\<rparr>"

lemma future_accepting:
  assumes "0 < L (l_channel l)" "0 < r_workers F wk"
  shows "future_safe E F L one_endpoint (accepting T E C X wk l :: (('u, 'wk, 'q, 'n, 'c) full_world, Endpoint) future) no_refs"
  unfolding accepting_def
  by (rule future_next [where L = L and l = l, OF assms(1)], rule future_connecting, simp add: assms(2)) (rule future_unwrap, simp)+

lemma future_joining:
  assumes "0 < r_workers F wk"
  shows "future_safe E F L one_endpoint (connecting T E X wk addr :: (('u, 'wk, 'q, 'n, 'c) full_world, Endpoint) future) no_refs"
  unfolding connecting_def
  by (rule future_connecting, simp add: assms) (rule future_unwrap, simp)+

lemma connected_step:
  fixes w :: "('u, 'wk, 'q, 'n, 'c) full_world"
  assumes "steady E X" "holds E R L w" "0 < L (l_channel l)" "0 < r_workers R wk1" "0 < r_workers R wk2"
    and "\<And>(e1 :: Endpoint) (e2 :: Endpoint) v. holds E (R\<lparr>r_endpoints := inc (ep_inner e2) (inc (ep_inner e1) (r_endpoints R))\<rparr>) L v \<Longrightarrow> safely (f (e1, e2)) v Q"
  shows "safely (bind (join X turns (accepting T E C X wk1 l) (connecting T E X wk2 addr)) f) w Q"
proof (rule safely_bind [OF safely_join [OF assms(1,2) future_accepting [where L = L and l = l, OF assms(3,4)] future_joining [OF assms(5)]]], clarify)
  fix e1 e2 :: Endpoint and v :: "('u, 'wk, 'q, 'n, 'c) full_world"
  have "with_refs R (with_refs (no_refs\<lparr>r_endpoints := inc (ep_inner e1) (r_endpoints no_refs)\<rparr>)
      (no_refs\<lparr>r_endpoints := inc (ep_inner e2) (r_endpoints no_refs)\<rparr>))
      = R\<lparr>r_endpoints := inc (ep_inner e2) (inc (ep_inner e1) (r_endpoints R))\<rparr>" for e1 e2 :: Endpoint
    by (rule refs_ext) (auto simp: fun_eq_iff no_refs_def)
  moreover assume "holds E (with_refs R (with_refs (no_refs\<lparr>r_endpoints := inc (ep_inner e1) (r_endpoints no_refs)\<rparr>)
      (no_refs\<lparr>r_endpoints := inc (ep_inner e2) (r_endpoints no_refs)\<rparr>))) L v"
  ultimately show "safely (f (e1, e2)) v Q" using assms(6) by simp
qed

lemma parsed_step:
  assumes "holds E R L w" "\<And>a. holds E R L w \<Longrightarrow> safely (f a) w Q"
  shows "safely (bind (parsed H s) f) w Q"
  using assms by (simp add: safely_bind_iff)

lemma connect_ends_step:
  fixes w :: "('u, 'wk, 'q, 'n, 'c) full_world"
  assumes X: "steady E X" and w: "holds E R L w"
    and cont: "\<And>n v. holds E (ends_refs R n) (inc (l_channel (listener n)) L) v \<Longrightarrow> safely (f n) v Q"
  shows "safely (bind (connect_ends T E C X) f) w Q"
  unfolding connect_ends_def bind_assoc
  by (rule new_worker_step [OF w])
    (simp add: bind_assoc, (erule new_worker_step safely_bind [OF safely_worker_clone] listen_at_step
       safely_bind [OF safely_listen_port] parsed_step connected_step [OF X] | simp add: bind_assoc | rule cont, simp add: plus_defs)+)

end

definition with_tasks :: "refs \<Rightarrow> nat list \<Rightarrow> refs" where
  "with_tasks R tasks = R\<lparr>r_workers := (\<lambda>k. r_workers R k + count_list tasks k)\<rparr>"

lemma with_tasks_refs: "r_contexts S = r_contexts R \<Longrightarrow> (\<And>k. r_workers S k = r_workers R k + count_list tasks k) \<Longrightarrow>
    r_endpoints S = r_endpoints R \<Longrightarrow> r_streams S = r_streams R \<Longrightarrow> S = with_tasks R tasks"
  by (rule refs_ext) (simp_all add: with_tasks_def fun_eq_iff)

context ucx_library
begin

lemma safely_spawn_thread:
  fixes w :: "('u, 'wk, 'q, 'n, 'c) full_world"
  assumes "safely main w (\<lambda>tasks. holds E (with_tasks R tasks) L)"
  shows "safely (spawn_thread E main) w (\<lambda>_. holds E R L)"
  unfolding spawn_thread_def
proof (rule safely_bind [OF assms])
  fix tasks and v :: "('u, 'wk, 'q, 'n, 'c) full_world"
  assume "holds E (with_tasks R tasks) L v"
  then show "safely (foldr (\<lambda>wk m. bind (worker_drop E wk) (\<lambda>_. m)) tasks (ret ())) v (\<lambda>_. holds E R L)"
  proof (induction tasks arbitrary: v)
    case Nil
    then show ?case by (simp add: with_tasks_def)
  next
    case (Cons k tasks)
    have "(with_tasks R (k # tasks))\<lparr>r_workers := dec k (r_workers (with_tasks R (k # tasks)))\<rparr> = with_tasks R tasks"
      by (rule with_tasks_refs) (simp_all add: with_tasks_def)
    with safely_worker_drop [OF Cons.prems, of k]
    have "safely (worker_drop E k) v (\<lambda>_. holds E (with_tasks R tasks) L)" by (simp add: with_tasks_def)
    then have "safely (bind (worker_drop E k) (\<lambda>_. foldr (\<lambda>wk m. bind (worker_drop E wk) (\<lambda>_. m)) tasks (ret ()))) v (\<lambda>_. holds E R L)"
      by (rule safely_bind) (rule Cons.IH)
    then show ?case by simp
  qed
qed

lemma drop_steps:
  fixes w :: "('u, 'wk, 'q, 'n, 'c) full_world"
  shows "holds E (plus_context c R) L w \<Longrightarrow> (\<And>v. holds E R L v \<Longrightarrow> safely (f ()) v Q) \<Longrightarrow> safely (bind (context_drop E c) f) w Q"
    and "holds E (plus_worker k R) L w \<Longrightarrow> (\<And>v. holds E R L v \<Longrightarrow> safely (f ()) v Q) \<Longrightarrow> safely (bind (worker_drop E k) f) w Q"
    and "holds E (plus_endpoint e R) L w \<Longrightarrow> (\<And>v. holds E R L v \<Longrightarrow> safely (f ()) v Q) \<Longrightarrow> safely (bind (endpoint_drop E e) f) w Q"
    and "holds E R (inc (l_channel l) L) w \<Longrightarrow> (\<And>v. holds E R L v \<Longrightarrow> safely (f ()) v Q) \<Longrightarrow> safely (bind (listener_drop E l) f) w Q"
  by (erule safely_bind [OF safely_context_drop] safely_bind [OF safely_worker_drop] safely_bind [OF safely_endpoint_drop]
      safely_bind [OF safely_listener_drop]; simp add: plus_defs)+

lemma safely_leave_ends:
  fixes w :: "('u, 'wk, 'q, 'n, 'c) full_world"
  assumes w: "holds E (ends_refs R n) (inc (l_channel (listener n)) L) w"
  shows "safely (leave_ends T E n) w (\<lambda>tasks. holds E (with_tasks R tasks) L)"
proof -
  have "with_tasks R (if in_order T then [worker1 n, worker2 n] else [worker2 n, worker1 n]) = tasks_refs R n"
    by (rule with_tasks_refs [symmetric]) (simp_all add: plus_defs)
  then show ?thesis
    using w unfolding leave_ends_def ends_refs_def by - ((erule drop_steps)+, simp)
qed

lemma safely_each:
  assumes "\<And>x v. x \<in> set xs \<Longrightarrow> holds E R L v \<Longrightarrow> safely (f x) v (\<lambda>_. holds E R L)" "holds E R L w"
  shows "safely (each xs f) w (\<lambda>_. holds E R L)"
  using assms
proof (induction xs arbitrary: w)
  case Nil
  then show ?case by (simp add: each_def)
next
  case (Cons x xs)
  have "safely (bind (f x) (\<lambda>_. each xs f)) w (\<lambda>_. holds E R L)"
    by (rule safely_bind [OF Cons.prems(1)]) (use Cons in auto)
  then show ?case by (simp add: each_def)
qed

end

section \<open>The tests are safe\<close>

context ucx_library
begin

lemma one_task: "with_tasks R [k] = R\<lparr>r_workers := inc k (r_workers R)\<rparr>"
  by (rule with_tasks_refs [symmetric]) auto

lemma result_step:
  assumes "holds E R L w" "\<And>x. out = Ret x \<Longrightarrow> holds E R L w \<Longrightarrow> safely (f x) w Q" "\<And>x. out = Fault x \<Longrightarrow> \<not> memory_fault x"
  shows "safely (bind (lift out) f) w Q"
  using assms by (auto simp: safely_bind_iff safely_lift split: outcome.split)

lemma safely_accept_thread:
  fixes w :: "('u, 'wk, 'q, 'n, 'c) full_world"
  assumes X: "steady E X" and w: "holds E R L w"
  shows "safely (accept_thread T E C X can_send) w (\<lambda>tasks. holds E (with_tasks R tasks) L)"
  unfolding accept_thread_def
  by (rule start_worker_step [OF w])
    (simp, (erule listen_at_step safely_bind [OF safely_listen_port] result_step safely_bind [OF safely_listener_next [OF X]]
       safely_bind [OF safely_accept [OF X]] safely_bind [OF safely_leave_server [where R = R and L = L]] | simp add: one_task | (auto split: if_splits)[1])+)

lemma safely_connect_thread:
  fixes w :: "('u, 'wk, 'q, 'n, 'c) full_world"
  assumes X: "steady E X" and w: "holds E R L w"
  shows "safely (connect_thread T E X received) w (\<lambda>tasks. holds E (with_tasks R tasks) L)"
  unfolding connect_thread_def
  by (rule start_worker_step [OF w])
    (simp, (erule parsed_step result_step
       safely_bind [OF safely_connect [OF X]] safely_bind [OF safely_leave_client [where R = R]] | simp add: one_task | (auto split: option.splits)[1])+)

lemma future_tagging:
  assumes "0 < r_endpoints F (ep_inner (endpoint2 n))" "0 < r_workers F (worker1 n)" "tag_requests E"
  shows "future_safe E F L (\<lambda>_ S. S = no_refs) (tag_sending T E X n len :: (('u, 'wk, 's, 'c) world, unit) future) no_refs"
    and "future_safe E F L (\<lambda>_ S. S = no_refs) (tag_receiving T E X n len :: (('u, 'wk, 's, 'c) world, unit) future) no_refs"
  unfolding tag_sending_def tag_receiving_def
  by (rule future_sends, simp add: assms(1), rule future_unwrap, simp)
    (rule future_tag_recv, simp add: assms(2), rule assms(3), rule future_unwrap, simp)

lemma join_step:
  fixes w :: "('u, 'wk, 's, 'c) world"
  assumes "steady E X" "holds E F L w" "future_safe E F L (\<lambda>x S. S = no_refs \<and> P x) f no_refs"
    and "future_safe E F L (\<lambda>y S. S = no_refs \<and> P' y) g no_refs"
    and "\<And>x y v. P x \<Longrightarrow> P' y \<Longrightarrow> holds E F L v \<Longrightarrow> safely (k (x, y)) v Q"
  shows "safely (bind (join X turns f g) k) w Q"
  by (rule safely_bind [OF safely_join [OF assms(1-4)]]) (auto simp: assms(5))

lemma safely_tag_case:
  fixes w :: "('u, 'wk, 'q, 'n, 'c) full_world"
  assumes X: "steady E X" and tag: "tag_requests E" and w: "holds E R L w"
  shows "safely (tag_case T E C X len) w (\<lambda>tasks. holds E (with_tasks R tasks) L)"
  unfolding tag_case_def
proof (rule connect_ends_step [OF X w])
  fix n and v :: "('u, 'wk, 'q, 'n, 'c) full_world"
  assume v: "holds E (ends_refs R n) (inc (l_channel (listener n)) L) v"
  show "safely (bind (join X (schedule T) (tag_sending T E X n len) (tag_receiving T E X n len)) (\<lambda>_.
      bind (closing_asserts E X (endpoint1 n) (endpoint2 n)) (\<lambda>_. leave_ends T E n))) v (\<lambda>tasks. holds E (with_tasks R tasks) L)"
    by (rule join_step [where P = "\<lambda>_. True" and P' = "\<lambda>_. True", OF X v], simp add: future_tagging tag, simp add: future_tagging tag,
        rule safely_bind, erule safely_closing_asserts [OF X]) (simp_all add: safely_leave_ends)
qed

lemma safely_put_flush:
  fixes w :: "('u, 'wk, 's, 'c) world"
  assumes "steady E X" "holds E R L w" "0 < r_endpoints R (ep_inner e)"
  shows "safely (put E X e buf addr rkey) w (\<lambda>_. holds E R L)" "safely (endpoint_flush E X e) w (\<lambda>_. holds E R L)"
proof -
  have lib: "ucx_library E" by (rule ucx_library_axioms)
  show "safely (put E X e buf addr rkey) w (\<lambda>_. holds E R L)"
    by (rule put.safely_op [OF lib assms safely_from_ptr]) simp_all
  show "safely (endpoint_flush E X e) w (\<lambda>_. holds E R L)"
    by (rule flush.safely_op [OF lib assms safely_from_ptr]) simp_all
qed

lemmas put_get_steps = safely_bind [OF safely_unwrapped_const, OF safely_put_flush(1)]
  safely_bind [OF safely_unwrapped_const, OF safely_put_flush(2)] safely_bind [OF safely_unwrapped_const, OF safely_sends(3)]

lemma drop_memory_step:
  fixes w :: "('u, 'wk, 'q, 'n, 'c) full_world"
  shows "holds E (plus_context (mh_context m) R) L w \<Longrightarrow> (\<And>v. holds E R L v \<Longrightarrow> safely (f ()) v Q) \<Longrightarrow> safely (bind (memory_drop E m) f) w Q"
  by (erule safely_bind [OF safely_memory_drop]; simp add: plus_defs)

lemma register_plus_step:
  fixes w :: "('u, 'wk, 'q, 'n, 'c) full_world"
  shows "holds E R L w \<Longrightarrow> 0 < r_contexts R c \<Longrightarrow>
    (\<And>m v. holds E (plus_context (mh_context m) R) L v \<Longrightarrow> safely (f m) v Q) \<Longrightarrow> safely (bind (memory_register E c region) f) w Q"
  by (erule register_step) (auto simp: plus_context_def)

lemma plus_context_simps [simp]:
  "r_contexts (plus_context c R) c = Suc (r_contexts R c)" "r_workers (plus_context c R) = r_workers R"
  "r_endpoints (plus_context c R) = r_endpoints R"
  by (simp_all add: plus_context_def)

lemma assert_same_step:
  assumes "holds E R L w" "holds E R L w \<Longrightarrow> safely (f ()) w Q"
  shows "safely (bind (assert_same T a b) f) w Q"
  using assms by (simp add: assert_same_def safely_bind_iff)

lemma fill_step:
  assumes "holds E R L w" "\<And>v. holds E R L v \<Longrightarrow> safely (f ()) v Q"
  shows "safely (bind (modify (\<lambda>w. w\<lparr>lib := g (lib w)\<rparr>)) f) w Q"
  using assms(1) by (auto simp: safely_bind_iff holds_def channels_ok_def requests_ready_def maps_ok_def intro!: assms(2))

lemma safely_put_get:
  fixes w :: "('u, 'wk, 'q, 'n, 'c) full_world"
  assumes X: "steady E X" and w: "holds E R L w"
  shows "safely (put_get T E C X) w (\<lambda>tasks. holds E (with_tasks R tasks) L)"
  unfolding put_get_def Let_def
  by (rule connect_ends_step [OF X w])
    (erule register_plus_step, simp, (erule safely_bind [OF safely_memory_pack] safely_bind [OF safely_queries(3)] put_get_steps [OF X]
       assert_same_step fill_step safely_bind [OF safely_closing_asserts [OF X]] safely_bind [OF safely_queries(4)]
       safely_bind [OF safely_queries(5)] drop_memory_step safely_leave_ends | simp)+)

end

definition plus_stream :: "AmStream \<Rightarrow> refs \<Rightarrow> refs" where
  "plus_stream s R = R\<lparr>r_streams := inc (s_inner s) (r_streams R)\<rparr>"

lemma plus_stream_simps [simp]:
  "0 < r_streams (plus_stream s R) (s_inner s)" "0 < r_streams R a \<Longrightarrow> 0 < r_streams (plus_stream s R) a"
  "r_workers (plus_stream s R) = r_workers R" "r_endpoints (plus_stream s R) = r_endpoints R"
  by (simp_all add: plus_stream_def)

context ucx_library
begin

lemma stream_steps:
  fixes w :: "('u, 'wk, 'q, 'n, 'c) full_world"
  shows "holds E R L w \<Longrightarrow> 0 < r_workers R k \<Longrightarrow> (\<And>s v. s_worker s = k \<Longrightarrow> holds E (plus_stream s R) L v \<Longrightarrow> safely (f s) v Q) \<Longrightarrow>
      safely (bind (unwrapped (am_stream E A k i)) f) w Q"
    and "holds E (plus_stream s R) L w \<Longrightarrow> (\<And>v. holds E R L v \<Longrightarrow> safely (g ()) v Q) \<Longrightarrow> safely (bind (am_stream_drop s) g) w Q"
  by (erule safely_bind [OF safely_am_stream]; auto simp: plus_stream_def)
    (erule safely_bind [OF safely_stream_drop]; simp add: plus_stream_def)

lemma future_as_received:
  assumes "\<And>buf'. future_safe E F L Q (k buf' :: (('u, 'wk, 's, 'c) world, 'b) future) S"
  shows "future_safe E F L Q (sync (as_received T m buf) k) S"
  by (rule future_sync [where S' = "\<lambda>_. S" and G = "\<lambda>_. True"])
    (use assms in \<open>auto simp: as_received_def split: option.split AmData.split\<close>)

lemma future_msg_drop:
  assumes "0 < r_workers (with_refs F S) (m_worker m)" "future_safe E F L Q (k () :: (('u, 'wk, 'q, 'n, 'c) full_world, 'b) future) S"
  shows "future_safe E F L Q (sync (am_msg_drop E m) k) S"
proof (rule future_sync [where S' = "\<lambda>_. S" and G = "\<lambda>_. True"])
  fix T and w :: "('u, 'wk, 'q, 'n, 'c) full_world" assume w: "holds E (with_refs F (with_refs S T)) L w"
  show "safely (am_msg_drop E m) w (\<lambda>_ v. holds E (with_refs F (with_refs S T)) L v \<and> True)"
    by (rule safely_mono [OF safely_msg_drop [OF w]]) (use assms(1) in auto)
qed (use assms(2) in simp)

lemma future_am_sending:
  assumes "0 < r_endpoints F (ep_inner (endpoint2 n))"
  shows "future_safe E F L (\<lambda>_ S. S = no_refs \<and> True) (am_sending T E X n proto header data :: (('u, 'wk, 'q, 'n, 'c) full_world, unit) future) no_refs"
  unfolding am_sending_def
  by (rule future_am_send, simp add: assms, rule future_assert, simp)

lemma future_am_receiving:
  assumes "0 < r_streams F (s_inner s)" "0 < r_workers F (s_worker s)"
  shows "future_safe E F L (\<lambda>m S. S = no_refs \<and> m_worker m = s_worker s)
    (am_receiving T E A X s header data :: (('u, 'wk, 'q, 'n, 'c) full_world, AmMsg) future) no_refs"
  unfolding am_receiving_def
proof (rule future_wait_msg, simp add: assms(1), rule future_lift)
  fix received and m :: AmMsg assume "\<forall>m'. received = Some m' \<longrightarrow> m_worker m' = s_worker s" "unwrap_option received = Ret m"
  then have m: "m_worker m = s_worker s" by (cases received) auto
  let ?Q = "\<lambda>m S. S = no_refs \<and> m_worker m = s_worker s"
  let ?rest = "\<lambda>(res, iov, m').
     sync (lift (unwrap res)) (\<lambda>recv_len.
     sync (assert_that (slice_len data = recv_len)) (\<lambda>_.
     sync (as_received T m (hd iov)) (\<lambda>recv_data.
     sync (assert_that (contents data = contents recv_data)) (\<lambda>_.
     sync (assert_that (\<not> contains_data m')) (\<lambda>_. Done m')))))"
  have rest: "future_safe E F L ?Q (?rest (res, iov, m')) no_refs" if "m_worker m' = m_worker m" for res iov m'
    unfolding prod.case by (rule future_unwrap future_assert future_as_received)+ (simp add: that m)
  show "future_safe E F L ?Q (sync (assert_that (msg_header (msg m) = contents header)) (\<lambda>_.
     sync (assert_that (contains_data m)) (\<lambda>_.
     sync (assert_that (data_len m = length (contents data))) (\<lambda>_.
     recv_single_future E (x_task X) m \<lparr>as_ptr = local_buf (th T) 4, contents = replicate (data_len m) 0\<rparr> ?rest)))) no_refs"
    by (rule future_assert)+ (rule future_recv_single, simp add: m assms(2), erule rest)
qed (auto elim!: unwrap_option.elims)

lemma future_replying:
  "future_safe E F L (\<lambda>_ S. S = no_refs \<and> True) (replying E X m proto header data :: (('u, 'wk, 'q, 'n, 'c) full_world, unit) future) no_refs"
  unfolding replying_def by (rule future_reply, rule future_assert, simp)

lemma future_reply_receiving:
  assumes "0 < r_streams F (s_inner s)" "0 < r_workers F (s_worker s)"
  shows "future_safe E F L (\<lambda>_ S. S = no_refs \<and> True)
    (reply_receiving T E A X s header data :: (('u, 'wk, 'q, 'n, 'c) full_world, unit) future) no_refs"
  unfolding reply_receiving_def
proof (rule future_wait_msg, simp add: assms(1), rule future_lift)
  fix received and m :: AmMsg assume "\<forall>m'. received = Some m' \<longrightarrow> m_worker m' = s_worker s" "unwrap_option received = Ret m"
  then have m: "m_worker m = s_worker s" by (cases received) auto
  let ?Q = "\<lambda>_ S. S = no_refs \<and> True"
  let ?rest = "\<lambda>(res, m').
     sync (lift (unwrap res)) (\<lambda>bytes.
     sync (as_received T m \<lparr>as_ptr = local_buf (th T) 7, contents = bytes\<rparr>) (\<lambda>recv_data.
     sync (assert_that (contents data = contents recv_data)) (\<lambda>_.
     sync (assert_that (\<not> contains_data m')) (\<lambda>_.
     sync (am_msg_drop E m') (\<lambda>_. Done () :: (('u, 'wk, 'q, 'n, 'c) full_world, unit) future)))))"
  have rest: "future_safe E F L ?Q (?rest (res, m')) no_refs" if "m_worker m' = m_worker m" for res m'
    unfolding prod.case by (rule future_unwrap future_assert future_as_received future_msg_drop)+ (simp_all add: that m assms(2))
  show "future_safe E F L ?Q (sync (assert_that (msg_header (msg m) = contents header)) (\<lambda>_.
     sync (assert_that (contains_data m)) (\<lambda>_.
     sync (assert_that (data_len m = length (contents data))) (\<lambda>_.
     recv_data_future E (x_task X) m (uninit (local_buf (th T) 7) (data_len m)) ?rest)))) no_refs"
    by (rule future_assert)+ (rule future_recv_data, simp add: m assms(2), erule rest)
qed (auto elim!: unwrap_option.elims)

lemma safely_am_case:
  fixes w :: "('u, 'wk, 'q, 'n, 'c) full_world"
  assumes X: "steady E X" and w: "holds E R L w"
  shows "safely (am_case T E A C X len proto) w (\<lambda>tasks. holds E (with_tasks R tasks) L)"
  unfolding am_case_def Let_def
  by (rule connect_ends_step [OF X w], erule stream_steps(1), simp, erule stream_steps(1), simp,
      erule join_step [OF X _ future_am_sending future_am_receiving], simp, simp, simp, simp,
      erule join_step [OF X _ future_replying future_reply_receiving], simp, simp,
      erule safely_bind [OF safely_closing_asserts [OF X]], simp, simp,
      erule safely_bind [OF safely_msg_drop], simp, erule stream_steps(2), erule stream_steps(2), erule safely_leave_ends)

end

text \<open>The tests; of the test of the listener, either thread, with what the other sends it.\<close>

datatype unit_test = Accept_test bool | Connect_test "u16 option" | Tag_test | Put_get_test | Am_test

fun run_test ::
  "unit_test \<Rightarrow> ('u, 'addr) setting \<Rightarrow> ('u, 'wk) env \<Rightarrow> ('q, 'n) am_ops \<Rightarrow> 'c channel_ops \<Rightarrow>
   ('u, 'wk, 'q, 'n, 'c) full_world executor \<Rightarrow> (('u, 'wk, 'q, 'n, 'c) full_world, unit) prog" where
  "run_test (Accept_test can_send) T E A C X = spawn_thread E (accept_thread T E C X can_send)"
| "run_test (Connect_test received) T E A C X = spawn_thread E (connect_thread T E X received)"
| "run_test Tag_test T E A C X = tag_test T E C X"
| "run_test Put_get_test T E A C X = put_get_test T E C X"
| "run_test Am_test T E A C X = am_test T E A C X"

context ucx_library
begin

lemma safely_test_program:
  fixes w :: "('u, 'wk, 'q, 'n, 'c) full_world"
  assumes X: "steady E X" and tag: "tag_requests E" and w: "holds E R L w"
  shows "safely (run_test t T E A C X) w (\<lambda>_. holds E R L)"
proof (cases t)
  case (Accept_test can_send)
  then show ?thesis using safely_spawn_thread [OF safely_accept_thread [OF X w]] by simp
next
  case (Connect_test received)
  then show ?thesis using safely_spawn_thread [OF safely_connect_thread [OF X w]] by simp
next
  case Tag_test
  then show ?thesis
    using safely_each [OF safely_spawn_thread [OF safely_tag_case [OF X tag]] w] by (simp add: tag_test_def)
next
  case Put_get_test
  then show ?thesis using safely_spawn_thread [OF safely_put_get [OF X w]] by (simp add: put_get_test_def)
next
  case Am_test
  then show ?thesis
    using safely_each [OF safely_each [OF safely_spawn_thread [OF safely_am_case [OF X]]] w] by (simp add: am_test_def)
qed

end

lemma bind_return: "bind m ret = m"
  by (simp add: bind_def ret_def fun_eq_iff split: prod.split outcome.split)

context smooth_library
begin

lemma connect_thread_smooth:
  fixes w :: "('u, 'wk, 's, 'c) world"
  assumes "nothing_yet w" "parse_socket (th T) ''127.0.0.1:0'' = Some a"
  shows "does (spawn_thread E (connect_thread T E X (Some port))) w (\<lambda>_ v. all_gone v \<and>
    (\<exists>cs. session_calls E (th T) (set_port port a) (\<lambda>ctx ep d. d = []) cs \<and> calls v = calls w @ cs))"
proof -
  let ?H = "(th T)\<lparr>parse_socket := (\<lambda>_. Some (set_port port a))\<rparr>"
  have start: "start_worker (th T) E = start_worker ?H E"
    by (simp add: start_worker_def new_worker_def)
  have "spawn_thread E (connect_thread T E X (Some port)) =
      bind (bind (start_worker ?H E) (\<lambda>(ctx, wk). bind (connect_to ?H E X wk []) (\<lambda>e. leave_client E e wk ctx))) (worker_drop E)"
    unfolding spawn_thread_def connect_thread_def bind_assoc start
    by (rule arg_cong [where f = "bind (start_worker ?H E)"])
      (simp add: fun_eq_iff assms(2) connect_to_def parsed_def bind_assoc bind_return split: prod.split)
  moreover have "session_calls E ?H = session_calls E (th T)"
    by (simp add: session_calls_def fun_eq_iff)
  moreover have "does (bind (bind (start_worker ?H E) (\<lambda>(ctx, wk). bind (connect_to ?H E X wk []) (\<lambda>e. leave_client E e wk ctx))) (worker_drop E)) w
    (\<lambda>_ v. all_gone v \<and> (\<exists>cs. session_calls E ?H (set_port port a) (\<lambda>ctx ep d. d = []) cs \<and> calls v = calls w @ cs))"
    by (rule client_session [OF assms(1)], simp) (erule leave_at_work, assumption, simp)
  ultimately show ?thesis by simp
qed

end

text \<open>The port that is in the bytes of a socket address.\<close>

definition get_port :: "u8 list \<Rightarrow> u16" where
  "get_port addr = push_bit 8 (ucast (addr ! 2)) OR ucast (addr ! 3)"

lemma bytes_of_port: "push_bit 8 (ucast (ucast (drop_bit 8 port) :: u8)) OR ucast (ucast port :: u8) = (port :: u16)"
proof (rule bit_word_eqI)
  fix m assume "m < LENGTH(16)"
  then show "bit (push_bit 8 (ucast (ucast (drop_bit 8 port) :: u8)) OR ucast (ucast port :: u8) :: u16) m = bit port m"
    by (cases "m < 8") (auto simp: bit_simps)
qed

lemma get_set_port:
  assumes "4 \<le> length addr"
  shows "get_port (set_port port addr) = port" "length (set_port port addr) = length addr"
    and "i \<noteq> 2 \<Longrightarrow> i \<noteq> 3 \<Longrightarrow> i < length addr \<Longrightarrow> set_port port addr ! i = addr ! i"
proof -
  have len: "length (take 2 addr) = 2" using assms by simp
  show "get_port (set_port port addr) = port"
    using len bytes_of_port [of port] by (simp add: get_port_def set_port_def nth_append)
  show "length (set_port port addr) = length addr" using assms by (simp add: set_port_def)
  show "set_port port addr ! i = addr ! i" if i: "i \<noteq> 2" "i \<noteq> 3" "i < length addr"
  proof (cases "i < 2")
    case True
    then show ?thesis using len by (simp add: set_port_def nth_append)
  next
    case False
    then have "4 \<le> i" using i by linarith
    then obtain j where "i = 4 + j" using le_Suc_ex by blast
    with assms i(3) show ?thesis by (simp add: set_port_def nth_append)
  qed
qed

section \<open>Properties\<close>


definition sample_setting :: "(unit, unit) setting" where
  "sample_setting = \<lparr>th = sample_host, port_of = (\<lambda>_. 80), fill = (\<lambda>_ _ u. u), schedule = (\<lambda>_. [True, False]), in_order = True\<rparr>"

lemma sample_parses: "parse_socket (th sample_setting) ''127.0.0.1:0'' = Some (bytes_of ''127.0.0.1:0'')"
  by (simp add: sample_setting_def sample_host_def)


text \<open>
  C17. The second thread of the test \<^verbatim>\<open>accept\<close>, when every call succeeds at once: with the port that it received it connects to
  exactly that port of the parsed address, exchanges the first message, and leaves nothing behind. Without a port
  (the other thread has panicked) it panics, before it has called the library for a connection.
\<close>

theorem connect_thread_completes:
  fixes w :: "('u, 'wk, 's, 'c) world"
  assumes "smooth_library E" "nothing_yet w" "parse_socket (th T) ''127.0.0.1:0'' = Some a" "4 \<le> length a"
  shows "(\<exists>v cs. spawn_thread E (connect_thread T E X (Some port)) w = (Ret (), v) \<and> all_gone v \<and> calls v = calls w @ cs
      \<and> session_calls E (th T) (set_port port a) (\<lambda>_ _ d. d = []) cs)
    \<and> get_port (set_port port a) = port \<and> length (set_port port a) = length a
    \<and> (\<forall>i < length a. i \<noteq> 2 \<and> i \<noteq> 3 \<longrightarrow> set_port port a ! i = a ! i)
    \<and> (\<exists>v cfg ctx. spawn_thread E (connect_thread T E X None) w = (Fault (Panic Unwrap_on_err), v)
      \<and> calls v = calls w @ startup_calls E (am_feature (th T)) cfg ctx)"
proof -
  have "\<exists>v cfg ctx. spawn_thread E (connect_thread T E X None) w = (Fault (Panic Unwrap_on_err), v)
      \<and> calls v = calls w @ startup_calls E (am_feature (th T)) cfg ctx"
    using smooth_library.start_smooth [OF assms(1,2), of "th T"] assms(3)
    by (fastforce simp: does_def spawn_thread_def connect_thread_def parsed_def bind_def lift_def ret_def)
  then show ?thesis
    using smooth_library.connect_thread_smooth [OF assms(1-3), of X port] get_set_port [where port = port, OF assms(4)]
    by (simp add: does_def) blast
qed

theorem connect_thread_completes_witness:
  "\<exists>v. spawn_thread (ideal_env Debug 0) (connect_thread sample_setting (ideal_env Debug 0) \<lparr>x_task = 1, x_others = (\<lambda>w. w), x_polls = 1\<rparr> (Some 8080))
     first_world = (Ret (), v) \<and> all_gone v \<and> get_port (set_port 8080 (bytes_of ''127.0.0.1:0'')) = 8080"
proof -
  have "nothing_yet first_world" "4 \<le> length (bytes_of ''127.0.0.1:0'')"
    by (simp_all add: nothing_yet_def first_world_def)
  from connect_thread_completes [OF ideal.smooth_library_axioms [of Debug 0] this(1) sample_parses this(2), of
      "\<lparr>x_task = 1, x_others = (\<lambda>w. w), x_polls = 1\<rparr>" 8080]
  show ?thesis by blast
qed

end
