(* ===== verification/Bench.thy ===== *)
theory Bench
  imports Sessions
begin

text \<open>
  \<^verbatim>\<open>examples/bench.rs\<close>: a client that sends messages without end, and a server that accepts connections
  without end, each with a number, a tag and a task of its own.
\<close>

section \<open>What the benchmarks share\<close>

text \<open>
  \<^verbatim>\<open>Iterator::next\<close> of a range \<open>start..\<close> of machine integers: it computes the successor first, which overflows
  (a panic in a checked build) in the call that hands out the largest value.
\<close>

definition range_next :: "profile \<Rightarrow> 'a::len word \<Rightarrow> ('a word \<times> 'a word) outcome" where
  "range_next p start =
     (if p = Debug \<and> start = - 1 then Fault (Panic Arithmetic_overflow) else Ret (start, start + 1))"

section \<open>\<^verbatim>\<open>examples/bench.rs\<close>: the client\<close>

text \<open>The tag of a connection, from the number that the server has given it.\<close>

definition bench_tag :: "u8 \<Rightarrow> u64" where
  "bench_tag i = ucast i + 200"

text \<open>The endless loop, observed for a number of rounds: a message, then the answer of one byte.\<close>

fun bench_rounds ::
  "('u, 'addr) host \<Rightarrow> ('u, 'wk) env \<Rightarrow> ('u, 'wk, 's, 'c) world executor \<Rightarrow> Endpoint \<Rightarrow> u64 \<Rightarrow> slice \<Rightarrow> nat \<Rightarrow>
   (('u, 'wk, 's, 'c) world, unit) prog" where
  "bench_rounds H E X endpoint tag long_msg 0 = lift Unfinished"
| "bench_rounds H E X endpoint tag long_msg (Suc n) =
     bind (unwrapped (tag_send E X endpoint tag long_msg)) (\<lambda>_.
     bind (endpoint_worker endpoint) (\<lambda>wk.
     bind (unwrapped (tag_recv E X wk tag (uninit (local_buf H 3) 1))) (\<lambda>_.
       bench_rounds H E X endpoint tag long_msg n)))"

definition bench_client ::
  "('u, 'addr) host \<Rightarrow> ('u, 'wk) env \<Rightarrow> ('u, 'wk, 's, 'c) world executor \<Rightarrow> string \<Rightarrow> nat \<Rightarrow>
   (('u, 'wk, 's, 'c) world, unit) prog" where
  "bench_client H E X server_addr rounds =
     bind (start_worker H E) (\<lambda>(ctx, wk).
     bind (connect_to H E X wk server_addr) (\<lambda>endpoint.
     bind (endpoint_print E endpoint) (\<lambda>_.
     bind (endpoint_worker endpoint) (\<lambda>wk.
     bind (unwrapped (tag_recv E X wk 100 (uninit (local_buf H 1) 1))) (\<lambda>_.
     bind (read_bytes H (local_buf H 1) 1) (\<lambda>id.
       bench_rounds H E X endpoint (bench_tag (hd id))
         \<lparr>as_ptr = local_buf H 2, contents = pattern 47008\<rparr> rounds))))))"

section \<open>\<^verbatim>\<open>examples/bench.rs\<close>: the server\<close>

text \<open>The world, the spawned tasks (an endpoint and a tag each), and the counter \<^verbatim>\<open>COUNT\<close>.\<close>

record 'w bench =
  in_world :: 'w
  echo_tasks :: "(Endpoint \<times> u64) list"
  COUNT :: usize

definition world_step :: "('w, 'a) prog \<Rightarrow> ('w bench, 'a) prog" where
  "world_step m p = (case m (in_world p) of (r, w) \<Rightarrow> (r, p\<lparr>in_world := w\<rparr>))"

text \<open>One round of a spawned task; \<^verbatim>\<open>fetch_add\<close> wraps.\<close>

definition echo_round ::
  "('u, 'addr) host \<Rightarrow> ('u, 'wk) env \<Rightarrow> ('u, 'wk, 's, 'c) world executor \<Rightarrow> Endpoint \<Rightarrow> u64 \<Rightarrow>
   (('u, 'wk, 's, 'c) world bench, unit) prog" where
  "echo_round H E X ep tag =
     bind (world_step (
       bind (endpoint_worker ep) (\<lambda>wk.
       bind (unwrapped (tag_recv E X wk tag (uninit (local_buf H 2) 50000))) (\<lambda>_.
         unwrapped (tag_send E X ep tag \<lparr>as_ptr = local_buf H 3, contents = [0]\<rparr>))))) (\<lambda>_.
     modify (\<lambda>p. p\<lparr>COUNT := COUNT p + 1\<rparr>))"

text \<open>What the reporting task prints every second: \<^verbatim>\<open>COUNT.swap(0)\<close>.\<close>

definition report_count :: "('w bench, usize) prog" where
  "report_count p = (Ret (COUNT p), p\<lparr>COUNT := 0\<rparr>)"

text \<open>A connection is accepted and told its number.\<close>

definition serve_connection ::
  "('u, 'addr) host \<Rightarrow> ('u, 'wk) env \<Rightarrow> 'c channel_ops \<Rightarrow> ('u, 'wk, 's, 'c) world executor \<Rightarrow> nat \<Rightarrow> Listener \<Rightarrow> u8 \<Rightarrow>
   (('u, 'wk, 's, 'c) world, Endpoint) prog" where
  "serve_connection H E C X wk listener i =
     bind (listener_next C (x_others X) listener (x_polls X)) (\<lambda>conn.
     bind (unwrapped (remote_addr E (as_socket H) conn)) (\<lambda>_.
     bind (unwrapped (worker_accept E X wk conn (uninit (local_buf H 0) 4))) (\<lambda>ep.
     bind (unwrapped (tag_send E X ep 100 \<lparr>as_ptr = local_buf H 1, contents = [i]\<rparr>)) (\<lambda>_. ret ep))))"

text \<open>The loop \<^verbatim>\<open>for i in 0u8..\<close>, observed for a number of connections.\<close>

fun accept_rounds ::
  "('u, 'addr) host \<Rightarrow> ('u, 'wk) env \<Rightarrow> 'c channel_ops \<Rightarrow> ('u, 'wk, 's, 'c) world executor \<Rightarrow> nat \<Rightarrow> Listener \<Rightarrow>
   u8 \<Rightarrow> nat \<Rightarrow> (('u, 'wk, 's, 'c) world bench, unit) prog" where
  "accept_rounds H E C X wk listener start 0 = lift Unfinished"
| "accept_rounds H E C X wk listener start (Suc n) =
     bind (lift (range_next (prof E) start)) (\<lambda>(i, start').
     bind (world_step (serve_connection H E C X wk listener i)) (\<lambda>ep.
     bind (modify (\<lambda>p. p\<lparr>echo_tasks := echo_tasks p @ [(ep, bench_tag i)]\<rparr>)) (\<lambda>_.
       accept_rounds H E C X wk listener start' n)))"

definition bench_server ::
  "('u, 'addr) host \<Rightarrow> ('u, 'wk) env \<Rightarrow> 'c channel_ops \<Rightarrow> ('u, 'wk, 's, 'c) world executor \<Rightarrow> nat \<Rightarrow>
   (('u, 'wk, 's, 'c) world bench, unit) prog" where
  "bench_server H E C X connections =
     bind (world_step (start_worker H E)) (\<lambda>(ctx, wk).
     bind (world_step (listen_at H E C wk ''0.0.0.0:10000'')) (\<lambda>listener.
     bind (world_step (unwrapped (listener_socket_addr E (as_socket H) listener))) (\<lambda>_.
       accept_rounds H E C X wk listener 0 connections)))"

section \<open>Properties of \<^verbatim>\<open>bench.rs\<close>\<close>

lemma world_step_keeps [simp]: "world_step m p = (r, p') \<Longrightarrow> echo_tasks p' = echo_tasks p \<and> COUNT p' = COUNT p"
  by (auto simp: world_step_def split: prod.splits)

lemma range_next_cases:
  obtains "p = Debug" "start = - 1" "range_next p start = Fault (Panic Arithmetic_overflow)"
  | "p = Release \<or> start \<noteq> - 1" "range_next p start = Ret (start, start + 1)"
  by (cases p) (auto simp: range_next_def)

lemma unat_u8: "unat (i :: u8) \<le> 255"
  using unsigned_less [of i, where 'a = nat] by simp

lemma unat_minus_one: "start = (- 1 :: u8) \<longleftrightarrow> unat start = 255"
proof -
  have "unat (- 1 :: u8) = 255" by (simp add: unat_eq_nat_uint mask_eq_exp_minus_1 unsigned_minus_1_eq_mask)
  then show ?thesis by (metis word_unat_eq_iff)
qed

text \<open>What a run of the loop adds to the tasks.\<close>

lemma accept_rounds_tasks:
  assumes "accept_rounds H E C X wk listener start n p = (r, p')"
  shows "\<exists>new. echo_tasks p' = echo_tasks p @ new
    \<and> map snd new = map (\<lambda>k. bench_tag (start + word_of_nat k)) [0..<length new] \<and> length new \<le> n
    \<and> (\<forall>x. r \<noteq> Ret x)
    \<and> (prof E = Debug \<longrightarrow> unat start + length new \<le> 255
       \<and> (unat start + length new = 255 \<and> length new < n \<longrightarrow> r = Fault (Panic Arithmetic_overflow)))"
  using assms
proof (induction n arbitrary: start p)
  case 0
  then show ?case
    using unat_u8 [of start] by (intro exI [of _ "[]"]) (auto simp: lift_def)
next
  case (Suc n)
  have bound: "unat start \<le> 255" by (rule unat_u8)
  show ?case
  proof (cases rule: range_next_cases [where p = "prof E" and start = start])
    case 1
    with Suc.prems have "r = Fault (Panic Arithmetic_overflow)" "p' = p"
      by (auto simp: bind_def lift_def)
    with bound 1(2) show ?thesis
      by (intro exI [of _ "[]"]) (auto simp: unat_minus_one)
  next
    case 2
    obtain s q where serve: "world_step (serve_connection H E C X wk listener start) p = (s, q)" by fastforce
    from world_step_keeps [OF this] have q: "echo_tasks q = echo_tasks p" by simp
    show ?thesis
    proof (cases s)
      case (Ret ep)
      let ?q = "q\<lparr>echo_tasks := echo_tasks q @ [(ep, bench_tag start)]\<rparr>"
      have "accept_rounds H E C X wk listener (start + 1) n ?q = (r, p')"
        using Suc.prems 2(2) serve Ret by (simp add: bind_def [of "world_step _"] bind_def [of "modify _"] modify_def)
      from Suc.IH [OF this] obtain new where new: "echo_tasks p' = echo_tasks ?q @ new"
        "map snd new = map (\<lambda>k. bench_tag (start + 1 + word_of_nat k)) [0..<length new]" "length new \<le> n" "\<forall>x. r \<noteq> Ret x"
        "prof E = Debug \<longrightarrow> unat (start + 1) + length new \<le> 255
         \<and> (unat (start + 1) + length new = 255 \<and> length new < n \<longrightarrow> r = Fault (Panic Arithmetic_overflow))"
        by blast
      have succ: "unat (start + 1) = Suc (unat start)" if "prof E = Debug"
        using 2(1) that bound unat_minus_one [of start] by (auto simp: unat_word_ariths)
      have "map snd ((ep, bench_tag start) # new) = map (\<lambda>k. bench_tag (start + word_of_nat k)) [0..<Suc (length new)]"
        using new(2) by (simp add: upt_conv_Cons map_Suc_upt [symmetric] ac_simps del: upt_Suc)
      with new succ q show ?thesis
        by (intro exI [of _ "(ep, bench_tag start) # new"]) auto
    qed (use Suc.prems 2 serve q bound in \<open>auto simp: bind_def unat_minus_one intro!: exI [of _ "[]"]\<close>)
  qed
qed

lemma bench_tag_of: "bench_tag (word_of_nat k) = 200 + word_of_nat (k mod 256)"
proof -
  have "ucast (word_of_nat k :: u8) = (word_of_nat (k mod 256) :: u64)"
      by (simp add: unsigned_of_nat take_bit_eq_mod)
  then show ?thesis by (simp add: bench_tag_def)
qed

text \<open>
  What the tasks of the server are at any time, for any library: the k-th connection has the tag
  200 + k mod 256; a checked build has at most 255, and panics when it would look at the next one.
\<close>

lemma bench_tags:
  assumes "accept_rounds H E C X wk l 0 n p = (r, p')" "echo_tasks p = []"
  shows "map snd (echo_tasks p') = map (\<lambda>k. 200 + word_of_nat (k mod 256)) [0..<length (echo_tasks p')]
    \<and> length (echo_tasks p') \<le> n \<and> (\<forall>x. r \<noteq> Ret x)
    \<and> (prof E = Debug \<longrightarrow> length (echo_tasks p') \<le> 255
       \<and> (length (echo_tasks p') = 255 \<and> 255 < n \<longrightarrow> r = Fault (Panic Arithmetic_overflow)))"
  using accept_rounds_tasks [OF assms(1)] assms(2) by (auto simp: bench_tag_of)

lemma does_both: "does m w P \<Longrightarrow> safely m w Q \<Longrightarrow> does m w (\<lambda>x v. P x v \<and> Q x v)"
  by (auto simp: does_def safely_def)

text \<open>A listener with the connections \<open>cs\<close> waiting in its channel.\<close>

definition waiting :: "('c \<Rightarrow> ConnectionRequest list) \<Rightarrow> Listener \<Rightarrow> ConnectionRequest list \<Rightarrow> ('u, 'wk, 's, 'c) world \<Rightarrow> bool" where
  "waiting sent l cs w \<longleftrightarrow> (\<exists>b. cells (channels w) (l_channel l) = Some b \<and> 0 < strong b \<and> sent (val b) = cs)"

lemma waiting_call [simp]: "waiting sent l cs (after_call E c w) = waiting sent l cs w"
  by (simp add: waiting_def after_call_def)

lemma kept_waiting: "(\<And>ch. keeps (\<lambda>w. channels w = ch) m) \<Longrightarrow> keeps (waiting sent l cs) m"
  by (auto simp: keeps_def waiting_def)

lemma status_call: "get_status E e w = (Ret (Ok ()), w) \<Longrightarrow> get_status E e (after_call E c w) = (Ret (Ok ()), after_call E c w)"
  by (auto simp: get_status_def inner_check_def bind_def on_inners_def rc_get_def lift_def after_call_def
      split: option.splits outcome.splits if_splits)

context smooth_library
begin

lemma endpoint_create_smooth:
  assumes "does (endpoint_create E k params) w (\<lambda>_ _. True)"
  shows "does (endpoint_create E k params) w (\<lambda>res _. \<exists>e. res = Ok e)"
proof -
  obtain res v where run: "endpoint_create E k params w = (Ret res, v)" using assms by (auto simp: does_def)
  then have "\<exists>e. res = Ok e"
    by (auto simp: endpoint_create_def bind_def worker_call_def ffi_after smooth lift_def from_status_def ret_def
        split: prod.splits outcome.splits)
  with run show ?thesis by (simp add: does_def)
qed

lemma accept_smooth:
  fixes w :: "('u, 'wk, 'q, 'n, 'c) full_world"
  assumes w: "holds E R L w" "0 < r_workers R k" "waiting sent l cs w"
  shows "does (unwrapped (worker_accept E X k conn buf)) w (\<lambda>e v. waiting sent l cs v
    \<and> holds E (R\<lparr>r_endpoints := inc (ep_inner e) (r_endpoints R)\<rparr>) L v \<and> get_status E e v = (Ret (Ok ()), v))"
proof -
  have own: "owns w R" using w(1) by (simp add: holds_def)
  note created = endpoint_create_owned [OF own held_worker [OF w(2)], of "accept_params (binds E) conn"]
  have "does (endpoint_create E k (accept_params (binds E) conn)) w (\<lambda>res v. waiting sent l cs v \<and> (\<exists>e. res = Ok e
    \<and> holds E (R\<lparr>r_endpoints := inc (ep_inner e) (r_endpoints R)\<rparr>) L v \<and> get_status E e v = (Ret (Ok ()), v)))"
  proof (rule does_mono [OF does_both [OF does_both [OF does_keeps [OF created kept_waiting w(3)]
        does_safely [OF endpoint_create_smooth]] safely_endpoint_create [OF w(1,2)]]])
    show "does (endpoint_create E k (accept_params (binds E) conn)) w (\<lambda>_ _. True)"
      using created by (rule does_mono) simp
  next
    show "keeps (\<lambda>w. channels w = ch) (endpoint_create E k (accept_params (binds E) conn))" for ch
      by (rule chans.operations_kept)
  qed (auto simp: get_status_def inner_reads inner_new_def from_status_def)
  then show ?thesis
    unfolding worker_accept_def accept_def does_unwrapped does_try_bind
  proof (rule does_mono, elim conjE exE)
    fix res e and v :: "('u, 'wk, 'q, 'n, 'c) full_world"
    assume res: "res = Ok e" and v: "waiting sent l cs v" "get_status E e v = (Ret (Ok ()), v)"
      "holds E (R\<lparr>r_endpoints := inc (ep_inner e) (r_endpoints R)\<rparr>) L v"
    from v have "does (stream_recv E X e buf) v (\<lambda>res u. (\<exists>n. res = Ok n) \<and> waiting sent l cs u
        \<and> get_status E e u = (Ret (Ok ()), u) \<and> holds E (R\<lparr>r_endpoints := inc (ep_inner e) (r_endpoints R)\<rparr>) L u)"
      by (auto intro!: does_mono [OF recv_at_once [OF v(2)]] simp: status_call)
    then show "case res of
        Inl err \<Rightarrow> \<exists>x. Inl err = Ok x \<and> waiting sent l cs v
          \<and> holds E (R\<lparr>r_endpoints := inc (ep_inner x) (r_endpoints R)\<rparr>) L v \<and> get_status E x v = (Ret (Ok ()), v)
      | Inr e \<Rightarrow> does (bind (stream_recv E X e buf) (\<lambda>received. case received of
         Inl err \<Rightarrow> bind (endpoint_drop E e) (\<lambda>_. ret (Err err)) | Inr _ \<Rightarrow> ret (Ok e))) v
         (\<lambda>res v. \<exists>x. res = Ok x \<and> waiting sent l cs v
          \<and> holds E (R\<lparr>r_endpoints := inc (ep_inner x) (r_endpoints R)\<rparr>) L v \<and> get_status E x v = (Ret (Ok ()), v))"
      unfolding res by (auto elim!: does_mono)
  qed
qed

lemma next_smooth:
  fixes w :: "('u, 'wk, 'q, 'n, 'c) full_world"
  assumes C: "unbounded_channel C sent" and X: "steady E X"
    and w: "holds E R L w" "0 < L (l_channel l)" "waiting sent l (c # cs) w"
  shows "does (listener_next C (x_others X) l (Suc n)) w (\<lambda>conn v. holds E R L v \<and> waiting sent l cs v)"
proof -
  have "does (listener_next C (x_others X) l (Suc n)) w (\<lambda>_. waiting sent l cs)"
    using w(3) unbounded_channel.next_takes [OF C, of w l _ c cs "x_others X" n] unfolding does_def waiting_def by blast
  from does_both [OF this safely_listener_next [OF X w(1,2)]] show ?thesis by (rule does_mono) simp
qed

lemma serve_smooth:
  fixes w :: "('u, 'wk, 'q, 'n, 'c) full_world"
  assumes C: "unbounded_channel C sent" and X: "steady E X" "0 < x_polls X" and H: "\<forall>x. as_socket H x \<noteq> None"
    and w: "holds E R L w" "0 < L (l_channel l)" "0 < r_workers R k" "waiting sent l (c # cs) w"
  shows "does (serve_connection H E C X k l i) w (\<lambda>e v. waiting sent l cs v
    \<and> holds E (R\<lparr>r_endpoints := inc (ep_inner e) (r_endpoints R)\<rparr>) L v)"
  unfolding serve_connection_def
proof (rule does_next)
  obtain n where "x_polls X = Suc n" using X(2) gr0_implies_Suc by blast
  with next_smooth [OF C X(1) w(1,2,4), of n]
  show "does (listener_next C (x_others X) l (x_polls X)) w (\<lambda>conn v. holds E R L v \<and> waiting sent l cs v)" by simp
next
  fix conn and v :: "('u, 'wk, 'q, 'n, 'c) full_world"
  assume v: "holds E R L v \<and> waiting sent l cs v"
  have addr: "does (unwrapped (remote_addr E (as_socket H) conn)) v (\<lambda>_ u. holds E R L u \<and> waiting sent l cs u)"
  proof -
    let ?u = "after_call E (Ucp_conn_request_query (cr_handle conn) (num (binds E) UCP_CONN_REQUEST_ATTR_FIELD_CLIENT_ADDR)) v"
    obtain x where "as_socket H (zero_or (Some (word_out E (Ucp_conn_request_query (cr_handle conn)
        (num (binds E) UCP_CONN_REQUEST_ATTR_FIELD_CLIENT_ADDR)) (lib v)))) = Some x"
      using H by blast
    moreover have "holds E R L ?u \<and> waiting sent l cs ?u" using v by simp
    ultimately show ?thesis
      by (simp add: remote_addr_def smooth after_call_def does_lift)
  qed
  show "does (bind (unwrapped (remote_addr E (as_socket H) conn)) (\<lambda>_.
     bind (unwrapped (worker_accept E X k conn (uninit (local_buf H 0) 4))) (\<lambda>ep.
     bind (unwrapped (tag_send E X ep 100 \<lparr>as_ptr = local_buf H 1, contents = [i]\<rparr>)) (\<lambda>_. ret ep)))) v
    (\<lambda>e v. waiting sent l cs v \<and> holds E (R\<lparr>r_endpoints := inc (ep_inner e) (r_endpoints R)\<rparr>) L v)"
  proof (rule does_next [OF addr], rule does_next [OF accept_smooth], elim conjE, assumption)
    fix ep and u :: "('u, 'wk, 'q, 'n, 'c) full_world"
    assume u: "waiting sent l cs u \<and> holds E (R\<lparr>r_endpoints := inc (ep_inner ep) (r_endpoints R)\<rparr>) L u
      \<and> get_status E ep u = (Ret (Ok ()), u)"
    then show "does (bind (unwrapped (tag_send E X ep 100 \<lparr>as_ptr = local_buf H 1, contents = [i]\<rparr>)) (\<lambda>_. ret ep)) u
      (\<lambda>e v. waiting sent l cs v \<and> holds E (R\<lparr>r_endpoints := inc (ep_inner e) (r_endpoints R)\<rparr>) L v)"
      by (auto intro!: does_mono [OF send_at_once(2)])
  qed (use w in auto)
qed

lemma accept_rounds_smooth:
  fixes p :: "('u, 'wk, 'q, 'n, 'c) full_world bench"
  assumes C: "unbounded_channel C sent" and X: "steady E X" "0 < x_polls X" and H: "\<forall>x. as_socket H x \<noteq> None"
    and p: "holds E R L (in_world p)" "0 < L (l_channel l)" "0 < r_workers R k" "waiting sent l cs (in_world p)"
    and n: "n \<le> length cs"
  shows "\<exists>r p'. accept_rounds H E C X k l start n p = (r, p')
    \<and> (if prof E = Debug \<and> 255 < unat start + n
       then r = Fault (Panic Arithmetic_overflow) \<and> length (echo_tasks p') = length (echo_tasks p) + (255 - unat start)
       else r = Unfinished \<and> length (echo_tasks p') = length (echo_tasks p) + n)"
  using p n
proof (induction n arbitrary: start p R cs)
  case 0
  then show ?case using unat_u8 [of start] by (simp add: lift_def)
next
  case (Suc n)
  then obtain c cs' where cs: "cs = c # cs'" by (cases cs) auto
  show ?case
  proof (cases rule: range_next_cases [where p = "prof E" and start = start])
    case 1
    then show ?thesis by (simp add: bind_def lift_def unat_minus_one)
  next
    case 2
    obtain ep v where serve: "serve_connection H E C X k l start (in_world p) = (Ret ep, v)" "waiting sent l cs' v"
      "holds E (R\<lparr>r_endpoints := inc (ep_inner ep) (r_endpoints R)\<rparr>) L v"
      using serve_smooth [OF C X H Suc.prems(1-3), of c cs' start] Suc.prems(4) cs by (auto simp: does_def)
    let ?p = "p\<lparr>in_world := v, echo_tasks := echo_tasks p @ [(ep, bench_tag start)]\<rparr>"
    have step: "accept_rounds H E C X k l start (Suc n) p = accept_rounds H E C X k l (start + 1) n ?p"
      using serve(1) 2(2) by (simp add: bind_def [of "world_step _"] bind_def [of "modify _"] world_step_def modify_def)
    obtain r p' where rest: "accept_rounds H E C X k l (start + 1) n ?p = (r, p')"
      "if prof E = Debug \<and> 255 < unat (start + 1) + n
       then r = Fault (Panic Arithmetic_overflow) \<and> length (echo_tasks p') = length (echo_tasks ?p) + (255 - unat (start + 1))
       else r = Unfinished \<and> length (echo_tasks p') = length (echo_tasks ?p) + n"
      using Suc.IH [where p = ?p and R = "R\<lparr>r_endpoints := inc (ep_inner ep) (r_endpoints R)\<rparr>" and cs = cs' and start = "start + 1"] serve Suc.prems cs by auto
    have succ: "unat (start + 1) = Suc (unat start)" "unat start < 255" if "prof E = Debug"
      using 2(1) that unat_u8 [of start] unat_minus_one [of start] by (auto simp: unat_word_ariths)
    show ?thesis
      using rest succ unfolding step by (cases "prof E") (auto split: if_splits)
  qed
qed

end


text \<open>A server with 256 clients waiting.\<close>

definition busy_bench :: "(unit, nat option, u64, nat, ConnectionRequest list) full_world bench" where
  "busy_bench = \<lparr>in_world = first_world\<lparr>contexts := one_cell 1 0 \<lparr>c_handle = 3\<rparr>,
       workers := one_cell 1 0 \<lparr>w_handle = 4, w_context = 0, am_streams = []\<rparr>,
       channels := one_cell 1 0 (replicate 256 \<lparr>cr_handle = 9\<rparr>)\<rparr>,
     echo_tasks = [], COUNT = 0\<rparr>"

definition busy_listener :: Listener where
  "busy_listener = \<lparr>l_handle = 5, l_channel = 0\<rparr>"

abbreviation idle :: "'w executor" where
  "idle \<equiv> \<lparr>x_task = 1, x_others = (\<lambda>w. w), x_polls = 1\<rparr>"

abbreviation one_worker :: refs where
  "one_worker \<equiv> no_refs\<lparr>r_workers := (\<lambda>a. if a = 0 then 1 else 0)\<rparr>"

lemma busy_facts:
  "holds (ideal_env p n) one_worker (\<lambda>a. if a = 0 then 1 else 0) (in_world busy_bench)"
  "waiting (\<lambda>c. c) busy_listener (replicate 256 \<lparr>cr_handle = 9\<rparr>) (in_world busy_bench)"
  "echo_tasks busy_bench = []" "steady E idle" "\<forall>x. as_socket sample_host x \<noteq> None"
  by (auto simp: holds_def owns_def refs_defs counts_def heap_fresh_def endpoints_ok_def refs_from_def busy_bench_def
      first_world_def one_cell_def empty_heap_def channels_ok_def maps_ok_def requests_ready_def handed_out_def no_refs_def ideal_env_def
      ok_reply_def waiting_def busy_listener_def steady_def sample_host_def split: option.splits if_splits)

lemma busy_simps: "prof (ideal_env p n) = p" "l_channel busy_listener = 0"
  by (simp_all add: ideal_env_def busy_listener_def)


end
