(* ===== verification/BenchThreads.thy ===== *)
theory BenchThreads
  imports Bench
begin

text \<open>
  \<^verbatim>\<open>examples/bench-multi-thread.rs\<close>: the server hands its connections to four threads, each with a worker of its
  own. Then what holds of both benchmarks: they are memory safe and never return.
\<close>

section \<open>\<^verbatim>\<open>examples/bench-multi-thread.rs\<close>\<close>

text \<open>The client: the whole buffer of eight bytes is read as the tag, however many bytes have come.\<close>

fun mt_client_rounds ::
  "('u, 'wk) env \<Rightarrow> ('u, 'wk, 's, 'c) world executor \<Rightarrow> Endpoint \<Rightarrow> u64 \<Rightarrow> slice \<Rightarrow> nat \<Rightarrow>
   (('u, 'wk, 's, 'c) world, unit) prog" where
  "mt_client_rounds E X endpoint tag long_msg 0 = lift Unfinished"
| "mt_client_rounds E X endpoint tag long_msg (Suc n) =
     bind (unwrapped (tag_send E X endpoint tag long_msg)) (\<lambda>_. mt_client_rounds E X endpoint tag long_msg n)"

definition mt_client ::
  "('u, 'addr) host \<Rightarrow> ('u, 'wk) env \<Rightarrow> ('u, 'wk, 's, 'c) world executor \<Rightarrow> string \<Rightarrow> nat \<Rightarrow>
   (('u, 'wk, 's, 'c) world, unit) prog" where
  "mt_client H E X server_addr rounds =
     bind (start_worker H E) (\<lambda>(ctx, wk).
     bind (connect_to H E X wk server_addr) (\<lambda>endpoint.
     bind (endpoint_print E endpoint) (\<lambda>_.
     bind (endpoint_worker endpoint) (\<lambda>wk.
     bind (unwrapped (tag_recv E X wk 100 (uninit (local_buf H 1) 8))) (\<lambda>_.
     bind (read_bytes H (local_buf H 1) 8) (\<lambda>tag.
       mt_client_rounds E X endpoint (from_ne_bytes tag)
         \<lparr>as_ptr = local_buf H 2, contents = pattern 8\<rparr> rounds))))))"

text \<open>
  A thread of the server. What it has been sent is the sender's side of its channel, of which it has
  received the first \<open>received\<close>; \<open>receiving\<close> says that the receiver still exists.
\<close>

record WorkerThread =
  sent_to :: "ConnectionRequest list"
  received :: nat
  receiving :: bool
  counter :: usize

definition new_thread :: WorkerThread where
  "new_thread = \<lparr>sent_to = [], received = 0, receiving = True, counter = 0\<rparr>"

definition thread_accept :: "WorkerThread \<Rightarrow> ConnectionRequest \<Rightarrow> WorkerThread outcome" where
  "thread_accept t conn = (if receiving t then Ret (t\<lparr>sent_to := sent_to t @ [conn]\<rparr>)
     else Fault (Panic Unwrap_on_err))"

text \<open>
  The loops that a thread spawns on its worker. \<^verbatim>\<open>#[cfg(not(event))]\<close> (without \<^verbatim>\<open>feature =\<close>) always holds, so
  that with the feature \<^verbatim>\<open>event\<close> there are both.
\<close>

datatype progress_loop = Polling | Event_poll

definition thread_loops :: "bool \<Rightarrow> progress_loop list" where
  "thread_loops event_feature = Polling # (if event_feature then [Event_poll] else [])"

fun spawn_loops :: "nat \<Rightarrow> progress_loop list \<Rightarrow> (('u, 'wk, 's, 'c) world, unit) prog" where
  "spawn_loops wk [] = ret ()"
| "spawn_loops wk (l # ls) = bind (worker_clone wk) (\<lambda>_. spawn_loops wk ls)"

text \<open>The receiving loop of a thread, for the connections it gets; it hands each to \<open>handle_ep\<close>.\<close>

fun thread_serve ::
  "('u, 'addr) host \<Rightarrow> ('u, 'wk) env \<Rightarrow> ('u, 'wk, 's, 'c) world executor \<Rightarrow> nat \<Rightarrow> ConnectionRequest list \<Rightarrow>
   (('u, 'wk, 's, 'c) world, (Endpoint \<times> 'addr) list) prog" where
  "thread_serve H E X wk [] = ret []"
| "thread_serve H E X wk (conn # conns) =
     bind (unwrapped (remote_addr E (as_socket H) conn)) (\<lambda>addr.
     bind (unwrapped (worker_accept E X wk conn (uninit (local_buf H 0) 4))) (\<lambda>ep.
     bind (thread_serve H E X wk conns) (\<lambda>handled. ret ((ep, addr) # handled))))"

definition thread_main ::
  "('u, 'addr) host \<Rightarrow> ('u, 'wk) env \<Rightarrow> ('u, 'wk, 's, 'c) world executor \<Rightarrow> bool \<Rightarrow> nat \<Rightarrow> ConnectionRequest list \<Rightarrow>
   (('u, 'wk, 's, 'c) world, nat \<times> (Endpoint \<times> 'addr) list) prog" where
  "thread_main H E X event_feature ctx conns =
     bind (unwrapped (create_worker E ctx)) (\<lambda>wk.
     bind (spawn_loops wk (thread_loops event_feature)) (\<lambda>_.
     bind (thread_serve H E X wk conns) (\<lambda>handled. ret (wk, handled))))"

text \<open>
  The task of a connection: its tag is a hash of the client's address (\<open>hash\<close>: \<^verbatim>\<open>DefaultHasher\<close>), sent to the
  client as eight bytes; then it receives and counts, with the thread's counter as the result.
\<close>

fun count_rounds ::
  "('u, 'addr) host \<Rightarrow> ('u, 'wk) env \<Rightarrow> ('u, 'wk, 's, 'c) world executor \<Rightarrow> Endpoint \<Rightarrow> u64 \<Rightarrow> nat \<Rightarrow>
   (('u, 'wk, 's, 'c) world bench, unit) prog" where
  "count_rounds H E X ep tag 0 = lift Unfinished"
| "count_rounds H E X ep tag (Suc n) =
     bind (world_step (bind (endpoint_worker ep) (\<lambda>wk. unwrapped (tag_recv E X wk tag (uninit (local_buf H 2) 50000))))) (\<lambda>_.
     bind (modify (\<lambda>p. p\<lparr>COUNT := COUNT p + 1\<rparr>)) (\<lambda>_. count_rounds H E X ep tag n))"

definition handle_ep ::
  "('u, 'addr) host \<Rightarrow> ('u, 'wk) env \<Rightarrow> ('u, 'wk, 's, 'c) world executor \<Rightarrow> ('addr \<Rightarrow> u64) \<Rightarrow> Endpoint \<Rightarrow> 'addr \<Rightarrow> nat \<Rightarrow>
   (('u, 'wk, 's, 'c) world bench, unit) prog" where
  "handle_ep H E X hash ep addr rounds =
     bind (world_step (unwrapped (tag_send E X ep 100 \<lparr>as_ptr = local_buf H 1, contents = to_ne_bytes (hash addr)\<rparr>))) (\<lambda>_.
       count_rounds H E X ep (hash addr) rounds)"

text \<open>
  The accepting loop: connections go to the threads in turn. Meanwhile the threads do what they do
  (\<open>activity\<close>); \<open>arrived\<close> records the connections in the order in which \<^verbatim>\<open>next\<close> returned them.
\<close>

record 'w dispatcher =
  mt_world :: 'w
  worker_threads :: "WorkerThread list"
  arrived :: "ConnectionRequest list"

definition mt_step :: "('w, 'a) prog \<Rightarrow> ('w dispatcher, 'a) prog" where
  "mt_step m p = (case m (mt_world p) of (r, w) \<Rightarrow> (r, p\<lparr>mt_world := w\<rparr>))"

definition dispatch :: "usize \<Rightarrow> ConnectionRequest \<Rightarrow> ('w dispatcher, unit) prog" where
  "dispatch i conn p =
     (let n = length (worker_threads p); t = unat i mod n in
      case thread_accept (worker_threads p ! t) conn of
        Ret thread \<Rightarrow> (Ret (), p\<lparr>worker_threads := (worker_threads p)[t := thread]\<rparr>)
      | Fault f \<Rightarrow> (Fault f, p)
      | Unfinished \<Rightarrow> (Unfinished, p))"

fun mt_accept_rounds ::
  "('u, 'wk) env \<Rightarrow> 'c channel_ops \<Rightarrow> ('u, 'wk, 's, 'c) world executor \<Rightarrow> (WorkerThread list \<Rightarrow> WorkerThread list) \<Rightarrow>
   Listener \<Rightarrow> usize \<Rightarrow> nat \<Rightarrow> (('u, 'wk, 's, 'c) world dispatcher, unit) prog" where
  "mt_accept_rounds E C X activity listener start 0 = lift Unfinished"
| "mt_accept_rounds E C X activity listener start (Suc n) =
     bind (lift (range_next (prof E) start)) (\<lambda>(i, start').
     bind (mt_step (listener_next C (x_others X) listener (x_polls X))) (\<lambda>conn.
     bind (modify (\<lambda>p. p\<lparr>worker_threads := activity (worker_threads p), arrived := arrived p @ [conn]\<rparr>)) (\<lambda>_.
     bind (dispatch i conn) (\<lambda>_. mt_accept_rounds E C X activity listener start' n))))"

text \<open>Each new thread gets a clone of the context; the accepting thread has a worker of its own.\<close>

fun share_context :: "nat \<Rightarrow> nat \<Rightarrow> (('u, 'wk, 's, 'c) world, unit) prog" where
  "share_context 0 ctx = ret ()"
| "share_context (Suc n) ctx = bind (context_clone ctx) (\<lambda>_. share_context n ctx)"

definition mt_listen ::
  "('u, 'addr) host \<Rightarrow> ('u, 'wk) env \<Rightarrow> 'c channel_ops \<Rightarrow> nat \<Rightarrow> (('u, 'wk, 's, 'c) world, Listener) prog" where
  "mt_listen H E C ctx =
     bind (unwrapped (create_worker E ctx)) (\<lambda>wk.
     bind (worker_clone wk) (\<lambda>_.
     bind (listen_at H E C wk ''0.0.0.0:0'') (\<lambda>listener.
     bind (unwrapped (listener_socket_addr E (as_socket H) listener)) (\<lambda>_. ret listener))))"

definition mt_server ::
  "('u, 'addr) host \<Rightarrow> ('u, 'wk) env \<Rightarrow> 'c channel_ops \<Rightarrow> ('u, 'wk, 's, 'c) world executor \<Rightarrow>
   (WorkerThread list \<Rightarrow> WorkerThread list) \<Rightarrow> nat \<Rightarrow> (('u, 'wk, 's, 'c) world dispatcher, unit) prog" where
  "mt_server H E C X activity connections =
     bind (mt_step (unwrapped (context_new E (am_feature H)))) (\<lambda>ctx.
     bind (mt_step (share_context 4 ctx)) (\<lambda>_.
     bind (modify (\<lambda>p. p\<lparr>worker_threads := replicate 4 new_thread\<rparr>)) (\<lambda>_.
     bind (mt_step (mt_listen H E C ctx)) (\<lambda>listener.
       mt_accept_rounds E C X activity listener 0 connections))))"

text \<open>What the reporting task prints: the sum of the counters, each of which it sets to 0 as it goes.\<close>

fun swap_counters :: "profile \<Rightarrow> usize \<Rightarrow> WorkerThread list \<Rightarrow> usize outcome \<times> WorkerThread list" where
  "swap_counters prf acc [] = (Ret acc, [])"
| "swap_counters prf acc (t # ts) = (case usize_add prf acc (counter t) of
     Ret s \<Rightarrow> (case swap_counters prf s ts of (r, ts') \<Rightarrow> (r, t\<lparr>counter := 0\<rparr> # ts'))
   | Fault f \<Rightarrow> (Fault f, t\<lparr>counter := 0\<rparr> # ts)
   | Unfinished \<Rightarrow> (Unfinished, t\<lparr>counter := 0\<rparr> # ts))"

definition report_counters :: "profile \<Rightarrow> ('w dispatcher, usize) prog" where
  "report_counters prf p = (case swap_counters prf 0 (worker_threads p) of
     (r, ts) \<Rightarrow> (r, p\<lparr>worker_threads := ts\<rparr>))"

section \<open>The benchmarks are memory safe and never return\<close>

lemma safely_world_step: "safely (world_step m) p Q \<longleftrightarrow> safely m (in_world p) (\<lambda>x w. Q x (p\<lparr>in_world := w\<rparr>))"
  by (simp add: safely_def world_step_def split: prod.split outcome.split)

lemma world_rule: "safely m (in_world p) P \<Longrightarrow> (\<And>x v. P x v \<Longrightarrow> safely (f x) (p\<lparr>in_world := v\<rparr>) Q) \<Longrightarrow>
    safely (bind (world_step m) f) p Q"
  by (simp add: safely_bind_iff safely_world_step) (erule safely_mono)

lemma safely_mt_step: "safely (mt_step m) p Q \<longleftrightarrow> safely m (mt_world p) (\<lambda>x w. Q x (p\<lparr>mt_world := w\<rparr>))"
  by (simp add: safely_def mt_step_def split: prod.split outcome.split)

lemma mt_rule: "safely m (mt_world p) P \<Longrightarrow> (\<And>x v. P x v \<Longrightarrow> safely (f x) (p\<lparr>mt_world := v\<rparr>) Q) \<Longrightarrow>
    safely (bind (mt_step m) f) p Q"
  by (simp add: safely_bind_iff safely_mt_step) (erule safely_mono)

lemma safely_dispatch: "safely (dispatch i conn) p (\<lambda>_ q. mt_world q = mt_world p)"
  by (simp add: safely_def dispatch_def thread_accept_def Let_def)

lemma safely_range: "safely (lift (range_next p start)) w Q \<longleftrightarrow> (p = Release \<or> start \<noteq> - 1 \<longrightarrow> Q (start, start + 1) w)"
  by (cases p) (simp_all add: range_next_def safely_lift)

context ucx_library
begin

lemma worker_recv_step:
  fixes w :: "('u, 'wk, 'q, 'n, 'c) full_world"
  assumes X: "steady E X" and tag: "tag_requests E" and w: "holds E R L w" "0 < r_endpoints R (ep_inner e)"
    and cont: "\<And>x v. holds E R L v \<Longrightarrow> safely (f x) v Q"
  shows "safely (bind (endpoint_worker e) (\<lambda>wk. bind (unwrapped (tag_recv E X wk tag buf)) f)) w Q"
proof (rule safely_bind [OF safely_endpoint_worker [OF w]], elim conjE)
  fix wk and v :: "('u, 'wk, 'q, 'n, 'c) full_world" assume "v = w" "0 < worker_refs w R wk"
  with safely_tag_recv [OF X w(1) _ tag, of wk] show "safely (bind (unwrapped (tag_recv E X wk tag buf)) f) v Q"
    by (intro safely_bind [OF safely_unwrapped_const [where P = "holds E R L"]]) (auto intro: cont)
qed

lemma safely_bench_rounds:
  fixes w :: "('u, 'wk, 'q, 'n, 'c) full_world"
  assumes X: "steady E X" and tag: "tag_requests E" and w: "holds E R L w" "0 < r_endpoints R (ep_inner e)"
  shows "safely (bench_rounds H E X e t buf n) w (\<lambda>_ _. False)"
  using w
proof (induction n arbitrary: w)
  case (Suc n)
  show ?case
    unfolding bench_rounds.simps
    by (rule data_steps(2) [OF X], rule Suc.prems, rule Suc.prems, rule worker_recv_step [OF X tag], assumption, rule Suc.prems)
      (rule Suc.IH, assumption, rule Suc.prems)
qed (simp add: safely_lift)

lemma safely_mt_client_rounds:
  fixes w :: "('u, 'wk, 'q, 'n, 'c) full_world"
  assumes X: "steady E X" and w: "holds E R L w" "0 < r_endpoints R (ep_inner e)"
  shows "safely (mt_client_rounds E X e t buf n) w (\<lambda>_ _. False)"
  using w
proof (induction n arbitrary: w)
  case (Suc n)
  show ?case
    unfolding mt_client_rounds.simps
    by (rule data_steps(2) [OF X], rule Suc.prems, rule Suc.prems, rule Suc.IH, assumption, rule Suc.prems)
qed (simp add: safely_lift)

lemma safely_bench_client:
  fixes w :: "('u, 'wk, 'q, 'n, 'c) full_world"
  assumes X: "steady E X" and tag: "tag_requests E" and w: "holds E R L w"
  shows "safely (bench_client H E X addr n) w (\<lambda>_ _. False)" "safely (mt_client H E X addr n) w (\<lambda>_ _. False)"
  unfolding bench_client_def mt_client_def
  by (rule start_worker_step [OF w], simp, erule connect_to_step [OF X], simp, rule safely_bind, erule safely_endpoint_print, simp,
      rule worker_recv_step [OF X tag], assumption, simp, erule read_step, (rule safely_bench_rounds [OF X tag] safely_mt_client_rounds [OF X]), assumption, simp)+

lemma serve_step:
  fixes w :: "('u, 'wk, 'q, 'n, 'c) full_world"
  assumes X: "steady E X" and w: "holds E R L w" "0 < r_workers R k" "0 < L (l_channel l)"
  shows "safely (serve_connection H E C X k l i) w (\<lambda>e. holds E (R\<lparr>r_endpoints := inc (ep_inner e) (r_endpoints R)\<rparr>) L)"
  unfolding serve_connection_def
  by (rule safely_bind, rule safely_listener_next [OF X], rule w, rule w, rule safely_bind, erule safely_queries(2),
      rule safely_bind, erule safely_accept [OF X], rule w, rule data_steps(2) [OF X], assumption, simp, simp)

lemma safely_accept_rounds:
  fixes p :: "('u, 'wk, 'q, 'n, 'c) full_world bench"
  assumes X: "steady E X" and p: "holds E R L (in_world p)" "0 < r_workers R k" "0 < L (l_channel l)"
  shows "safely (accept_rounds H E C X k l start n) p (\<lambda>_ _. False)"
  using p
proof (induction n arbitrary: p R start)
  case (Suc n)
  have "safely (bind (world_step (serve_connection H E C X k l start)) (\<lambda>ep.
     bind (modify (\<lambda>p. p\<lparr>echo_tasks := echo_tasks p @ [(ep, bench_tag start)]\<rparr>)) (\<lambda>_.
       accept_rounds H E C X k l (start + 1) n))) p (\<lambda>_ _. False)"
    by (rule safely_bind [where P = "\<lambda>e v. holds E (R\<lparr>r_endpoints := inc (ep_inner e) (r_endpoints R)\<rparr>) L (in_world v)"])
      (use serve_step [OF X Suc.prems] Suc.prems in \<open>auto simp: safely_world_step safely_bind_iff intro!: Suc.IH\<close>)
  then show ?case by (simp add: safely_bind_iff [of "lift _"] safely_range)
qed (simp add: safely_lift)

lemma safely_start_worker:
  fixes w :: "('u, 'wk, 'q, 'n, 'c) full_world"
  assumes "holds E R L w"
  shows "safely (start_worker H E) w (\<lambda>(c, k). holds E (R\<lparr>r_contexts := inc c (r_contexts R),
        r_workers := (r_workers R)(k := Suc (Suc (r_workers R k)))\<rparr>) L)"
proof -
  have "safely (bind (start_worker H E) ret) w (\<lambda>(c, k). holds E (R\<lparr>r_contexts := inc c (r_contexts R),
        r_workers := (r_workers R)(k := Suc (Suc (r_workers R k)))\<rparr>) L)"
    by (rule start_worker_step [OF assms]) simp
  then show ?thesis by (simp add: bind_ret_right)
qed

lemma safely_listen_at:
  fixes w :: "('u, 'wk, 'q, 'n, 'c) full_world"
  assumes "holds E R L w" "0 < r_workers R k"
  shows "safely (listen_at H E C k addr) w (\<lambda>l. holds E R (inc (l_channel l) L))"
  using listen_at_step [OF assms, of ret] by (simp add: bind_ret_right)

lemma safely_bench_server:
  fixes p :: "('u, 'wk, 'q, 'n, 'c) full_world bench"
  assumes X: "steady E X" and p: "holds E R L (in_world p)"
  shows "safely (bench_server H E C X n) p (\<lambda>_ _. False)"
  unfolding bench_server_def
proof (rule world_rule [OF safely_start_worker [OF p]], clarify)
  fix c k and v :: "('u, 'wk, 'q, 'n, 'c) full_world"
  let ?R = "R\<lparr>r_contexts := inc c (r_contexts R), r_workers := (r_workers R)(k := Suc (Suc (r_workers R k)))\<rparr>"
  let ?p = "p\<lparr>in_world := v\<rparr>"
  assume "holds E ?R L v"
  then have v: "holds E ?R L (in_world ?p)" by simp
  show "safely (bind (world_step (listen_at H E C k ''0.0.0.0:10000'')) (\<lambda>l. bind (world_step (unwrapped
      (listener_socket_addr E (as_socket H) l))) (\<lambda>_. accept_rounds H E C X k l 0 n))) ?p (\<lambda>_ _. False)"
  proof (rule world_rule [OF safely_listen_at [OF v]])
    fix l :: Listener and u :: "('u, 'wk, 'q, 'n, 'c) full_world"
    let ?q = "?p\<lparr>in_world := u\<rparr>"
    assume "holds E ?R (inc (l_channel l) L) u"
    then have u: "holds E ?R (inc (l_channel l) L) (in_world ?q)" by simp
    show "safely (bind (world_step (unwrapped (listener_socket_addr E (as_socket H) l))) (\<lambda>_. accept_rounds H E C X k l 0 n)) ?q (\<lambda>_ _. False)"
      by (rule world_rule [OF safely_queries(1) [OF u]], rule safely_accept_rounds [OF X, where R = ?R], simp, simp, simp)
  qed simp
qed

lemma safely_echo_round:
  fixes p :: "('u, 'wk, 'q, 'n, 'c) full_world bench"
  assumes X: "steady E X" and tag: "tag_requests E" and p: "holds E R L (in_world p)" "0 < r_endpoints R (ep_inner e)"
  shows "safely (echo_round H E X e t) p (\<lambda>_ q. holds E R L (in_world q) \<and> COUNT q = COUNT p + 1)"
  unfolding echo_round_def
  by (rule world_rule, rule worker_recv_step [OF X tag p], rule safely_unwrapped_const, rule safely_sends(2) [OF X])
    (use p in simp_all)

text \<open>The threads of the other server, and its accepting loop.\<close>

lemma safely_thread_serve:
  fixes w :: "('u, 'wk, 'q, 'n, 'c) full_world" and H :: "('u, 'addr) host"
  assumes X: "steady E X" and w: "holds E R L w" "0 < r_workers R k"
  shows "safely (thread_serve H E X k conns) w (\<lambda>hs v. length hs = length conns
    \<and> (\<exists>S. holds E S L v \<and> r_contexts S = r_contexts R \<and> r_workers S = r_workers R
        \<and> (\<forall>h\<in>set hs. 0 < r_endpoints S (ep_inner (fst h))) \<and> (\<forall>a. r_endpoints R a \<le> r_endpoints S a)))"
  using w
proof (induction conns arbitrary: w R)
  case Nil
  then show ?case by auto
next
  case (Cons c cs)
  show ?case
    unfolding thread_serve.simps
  proof (rule safely_bind, rule safely_queries(2) [OF Cons.prems(1)], rule safely_bind, erule safely_accept [OF X], rule Cons.prems)
    fix addr :: 'addr and e :: Endpoint and v :: "('u, 'wk, 'q, 'n, 'c) full_world"
    let ?S = "R\<lparr>r_endpoints := inc (ep_inner e) (r_endpoints R)\<rparr>"
    assume v: "holds E ?S L v"
    show "safely (bind (thread_serve H E X k cs) (\<lambda>handled. ret ((e, addr) # handled))) v (\<lambda>hs v. length hs = length (c # cs)
      \<and> (\<exists>S. holds E S L v \<and> r_contexts S = r_contexts R \<and> r_workers S = r_workers R
          \<and> (\<forall>h\<in>set hs. 0 < r_endpoints S (ep_inner (fst h))) \<and> (\<forall>a. r_endpoints R a \<le> r_endpoints S a)))"
    proof (rule safely_bind [OF Cons.IH [OF v]], simp add: Cons.prems, elim conjE exE)
      fix hs :: "(Endpoint \<times> 'addr) list" and u :: "('u, 'wk, 'q, 'n, 'c) full_world" and S
      assume "length hs = length cs" "holds E S L u" "r_contexts S = r_contexts ?S" "r_workers S = r_workers ?S"
        and e: "\<forall>h\<in>set hs. 0 < r_endpoints S (ep_inner (fst h))" "\<forall>a. r_endpoints ?S a \<le> r_endpoints S a"
      moreover have "0 < r_endpoints S (ep_inner e)"
        using spec [OF e(2), of "ep_inner e"] by simp
      moreover have "r_endpoints R a \<le> r_endpoints S a" for a
        using spec [OF e(2), of a] by (simp split: if_splits)
      ultimately show "safely (ret ((e, addr) # hs)) u (\<lambda>hs v. length hs = length (c # cs)
        \<and> (\<exists>S. holds E S L v \<and> r_contexts S = r_contexts R \<and> r_workers S = r_workers R
          \<and> (\<forall>h\<in>set hs. 0 < r_endpoints S (ep_inner (fst h))) \<and> (\<forall>a. r_endpoints R a \<le> r_endpoints S a)))"
        by auto
    qed
  qed
qed

lemma spawn_loops_owned:
  fixes w :: "('u, 'wk, 'q, 'n, 'c) full_world"
  assumes "holds E R L w" "0 < r_workers R k"
  shows "safely (spawn_loops k ls) w (\<lambda>_. holds E (R\<lparr>r_workers := (r_workers R)(k := r_workers R k + length ls)\<rparr>) L)"
  using assms
proof (induction ls arbitrary: w R)
  case (Cons l ls)
  show ?case
    unfolding spawn_loops.simps
  proof (rule safely_bind [OF safely_worker_clone [OF Cons.prems]])
    fix u and v :: "('u, 'wk, 'q, 'n, 'c) full_world"
    let ?S = "R\<lparr>r_workers := inc k (r_workers R)\<rparr>"
    assume v: "holds E ?S L v"
    have "0 < r_workers ?S k" by simp
    from Cons.IH [OF v this]
    have "safely (spawn_loops k ls) v (\<lambda>_. holds E (?S\<lparr>r_workers := (r_workers ?S)(k := r_workers ?S k + length ls)\<rparr>) L)" .
    moreover have "?S\<lparr>r_workers := (r_workers ?S)(k := r_workers ?S k + length ls)\<rparr>
        = R\<lparr>r_workers := (r_workers R)(k := r_workers R k + length (l # ls))\<rparr>"
      by (cases R) (auto simp: fun_eq_iff)
    ultimately show "safely (spawn_loops k ls) v
        (\<lambda>_. holds E (R\<lparr>r_workers := (r_workers R)(k := r_workers R k + length (l # ls))\<rparr>) L)"
      by (simp only:)
  qed
qed simp

lemma safely_thread_main:
  fixes w :: "('u, 'wk, 'q, 'n, 'c) full_world" and H :: "('u, 'addr) host"
  assumes X: "steady E X" and w: "holds E R L w" "0 < r_contexts R c"
  shows "safely (thread_main H E X ev c conns) w (\<lambda>(k, hs) v. length hs = length conns
    \<and> (\<exists>S. holds E S L v \<and> r_contexts S = r_contexts R
        \<and> r_workers S = (r_workers R)(k := r_workers R k + 1 + length (thread_loops ev))
        \<and> (\<forall>h\<in>set hs. 0 < r_endpoints S (ep_inner (fst h)))))"
  unfolding thread_main_def
proof (rule safely_bind [OF safely_worker_new [OF w]], rule safely_bind, erule spawn_loops_owned, simp)
  fix k u and v :: "('u, 'wk, 'q, 'n, 'c) full_world"
  let ?W = "R\<lparr>r_workers := inc k (r_workers R)\<rparr>"
  let ?S = "?W\<lparr>r_workers := (r_workers ?W)(k := r_workers ?W k + length (thread_loops ev))\<rparr>"
  assume "holds E ?S L v"
  from safely_thread_serve [OF X this, of k H conns]
  show "safely (bind (thread_serve H E X k conns) (\<lambda>handled. ret (k, handled))) v (\<lambda>(k, hs) v. length hs = length conns
    \<and> (\<exists>S. holds E S L v \<and> r_contexts S = r_contexts R
        \<and> r_workers S = (r_workers R)(k := r_workers R k + 1 + length (thread_loops ev))
        \<and> (\<forall>h\<in>set hs. 0 < r_endpoints S (ep_inner (fst h)))))"
    by (auto elim!: safely_bind)
qed

lemma safely_count_rounds:
  fixes p :: "('u, 'wk, 'q, 'n, 'c) full_world bench"
  assumes X: "steady E X" and tag: "tag_requests E" and p: "holds E R L (in_world p)" "0 < r_endpoints R (ep_inner e)"
  shows "safely (count_rounds H E X e t n) p (\<lambda>_ _. False)"
  using p
proof (induction n arbitrary: p)
  case (Suc n)
  show ?case
    unfolding count_rounds.simps
  proof (rule world_rule)
    show "safely (bind (endpoint_worker e) (\<lambda>wk. unwrapped (tag_recv E X wk t (uninit (local_buf H 2) 50000)))) (in_world p)
        (\<lambda>_. holds E R L)"
      by (rule worker_recv_step [OF X tag Suc.prems, where f = ret, unfolded bind_ret_right]) simp
  qed (simp add: safely_bind_iff Suc.IH [OF _ Suc.prems(2)])
qed (simp add: safely_lift)

lemma safely_handle_ep:
  fixes p :: "('u, 'wk, 'q, 'n, 'c) full_world bench"
  assumes X: "steady E X" and tag: "tag_requests E" and p: "holds E R L (in_world p)" "0 < r_endpoints R (ep_inner e)"
  shows "safely (handle_ep H E X hash e a n) p (\<lambda>_ _. False)"
  unfolding handle_ep_def
  by (rule world_rule [OF safely_unwrapped_const, OF safely_sends(2) [OF X p]], rule safely_count_rounds [OF X tag, where R = R])
    (use p in simp_all)

end

context ucx_library
begin

lemma safely_mt_rounds:
  fixes p :: "('u, 'wk, 'q, 'n, 'c) full_world dispatcher"
  assumes X: "steady E X" and p: "holds E R L (mt_world p)" "0 < L (l_channel l)"
  shows "safely (mt_accept_rounds E C X activity l start n) p (\<lambda>_ _. False)"
  using p(1)
proof (induction n arbitrary: p start)
  case (Suc n)
  have "safely (bind (mt_step (listener_next C (x_others X) l (x_polls X))) (\<lambda>conn.
     bind (modify (\<lambda>p. p\<lparr>worker_threads := activity (worker_threads p), arrived := arrived p @ [conn]\<rparr>)) (\<lambda>_.
     bind (dispatch start conn) (\<lambda>_. mt_accept_rounds E C X activity l (start + 1) n)))) p (\<lambda>_ _. False)"
  proof (rule mt_rule [OF safely_listener_next [OF X Suc.prems p(2)]])
    fix conn and v :: "('u, 'wk, 'q, 'n, 'c) full_world" assume v: "holds E R L v"
    show "safely (bind (modify (\<lambda>p. p\<lparr>worker_threads := activity (worker_threads p), arrived := arrived p @ [conn]\<rparr>)) (\<lambda>_.
     bind (dispatch start conn) (\<lambda>_. mt_accept_rounds E C X activity l (start + 1) n))) (p\<lparr>mt_world := v\<rparr>) (\<lambda>_ _. False)"
      unfolding safely_bind_iff [of "modify _"] safely_modify
      by (rule safely_bind [OF safely_dispatch]) (use v Suc.IH in simp)
  qed
  then show ?case by (simp add: safely_bind_iff [of "lift _"] safely_range)
qed (simp add: safely_lift)

lemma safely_context_clone:
  fixes w :: "('u, 'wk, 'q, 'n, 'c) full_world"
  assumes "holds E R L w" "0 < r_contexts R c"
  shows "safely (context_clone c) w (\<lambda>_. holds E (R\<lparr>r_contexts := inc c (r_contexts R)\<rparr>) L)"
  by (rule safely_owned [OF context_clone_owned [of w R c] assms(1)])
    (use assms held_context in \<open>auto simp: holds_def kept simp del: not_None_eq\<close>)

lemma safely_share_context:
  fixes w :: "('u, 'wk, 'q, 'n, 'c) full_world"
  assumes "holds E R L w" "0 < r_contexts R c"
  shows "safely (share_context n c) w (\<lambda>_ v. \<exists>S. holds E S L v \<and> 0 < r_contexts S c)"
  using assms
proof (induction n arbitrary: w R)
  case (Suc n)
  show ?case
    unfolding share_context.simps
    by (rule safely_bind [OF safely_context_clone [OF Suc.prems]], rule Suc.IH, assumption) simp
qed auto

lemma safely_mt_listen:
  fixes w :: "('u, 'wk, 'q, 'n, 'c) full_world"
  assumes "holds E R L w" "0 < r_contexts R c"
  shows "safely (mt_listen H E C c) w (\<lambda>l v. \<exists>S M. holds E S M v \<and> 0 < M (l_channel l))"
  unfolding mt_listen_def
  by (rule safely_bind [OF safely_worker_new [OF assms]], rule safely_bind, erule safely_worker_clone, simp,
      rule safely_bind, erule safely_listen_at, simp, rule safely_bind, erule safely_queries(1)) force

lemma safely_mt_server:
  fixes p :: "('u, 'wk, 'q, 'n, 'c) full_world dispatcher"
  assumes X: "steady E X" and p: "holds E R L (mt_world p)"
  shows "safely (mt_server H E C X activity n) p (\<lambda>_ _. False)"
  unfolding mt_server_def
proof (rule mt_rule [OF safely_context_new [OF p]])
  fix c and v :: "('u, 'wk, 'q, 'n, 'c) full_world"
  let ?p = "p\<lparr>mt_world := v\<rparr>" and ?R = "R\<lparr>r_contexts := inc c (r_contexts R)\<rparr>"
  assume "holds E ?R L v"
  then have v: "holds E ?R L (mt_world ?p)" by simp
  show "safely (bind (mt_step (share_context 4 c)) (\<lambda>_.
     bind (modify (\<lambda>p. p\<lparr>worker_threads := replicate 4 new_thread\<rparr>)) (\<lambda>_.
     bind (mt_step (mt_listen H E C c)) (\<lambda>listener. mt_accept_rounds E C X activity listener 0 n)))) ?p (\<lambda>_ _. False)"
  proof (rule mt_rule [OF safely_share_context [OF v]], simp, elim exE conjE, unfold safely_bind_iff [of "modify _"] safely_modify)
    fix u :: "('u, 'wk, 'q, 'n, 'c) full_world" and S
    let ?q = "p\<lparr>mt_world := u, worker_threads := replicate 4 new_thread\<rparr>"
    assume "holds E S L u" and c: "0 < r_contexts S c"
    then have "holds E S L (mt_world ?q)" by simp
    from safely_mt_listen [OF this c]
    have "safely (bind (mt_step (mt_listen H E C c)) (\<lambda>listener. mt_accept_rounds E C X activity listener 0 n)) ?q (\<lambda>_ _. False)"
      by (rule mt_rule) (auto intro!: safely_mt_rounds [OF X])
    then show "safely (bind (mt_step (mt_listen H E C c)) (\<lambda>listener. mt_accept_rounds E C X activity listener 0 n))
        (p\<lparr>mt_world := v, mt_world := u, worker_threads := replicate 4 new_thread\<rparr>) (\<lambda>_ _. False)"
      by simp
  qed
qed

end

section \<open>Two loops on one worker\<close>

context ucx_library
begin

lemma safely_progress:
  fixes w :: "('u, 'wk, 'q, 'n, 'c) full_world"
  assumes chan: "unbounded_channel C sent"
    and good: "\<And>w cb. cb \<in> set (reported E k w) \<Longrightarrow> callback_ok (w :: ('u, 'wk, 'q, 'n, 'c) full_world) cb"
    and w: "holds E R L w" "0 < r_workers R k"
  shows "safely (worker_progress E A C k) w (\<lambda>_. holds E R L)"
proof -
  have own: "owns w R" "channels_ok w L" "requests_ready E w" using w(1) by (simp_all add: holds_def)
  from progress_owned [OF ucx_library_axioms chan own(1) held_worker [OF w(2)] own(2), of A] good
  obtain x v where "worker_progress E A C k w = (Ret x, v)" "owns v R" "channels_ok v L" "progress_frame w v"
    by (auto simp: does_def)
  with own(3) w(1) show ?thesis by (simp add: safely_def holds_def ready_frame maps_progress)
qed

lemma safely_progress_all:
  fixes w :: "('u, 'wk, 'q, 'n, 'c) full_world"
  assumes chan: "unbounded_channel C sent"
    and good: "\<And>w cb. cb \<in> set (reported E k w) \<Longrightarrow> callback_ok (w :: ('u, 'wk, 'q, 'n, 'c) full_world) cb"
    and w: "holds E R L w" "0 < r_workers R k"
  shows "safely (progress_all E A C k n) w (\<lambda>_. holds E R L)"
  using w(1)
proof (induction n arbitrary: w)
  case (Suc n)
  show ?case
    unfolding progress_all.simps
    by (rule safely_bind [OF safely_progress [OF chan good Suc.prems w(2)]]) (auto intro: Suc.IH)
qed (simp add: safely_lift)

lemma counted_worker:
  fixes w :: "('u, 'wk, 's, 'c) world"
  assumes "holds E R L w" "0 < r_workers R k"
  shows "on_workers (rc_counts k) w = (Ret (worker_refs w R k, 0), w)"
proof -
  have "owns w R" using assms(1) by (simp add: holds_def)
  then obtain b where "cells (workers w) k = Some b" "strong b = worker_refs w R k" "weak b = 0"
    using countsD [OF owns_parts(4) held_worker [OF assms(2)]] by blast
  then show ?thesis
    using held_worker [OF assms(2), of w] by (simp add: on_workers_def rc_on_cell)
qed

lemma shared_loops:
  fixes w :: "('u, 'wk, 'q, 'n, 'c) full_world"
  assumes chan: "unbounded_channel C sent"
    and good: "\<And>w cb. cb \<in> set (reported E k w) \<Longrightarrow> callback_ok (w :: ('u, 'wk, 'q, 'n, 'c) full_world) cb"
    and others: "\<And>w R L. holds E R L w \<Longrightarrow> holds E R L (others (w :: ('u, 'wk, 'q, 'n, 'c) full_world))"
    and w: "holds E R L w" "1 < r_workers R k"
  shows "safely (polling E A C others spins k n) w (\<lambda>_ _. False)" "safely (event_loop E A C others spins k n) w (\<lambda>_ _. False)"
proof -
  have pos: "0 < r_workers R k" using w(2) by simp
  have many: "1 < worker_refs v R k" for v :: "('u, 'wk, 'q, 'n, 'c) full_world"
    using w(2) by (simp add: worker_refs_def)
  show "safely (polling E A C others spins k n) w (\<lambda>_ _. False)"
    using w(1)
  proof (induction n arbitrary: w)
    case (Suc n)
    have "safely (bind (progress_all E A C k spins) (\<lambda>_. bind (modify others) (\<lambda>_. polling E A C others spins k n))) w (\<lambda>_ _. False)"
      by (rule safely_bind [OF safely_progress_all [OF chan good Suc.prems pos]])
        (auto simp: safely_bind_iff [of "modify _"] intro: Suc.IH others)
    with many [of w] show ?case
      by (simp add: safely_def bind_def [of "on_workers _"] counted_worker [OF Suc.prems pos])
  qed (simp add: safely_lift)
  show "safely (event_loop E A C others spins k n) w (\<lambda>_ _. False)"
    using w(1)
  proof (induction n arbitrary: w)
    case (Suc n)
    have arm: "safely (worker_arm E k) v (\<lambda>_. holds E R L)" if "holds E R L v" for v :: "('u, 'wk, 'q, 'n, 'c) full_world"
      unfolding worker_arm_def
      by (rule safely_bind [OF safely_worker_call [OF that held_worker [OF pos]]]) (auto simp: safely_bind_iff safely_lift from_error_def)
    have "safely (bind (progress_all E A C k spins) (\<lambda>_. bind (worker_arm E k) (\<lambda>res. bind (lift (unwrap res)) (\<lambda>sleep.
        bind (if sleep then modify others else ret ()) (\<lambda>_. event_loop E A C others spins k n))))) w (\<lambda>_ _. False)"
      by (rule safely_bind [OF safely_progress_all [OF chan good Suc.prems pos]], assumption, rule safely_bind, erule arm)
        (auto simp: safely_bind_iff [of "modify _"] safely_bind_iff [of "lift _"] intro: Suc.IH others)
    with many [of w] show ?case
      by (simp add: safely_def bind_def [of "on_workers _"] counted_worker [OF Suc.prems pos])
  qed (simp add: safely_lift)
qed

end

section \<open>Properties of both benchmarks\<close>


definition start_world :: "(unit, nat option, u64, nat, ConnectionRequest list) full_world" where
  "start_world = first_world"


text \<open>The threads have been dealt the connections that have arrived.\<close>

definition dealt :: "'w dispatcher \<Rightarrow> bool" where
  "dealt p \<longleftrightarrow> length (worker_threads p) = 4 \<and> (\<forall>t<4. receiving (worker_threads p ! t)
     \<and> sent_to (worker_threads p ! t) = map ((!) (arrived p)) (filter (\<lambda>k. k mod 4 = t) [0..<length (arrived p)]))"

lemma dealt_next:
  assumes "dealt p" "map (\<lambda>t. (sent_to t, receiving t)) ts = map (\<lambda>t. (sent_to t, receiving t)) (worker_threads p)"
    and "unat i = length (arrived p)"
  shows "\<exists>q. dispatch i conn (p\<lparr>worker_threads := ts, arrived := arrived p @ [conn]\<rparr>) = (Ret (), q)
    \<and> dealt q \<and> arrived q = arrived p @ [conn]"
proof -
  let ?m = "length (arrived p)"
  have len: "length ts = 4" using assms(1,2) by (auto simp: dealt_def dest: map_eq_imp_length_eq)
  have ts: "sent_to (ts ! t) = sent_to (worker_threads p ! t)" "receiving (ts ! t)" if "t < 4" for t
  proof -
    have "map (\<lambda>t. (sent_to t, receiving t)) ts ! t = map (\<lambda>t. (sent_to t, receiving t)) (worker_threads p) ! t"
      by (simp only: assms(2))
    with that len assms(1) show "sent_to (ts ! t) = sent_to (worker_threads p ! t)" "receiving (ts ! t)"
      by (auto simp: dealt_def)
  qed
  have old: "map ((!) (arrived p @ [conn])) (filter P [0..<?m]) = map ((!) (arrived p)) (filter P [0..<?m])" for P
    by (simp add: nth_append)
  let ?q = "p\<lparr>worker_threads := ts[?m mod 4 := (ts ! (?m mod 4))\<lparr>sent_to := sent_to (ts ! (?m mod 4)) @ [conn]\<rparr>],
    arrived := arrived p @ [conn]\<rparr>"
  have "dispatch i conn (p\<lparr>worker_threads := ts, arrived := arrived p @ [conn]\<rparr>) = (Ret (), ?q)"
    using len ts(2) by (simp add: dispatch_def thread_accept_def Let_def assms(3))
  moreover have "dealt ?q"
    using assms(1) ts len by (auto simp: dealt_def nth_list_update old nth_append)
  ultimately show ?thesis by auto
qed

lemma range_next_small:
  fixes start :: usize
  assumes "unat start < 2 ^ 64 - 1"
  shows "range_next prf start = Ret (start, start + 1)"
proof -
  have "unat (- 1 :: usize) = 2 ^ 64 - 1"
    by (simp add: unat_eq_nat_uint unsigned_minus_1_eq_mask mask_eq_exp_minus_1)
  with assms have "start \<noteq> - 1" by (metis less_irrefl)
  then show ?thesis by (simp add: range_next_def)
qed

lemma mt_rounds_dealt:
  assumes activity: "\<And>ts. map (\<lambda>t. (sent_to t, receiving t)) (activity ts) = map (\<lambda>t. (sent_to t, receiving t)) ts"
    and "mt_accept_rounds E C X activity l start n p = (r, p')"
    and "dealt p" "unat start = length (arrived p)" "length (arrived p) + n < 2 ^ 64"
  shows "dealt p' \<and> (\<exists>new. arrived p' = arrived p @ new \<and> length new \<le> n) \<and> (\<forall>x. r \<noteq> Ret x)"
  using assms(2-)
proof (induction n arbitrary: start p)
  case 0
  then show ?case by (auto simp: lift_def)
next
  case (Suc n)
  have small: "unat start < 2 ^ 64 - 1" using Suc.prems by simp
  note next_start = range_next_small [OF small]
  have succ: "unat (start + 1) = Suc (unat start)" using small by (simp add: unat_word_ariths)
  obtain s q where step: "mt_step (listener_next C (x_others X) l (x_polls X)) p = (s, q)" by fastforce
  then have q: "worker_threads q = worker_threads p" "arrived q = arrived p"
    by (auto simp: mt_step_def split: prod.splits)
  then have "dealt q" using Suc.prems(2) by (simp add: dealt_def)
  show ?case
  proof (cases s)
    case (Ret conn)
    from dealt_next [OF \<open>dealt q\<close>, of "activity (worker_threads q)" start conn] activity Suc.prems(3) q
    obtain u where u: "dispatch start conn (q\<lparr>worker_threads := activity (worker_threads q), arrived := arrived q @ [conn]\<rparr>) = (Ret (), u)"
      "dealt u" "arrived u = arrived p @ [conn]" by auto
    have "mt_accept_rounds E C X activity l (start + 1) n u = (r, p')"
      using Suc.prems(1) step Ret u(1) by (simp add: next_start bind_def [of "mt_step _"] bind_def [of "modify _"] bind_def [of "dispatch _ _"] modify_def)
    from Suc.IH [OF this u(2)] Suc.prems(3,4) u(3) succ show ?thesis by auto
  next
    case (Fault f)
    with Suc.prems(1) step have "p' = q" "r = Fault f" by (simp_all add: next_start bind_def)
    with q \<open>dealt q\<close> show ?thesis by simp
  next
    case Unfinished
    with Suc.prems(1) step have "p' = q" "r = Unfinished" by (simp_all add: next_start bind_def)
    with q \<open>dealt q\<close> show ?thesis by simp
  qed
qed

text \<open>
  C25. The multi-threaded server deals connections out in turn: as long as its four threads live, whatever they
  do meanwhile, thread \<open>t\<close> has been sent exactly the connections whose number is \<open>t\<close> modulo four, in the
  order of their arrival, none lost and none twice.
\<close>

theorem connections_dealt_in_turn:
  assumes "\<And>ts. map (\<lambda>t. (sent_to t, receiving t)) (activity ts) = map (\<lambda>t. (sent_to t, receiving t)) ts"
    and "mt_accept_rounds E C X activity l 0 n p = (r, p')" "n < 2 ^ 64"
    and "worker_threads p = replicate 4 new_thread" "arrived p = []" "t < 4"
  shows "sent_to (worker_threads p' ! t) = map ((!) (arrived p')) (filter (\<lambda>k. k mod 4 = t) [0..<length (arrived p')])
    \<and> length (arrived p') \<le> n"
proof -
  have "dealt p" using assms(4,5) by (simp add: dealt_def new_thread_def)
  from mt_rounds_dealt [OF assms(1,2) this] assms(3,5,6) show ?thesis by (auto simp: dealt_def)
qed

lemma mt_rounds_all:
  fixes p :: "('u, 'wk, 'q, 'n, 'c) full_world dispatcher"
  assumes C: "unbounded_channel C sent"
    and activity: "\<And>ts. map (\<lambda>t. (sent_to t, receiving t)) (activity ts) = map (\<lambda>t. (sent_to t, receiving t)) ts"
    and polls: "0 < x_polls X" and p: "waiting sent l cs (mt_world p)" "dealt p" "unat start = length (arrived p)"
      "length (arrived p) + length cs < 2 ^ 64"
  shows "\<exists>p'. mt_accept_rounds E C X activity l start (length cs) p = (Unfinished, p') \<and> dealt p' \<and> arrived p' = arrived p @ cs"
  using p
proof (induction cs arbitrary: start p)
  case Nil
  then show ?case by (simp add: lift_def)
next
  case (Cons c cs)
  have small: "unat start < 2 ^ 64 - 1" using Cons.prems by simp
  obtain n where n: "x_polls X = Suc n" using polls gr0_implies_Suc by blast
  obtain v where v: "listener_next C (x_others X) l (Suc n) (mt_world p) = (Ret c, v)" "waiting sent l cs v"
    using Cons.prems(1) unbounded_channel.next_takes [OF C, of "mt_world p" l _ c cs "x_others X" n] unfolding waiting_def by blast
  let ?q = "p\<lparr>mt_world := v\<rparr>"
  have "dealt ?q" using Cons.prems(2) by (simp add: dealt_def)
  from dealt_next [OF this, of "activity (worker_threads ?q)" start c] activity Cons.prems(3)
  obtain u where u: "dispatch start c (?q\<lparr>worker_threads := activity (worker_threads ?q), arrived := arrived ?q @ [c]\<rparr>) = (Ret (), u)"
    "dealt u" "arrived u = arrived p @ [c]" by auto
  have world: "mt_world u = v"
    using safely_dispatch [of start c "?q\<lparr>worker_threads := activity (worker_threads ?q), arrived := arrived ?q @ [c]\<rparr>"] u(1)
    by (simp add: safely_def)
  have "mt_step (listener_next C (x_others X) l (x_polls X)) p = (Ret c, ?q)"
    using v(1) by (simp only: mt_step_def n) simp
  then have step: "mt_accept_rounds E C X activity l start (length (c # cs)) p = mt_accept_rounds E C X activity l (start + 1) (length cs) u"
    using u(1) by (simp add: range_next_small [OF small] bind_def [of "mt_step _"] bind_def [of "modify _"]
        bind_def [of "dispatch _ _"] modify_def)
  have "unat (start + 1) = Suc (unat start)" using small by (simp add: unat_word_ariths)
  then show ?case
    unfolding step using Cons.IH [of u "start + 1"] v(2) world u(2,3) Cons.prems(3,4) by simp
qed

text \<open>Six clients, and threads that only receive.\<close>

definition six_clients :: "(unit, nat option, u64, nat, ConnectionRequest list) full_world dispatcher" where
  "six_clients = \<lparr>mt_world = first_world\<lparr>channels := one_cell 1 0 (map (\<lambda>h. \<lparr>cr_handle = h\<rparr>) [10, 11, 12, 13, 14, 15])\<rparr>,
     worker_threads = replicate 4 new_thread, arrived = []\<rparr>"

definition receiving_threads :: "WorkerThread list \<Rightarrow> WorkerThread list" where
  "receiving_threads ts = map (\<lambda>t. t\<lparr>received := length (sent_to t)\<rparr>) ts"

lemma receiving_sent: "map (\<lambda>t. (sent_to t, receiving t)) (receiving_threads ts) = map (\<lambda>t. (sent_to t, receiving t)) ts"
  by (simp add: receiving_threads_def)

theorem connections_dealt_in_turn_witness:
  "\<exists>p'. mt_accept_rounds (ideal_env Debug 4) list_channel idle receiving_threads busy_listener 0 6 six_clients = (Unfinished, p')
    \<and> sent_to (worker_threads p' ! 1) = [\<lparr>cr_handle = 11\<rparr>, \<lparr>cr_handle = 15\<rparr>]"
proof -
  let ?cs = "map (\<lambda>h. \<lparr>cr_handle = h\<rparr>) [10, 11, 12, 13, 14, 15]"
  have "waiting (\<lambda>c. c) busy_listener ?cs (mt_world six_clients)"
    by (simp add: waiting_def busy_listener_def six_clients_def one_cell_def)
  moreover have "dealt six_clients"
    by (simp add: dealt_def six_clients_def new_thread_def)
  ultimately obtain p' where run: "mt_accept_rounds (ideal_env Debug 4) list_channel idle receiving_threads busy_listener 0 (length ?cs) six_clients
      = (Unfinished, p')" and "arrived p' = ?cs"
    using mt_rounds_all [OF lc.unbounded_channel_axioms receiving_sent, of idle busy_listener ?cs six_clients 0 "ideal_env Debug 4"]
    by (auto simp: six_clients_def simp del: mt_accept_rounds.simps)
  moreover have "sent_to (worker_threads p' ! 1) = map ((!) (arrived p')) (filter (\<lambda>k. k mod 4 = 1) [0..<length (arrived p')])"
    using connections_dealt_in_turn [OF receiving_sent run, of 1] by (simp add: six_clients_def del: mt_accept_rounds.simps)
  ultimately have "sent_to (worker_threads p' ! 1) = [\<lparr>cr_handle = 11\<rparr>, \<lparr>cr_handle = 15\<rparr>]"
    by (simp add: upt_rec del: mt_accept_rounds.simps)
  moreover have "length ?cs = 6" by simp
  ultimately show ?thesis using run by metis
qed

text \<open>
  Built with the feature \<^verbatim>\<open>event\<close>, a thread of the multi-threaded server runs two loops on its worker, each of
  which waits to be its only owner. Neither can be: however long they run, whatever the other tasks do, and
  even when the thread itself has let go of the worker, no loop ends, and the worker is never released.
\<close>

theorem event_threads_never_end:
  fixes w :: "('u, 'wk, 'q, 'n, 'c) full_world"
  assumes "ucx_library E" "unbounded_channel C sent" "steady E X" "holds E R L w"
    and "\<And>v cb. cb \<in> set (reported E k v) \<Longrightarrow> callback_ok (v :: ('u, 'wk, 'q, 'n, 'c) full_world) cb"
    and "r_workers R k = length (thread_loops True)"
  shows "fst (polling E A C (x_others X) spins k n w) \<noteq> Ret ()
    \<and> fst (event_loop E A C (x_others X) spins k n w) \<noteq> Ret res"
proof -
  have many: "1 < r_workers R k" using assms(6) by (simp add: thread_loops_def)
  have steady: "holds E R L (x_others X v)" if "holds E R L v" for v R L using assms(3) that by (simp add: steady_def)
  have "safely (polling E A C (x_others X) spins k n) w (\<lambda>_ _. False)"
    by (rule ucx_library.shared_loops(1) [OF assms(1,2) _ _ assms(4) many]) (use assms(5) steady in auto)
  moreover have "safely (event_loop E A C (x_others X) spins k n) w (\<lambda>_ _. False)"
    by (rule ucx_library.shared_loops(2) [OF assms(1,2) _ _ assms(4) many]) (use assms(5) steady in auto)
  ultimately show ?thesis by (auto simp: safely_def split: prod.splits)
qed

text \<open>A worker that only its two loops own.\<close>

definition two_loops :: "(unit, nat option, RawMsg list, nat list \<times> bool, ConnectionRequest list) full_world" where
  "two_loops = first_world\<lparr>contexts := one_cell 1 0 \<lparr>c_handle = 3\<rparr>,
     workers := one_cell 2 0 \<lparr>w_handle = 4, w_context = 0, am_streams = []\<rparr>\<rparr>"

theorem event_threads_never_end_witness:
  "fst (polling (ideal_env Debug 4) list_ops list_channel (\<lambda>w. w) 3 0 100 two_loops) \<noteq> Ret ()"
proof -
  have "holds (ideal_env Debug 4) (no_refs\<lparr>r_workers := (\<lambda>a. if a = 0 then 2 else 0)\<rparr>) (\<lambda>_. 0) two_loops"
    by (auto simp: holds_def owns_def refs_defs counts_def heap_fresh_def endpoints_ok_def refs_from_def two_loops_def
        first_world_def one_cell_def empty_heap_def channels_ok_def maps_ok_def requests_ready_def handed_out_def no_refs_def ideal_env_def
        ok_reply_def split: option.splits if_splits)
  from event_threads_never_end [OF ideal.ucx_library_axioms lc.unbounded_channel_axioms busy_facts(4) this, of 0 list_ops 3 100]
  show ?thesis by (simp add: thread_loops_def reported_def ideal_env_def ok_reply_def)
qed

end
